(* ===== verification/Relay_Prelude.thy ===== *)
theory Relay_Prelude
  imports Main "HOL-Library.Word" "HOL-Library.List_Lexorder" "HOL-Library.Char_ord"
begin

text \<open>
  Shared vocabulary of the development: the types that stand for Go's strings, byte slices,
  connection pointers and websocket frames, the collections of hints the component theories
  fill, and generic lemmas on maps and lists.

  A Go \<open>string\<close> and a Go \<open>[]byte\<close> are both sequences of bytes, and an Isabelle \<open>char\<close> is
  exactly one byte, so both become \<open>string\<close>. A Go \<open>int\<close> is 64 bits wide here (the relay is
  built for 64-bit targets); where it can overflow, \<open>wrap64\<close> writes the wrap-around out.
\<close>

named_theorems relay_simps \<open>equations that unfold small record-like helpers\<close>
named_theorems relay_intros \<open>invariant preservation lemmas\<close>

section \<open>Types\<close>

type_synonym bytes = string

text \<open>A pointer to a \<open>connections.Conn\<close>: an address of the explicit heap.\<close>
type_synonym cref = nat

text \<open>\<open>websocket.MessageType\<close>: the two frame types of the protocol (\<open>MessageText = 1\<close>,
  \<open>MessageBinary = 2\<close>).\<close>
datatype msg_type = MessageText | MessageBinary

primrec msg_type_int :: "msg_type \<Rightarrow> int" where
  "msg_type_int MessageText = 1"
| "msg_type_int MessageBinary = 2"

text \<open>The \<open>websocket.StatusCode\<close> values the relay uses.\<close>
datatype status_code = StatusNormalClosure | StatusGoingAway | StatusPolicyViolation

text \<open>What the relay does to a websocket: a frame handed to \<open>WS.Write\<close>, a closing handshake
  started by \<open>WS.Close\<close>, the abrupt \<open>WS.CloseNow\<close>, a keepalive \<open>WS.Ping\<close>. The library's own behaviour behind
  these calls is outside the model; every call is recorded in the order it is issued.\<close>
datatype effect =
    Write cref msg_type bytes
  | Close cref status_code string
  | CloseNow cref
  | Ping cref

section \<open>64-bit integers\<close>

definition wrap64 :: "int \<Rightarrow> int" where
  "wrap64 x = (x + 2 ^ 63) mod 2 ^ 64 - 2 ^ 63"

lemma wrap64_sint: "wrap64 x = sint (word_of_int x :: 64 word)"
  by (simp add: wrap64_def int_word_sint)

lemma wrap64_id: "- (2 ^ 63) \<le> x \<Longrightarrow> x < 2 ^ 63 \<Longrightarrow> wrap64 x = x"
  by (simp add: wrap64_def)

lemma wrap64_range: "- (2 ^ 63) \<le> wrap64 x \<and> wrap64 x < 2 ^ 63"
  by (simp add: wrap64_def)

section \<open>Maps\<close>

text \<open>\<open>delete(m, k)\<close>; deleting a missing key is a no-op, as in Go.\<close>
definition map_delete :: "('k \<rightharpoonup> 'v) \<Rightarrow> 'k \<Rightarrow> ('k \<rightharpoonup> 'v)" where
  "map_delete m k = m(k := None)"

lemma map_delete_apply [simp]: "map_delete m k j = (if j = k then None else m j)"
  by (simp add: map_delete_def)

lemma dom_map_delete [simp]: "dom (map_delete m k) = dom m - {k}"
  by (auto simp: map_delete_def)

lemma map_delete_upd [simp]: "map_delete (m(k \<mapsto> v)) k = map_delete m k"
  by (simp add: map_delete_def)

lemma map_delete_id [simp]: "m k = None \<Longrightarrow> map_delete m k = m"
  by (auto simp: map_delete_def)

lemma finite_dom_map_delete [simp]: "finite (dom m) \<Longrightarrow> finite (dom (map_delete m k))"
  by simp

text \<open>\<open>m[k]\<close> on a \<open>map[string]string\<close>: a missing key reads as the zero value.\<close>
definition map_get_str :: "(string \<rightharpoonup> string) \<Rightarrow> string \<Rightarrow> string" where
  "map_get_str m k = (case m k of None \<Rightarrow> [] | Some v \<Rightarrow> v)"

lemma map_get_str_upd [simp]: "map_get_str (m(k \<mapsto> v)) j = (if j = k then v else map_get_str m j)"
  by (simp add: map_get_str_def)

lemma map_get_str_None [simp]: "m k = None \<Longrightarrow> map_get_str m k = []"
  by (simp add: map_get_str_def)

lemma map_get_str_Some [simp]: "m k = Some v \<Longrightarrow> map_get_str m k = v"
  by (simp add: map_get_str_def)

text \<open>\<open>len(m)\<close>.\<close>
definition map_len :: "('k \<rightharpoonup> 'v) \<Rightarrow> nat" where
  "map_len m = card (dom m)"

lemma map_len_empty [simp]: "map_len Map.empty = 0"
  by (simp add: map_len_def)

lemma map_len_upd [simp]:
  "finite (dom m) \<Longrightarrow> map_len (m(k \<mapsto> v)) = (if k \<in> dom m then map_len m else Suc (map_len m))"
  by (simp add: map_len_def insert_absorb)

lemma map_len_0: "finite (dom m) \<Longrightarrow> map_len m = 0 \<longleftrightarrow> m = Map.empty"
  by (simp add: map_len_def)

lemma map_len_pos: "finite (dom m) \<Longrightarrow> m k = Some v \<Longrightarrow> 0 < map_len m"
  by (auto simp: map_len_def card_gt_0_iff)

text \<open>
  Go iterates over a map in an order the language leaves open. Code that ranges over a map
  takes that order as an argument: a function that lists the keys of the map, each once.
\<close>
definition range_order :: "('k set \<Rightarrow> 'k list) \<Rightarrow> bool" where
  "range_order order \<longleftrightarrow> (\<forall>A. finite A \<longrightarrow> set (order A) = A \<and> distinct (order A))"

lemma range_orderD:
  "range_order order \<Longrightarrow> finite A \<Longrightarrow> set (order A) = A"
  "range_order order \<Longrightarrow> finite A \<Longrightarrow> distinct (order A)"
  by (auto simp: range_order_def)

text \<open>One order that qualifies: the keys sorted.\<close>
definition sorted_order :: "('k::linorder) set \<Rightarrow> 'k list" where
  "sorted_order A = sorted_list_of_set A"

lemma range_order_sorted: "range_order sorted_order"
  by (simp add: range_order_def sorted_order_def)

text \<open>The values of a map, in the order of a list of its keys.\<close>
definition map_values :: "('k \<rightharpoonup> 'v) \<Rightarrow> 'k list \<Rightarrow> 'v list" where
  "map_values m ks = List.map_filter m ks"

lemma set_map_values: "set (map_values m ks) = {v. \<exists>k\<in>set ks. m k = Some v}"
  by (auto simp: map_values_def List.map_filter_def image_iff) force

lemma set_map_values_order:
  "range_order order \<Longrightarrow> finite (dom m) \<Longrightarrow> set (map_values m (order (dom m))) = ran m"
  by (auto simp: set_map_values range_orderD ran_def)

section \<open>Lists\<close>

lemma filter_filter_conj: "filter P (filter Q xs) = filter (\<lambda>x. P x \<and> Q x) xs"
  by (simp add: conj_commute)

end
