(* ===== verification/Go_Strings.thy ===== *)
theory Go_Strings
  imports Relay_Prelude
begin

text \<open>
  The functions of Go's standard library that the relay applies to strings:
  \<open>strings.TrimPrefix\<close>, \<open>TrimSpace\<close>, \<open>Split\<close>, \<open>ToLower\<close>, \<open>strconv.Atoi\<close>,
  \<open>filepath.Join\<close> and \<open>net.SplitHostPort\<close>. They are part of the language's library, so
  they are modelled as they are documented to behave and map to no line of the repository.
\<close>

section \<open>Prefixes and separators\<close>

definition has_prefix :: "string \<Rightarrow> string \<Rightarrow> bool" where
  "has_prefix s p \<longleftrightarrow> take (length p) s = p"

definition trim_prefix :: "string \<Rightarrow> string \<Rightarrow> string" where
  "trim_prefix s p = (if has_prefix s p then drop (length p) s else s)"

lemma trim_prefix_append [simp]: "trim_prefix (p @ s) p = s"
  by (simp add: trim_prefix_def has_prefix_def)

lemma trim_prefix_Nil [simp]: "trim_prefix [] p = []"
  by (simp add: trim_prefix_def has_prefix_def)

lemma has_prefix_append_iff: "has_prefix s p \<longleftrightarrow> (\<exists>r. s = p @ r)"
  unfolding has_prefix_def by (metis append_eq_conv_conj append_take_drop_id)

text \<open>\<open>strings.Split(s, sep)\<close> for a one-byte separator: always at least one part.\<close>
fun split_on :: "char \<Rightarrow> string \<Rightarrow> string list" where
  "split_on c [] = [[]]"
| "split_on c (x # xs) =
     (if x = c then [] # split_on c xs
      else (case split_on c xs of [] \<Rightarrow> [[x]] | p # ps \<Rightarrow> (x # p) # ps))"

text \<open>\<open>strings.Join(parts, sep)\<close> for a one-byte separator.\<close>
fun join_with :: "char \<Rightarrow> string list \<Rightarrow> string" where
  "join_with c [] = []"
| "join_with c [p] = p"
| "join_with c (p # q # ps) = p @ c # join_with c (q # ps)"

lemma split_on_not_Nil [simp]: "split_on c s \<noteq> []"
  by (cases s) (auto split: list.splits)

lemma split_on_no_sep: "list_all (\<lambda>p. c \<notin> set p) (split_on c s)"
  by (induction c s rule: split_on.induct) (auto split: list.splits)

lemma split_on_id: "c \<notin> set s \<Longrightarrow> split_on c s = [s]"
  by (induction c s rule: split_on.induct) auto

lemma split_on_append: "c \<notin> set s \<Longrightarrow> split_on c (s @ c # r) = s # split_on c r"
  by (induction s) auto

lemma split_join: "ps \<noteq> [] \<Longrightarrow> list_all (\<lambda>p. c \<notin> set p) ps \<Longrightarrow> split_on c (join_with c ps) = ps"
  by (induction c ps rule: join_with.induct) (auto simp: split_on_id split_on_append)

lemma join_split: "join_with c (split_on c s) = s"
proof (induction c s rule: split_on.induct)
  case (2 c x xs)
  then show ?case
    by (cases "split_on c xs") (auto, metis join_with.simps append_Cons list.exhaust)
qed simp

section \<open>White space\<close>

text \<open>
  \<open>strings.TrimSpace\<close> removes leading and trailing Unicode white space. On bytes: the six
  ASCII spaces and the UTF-8 encodings of U+0085, U+00A0, U+1680, U+2000 to U+200A, U+2028,
  U+2029, U+202F, U+205F and U+3000.
\<close>
definition space_encodings :: "string list" where
  "space_encodings =
     [[CHR 0x09], [CHR 0x0A], [CHR 0x0B], [CHR 0x0C], [CHR 0x0D], [CHR 0x20],
      [CHR 0xC2, CHR 0x85], [CHR 0xC2, CHR 0xA0], [CHR 0xE1, CHR 0x9A, CHR 0x80],
      [CHR 0xE2, CHR 0x80, CHR 0x80], [CHR 0xE2, CHR 0x80, CHR 0x81],
      [CHR 0xE2, CHR 0x80, CHR 0x82], [CHR 0xE2, CHR 0x80, CHR 0x83],
      [CHR 0xE2, CHR 0x80, CHR 0x84], [CHR 0xE2, CHR 0x80, CHR 0x85],
      [CHR 0xE2, CHR 0x80, CHR 0x86], [CHR 0xE2, CHR 0x80, CHR 0x87],
      [CHR 0xE2, CHR 0x80, CHR 0x88], [CHR 0xE2, CHR 0x80, CHR 0x89],
      [CHR 0xE2, CHR 0x80, CHR 0x8A], [CHR 0xE2, CHR 0x80, CHR 0xA8],
      [CHR 0xE2, CHR 0x80, CHR 0xA9], [CHR 0xE2, CHR 0x80, CHR 0xAF],
      [CHR 0xE2, CHR 0x81, CHR 0x9F], [CHR 0xE3, CHR 0x80, CHR 0x80]]"

lemma space_encodings_nonempty: "e \<in> set space_encodings \<Longrightarrow> e \<noteq> []"
  by (auto simp: space_encodings_def)

text \<open>Strip any one of the given non-empty prefixes, as long as there is one. The fuel is
  the length of the string, which every round shortens.\<close>
fun strip_prefixes :: "string list \<Rightarrow> nat \<Rightarrow> string \<Rightarrow> string" where
  "strip_prefixes es 0 s = s"
| "strip_prefixes es (Suc n) s =
     (case find (has_prefix s) es of
        None \<Rightarrow> s
      | Some e \<Rightarrow> strip_prefixes es n (drop (length e) s))"

definition trim_left :: "string list \<Rightarrow> string \<Rightarrow> string" where
  "trim_left es s = strip_prefixes es (length s) s"

definition trim_space :: "string \<Rightarrow> string" where
  "trim_space s =
     (let l = trim_left space_encodings s
      in rev (trim_left (map rev space_encodings) (rev l)))"

lemma has_prefix_Nil [simp]: "has_prefix [] e \<longleftrightarrow> e = []"
  by (auto simp: has_prefix_def)

lemma strip_prefixes_clean:
  "\<lbrakk>\<forall>e\<in>set es. e \<noteq> []; length s \<le> n\<rbrakk> \<Longrightarrow> find (has_prefix (strip_prefixes es n s)) es = None"
proof (induction es n s rule: strip_prefixes.induct)
  case (1 es s)
  then show ?case by (auto simp: find_None_iff)
next
  case (2 es n s)
  show ?case
  proof (cases "find (has_prefix s) es")
    case None
    then show ?thesis by simp
  next
    case (Some e)
    with 2(2) have "e \<noteq> []" by (auto simp: find_Some_iff)
    with 2(3) have "length (drop (length e) s) \<le> n" by (cases e) auto
    with Some 2(1) [OF Some 2(2)] show ?thesis by simp
  qed
qed

lemma trim_left_clean:
  "list_all (\<lambda>e. e \<noteq> []) es \<Longrightarrow> list_all (\<lambda>e. \<not> has_prefix (trim_left es s) e) es"
  using strip_prefixes_clean [of es s "length s"]
  by (auto simp: trim_left_def find_None_iff list_all_iff)

lemma strip_prefixes_suffix: "\<exists>p. s = p @ strip_prefixes es n s"
proof (induction es n s rule: strip_prefixes.induct)
  case (2 es n s)
  then show ?case
    by (auto split: option.split simp: append_eq_conv_conj) (metis append.assoc append_take_drop_id)
qed simp

section \<open>Lower case\<close>

text \<open>\<open>strings.ToLower\<close> on the ASCII letters. Folding of other characters is left out: the
  only letters outside ASCII whose lower case is ASCII give \<open>k\<close> and \<open>i\<close>, so on the words
  the relay compares the result with (none has either) the ASCII part decides.\<close>
definition lower_char :: "char \<Rightarrow> char" where
  "lower_char c = (if CHR ''A'' \<le> c \<and> c \<le> CHR ''Z'' then char_of (of_char c + 32 :: nat) else c)"

definition to_lower :: "string \<Rightarrow> string" where
  "to_lower = map lower_char"

section \<open>Decimal integers\<close>

definition is_digit :: "char \<Rightarrow> bool" where
  "is_digit c \<longleftrightarrow> CHR ''0'' \<le> c \<and> c \<le> CHR ''9''"

definition digit_val :: "char \<Rightarrow> int" where
  "digit_val c = of_char c - 48"

definition digits_val :: "string \<Rightarrow> int" where
  "digits_val ds = foldl (\<lambda>n c. 10 * n + digit_val c) 0 ds"

text \<open>\<open>strconv.Atoi\<close>: an optional sign, at least one digit and nothing else, within the
  range of a 64-bit \<open>int\<close>; \<open>None\<close> stands for the error.\<close>
definition atoi :: "string \<Rightarrow> int option" where
  "atoi s =
     (let (neg, ds) =
        (case s of
           [] \<Rightarrow> (False, [])
         | c # cs \<Rightarrow> if c = CHR ''-'' then (True, cs)
                     else if c = CHR ''+'' then (False, cs) else (False, s))
      in if ds = [] \<or> \<not> list_all is_digit ds then None
         else let n = (if neg then - digits_val ds else digits_val ds)
              in if - (2 ^ 63) \<le> n \<and> n < 2 ^ 63 then Some n else None)"

lemma atoi_range: "atoi s = Some n \<Longrightarrow> - (2 ^ 63) \<le> n \<and> n < 2 ^ 63"
  by (auto simp: atoi_def Let_def split: list.splits if_splits)

lemma atoi_Nil [simp]: "atoi [] = None"
  by (simp add: atoi_def)

section \<open>Paths\<close>

text \<open>\<open>filepath.Clean\<close> and \<open>filepath.Join\<close> on a Unix system.\<close>
fun clean_parts :: "bool \<Rightarrow> string list \<Rightarrow> string list \<Rightarrow> string list" where
  "clean_parts rooted out [] = rev out"
| "clean_parts rooted out (p # ps) =
     (if p = [] \<or> p = ''.'' then clean_parts rooted out ps
      else if p = ''..'' then
        (if out \<noteq> [] \<and> hd out \<noteq> ''..'' then clean_parts rooted (tl out) ps
         else if rooted then clean_parts rooted out ps
         else clean_parts rooted (p # out) ps)
      else clean_parts rooted (p # out) ps)"

definition clean_path :: "string \<Rightarrow> string" where
  "clean_path s =
     (let rooted = has_prefix s ''/'';
          body = join_with (CHR ''/'') (clean_parts rooted [] (split_on (CHR ''/'') s))
      in if rooted then CHR ''/'' # body else if body = [] then ''.'' else body)"

definition join_path :: "string \<Rightarrow> string \<Rightarrow> string" where
  "join_path a b =
     (if a = [] then (if b = [] then [] else clean_path b) else clean_path (a @ CHR ''/'' # b))"

section \<open>Host and port\<close>

text \<open>\<open>net.SplitHostPort\<close>, with \<open>None\<close> for its error. The index of the last colon is
  \<open>length host\<close> of the split at the last colon.\<close>
definition last_index :: "char \<Rightarrow> string \<Rightarrow> nat option" where
  "last_index c s =
     (if c \<in> set s then Some (length s - 1 - length (takeWhile (\<lambda>x. x \<noteq> c) (rev s))) else None)"

definition first_index :: "char \<Rightarrow> string \<Rightarrow> nat option" where
  "first_index c s = (if c \<in> set s then Some (length (takeWhile (\<lambda>x. x \<noteq> c) s)) else None)"

definition split_host_port :: "string \<Rightarrow> (string \<times> string) option" where
  "split_host_port hp =
     (case last_index (CHR '':'') hp of
        None \<Rightarrow> None
      | Some i \<Rightarrow>
          (if hd hp = CHR ''['' then
             (case first_index (CHR '']'') hp of
                None \<Rightarrow> None
              | Some e \<Rightarrow>
                  if e + 1 \<noteq> i then None
                  else if CHR ''['' \<in> set (drop 1 hp) \<or> CHR '']'' \<in> set (drop (e + 1) hp) then None
                  else Some (drop 1 (take e hp), drop (i + 1) hp))
           else if CHR '':'' \<in> set (take i hp) then None
           else if CHR ''['' \<in> set hp \<or> CHR '']'' \<in> set hp then None
           else Some (take i hp, drop (i + 1) hp)))"

end
