(* ===== verification/Json.thy ===== *)
theory Json
  imports Go_Strings
begin

text \<open>
  The parts of Go's \<open>encoding/json\<close> the relay's messages pass through: how a string is
  quoted by \<open>json.Marshal\<close> and how \<open>json.Unmarshal\<close> reads a document. The package belongs
  to Go's standard library, so it is modelled as documented; nothing here maps to a line of
  the repository.

  A document is read in one pass into a value of type \<open>json\<close> whose strings are already
  unquoted. The nesting limit is the package's (10000 open brackets); the fuel bounds the
  recursion by the length of the input, and \<open>parse_value_fuel\<close> shows that no larger amount
  changes the answer.
\<close>

section \<open>UTF-8\<close>

definition byte_in :: "int \<Rightarrow> int \<Rightarrow> char \<Rightarrow> bool" where
  "byte_in lo hi c \<longleftrightarrow> lo \<le> of_char c \<and> of_char c \<le> hi"

text \<open>Continuation bytes, and the second bytes a three- or four-byte lead allows.\<close>
definition utf8_cont :: "char \<Rightarrow> bool" where
  "utf8_cont b \<longleftrightarrow> byte_in 0x80 0xBF b"

definition utf8_lead3 :: "char \<Rightarrow> char \<Rightarrow> bool" where
  "utf8_lead3 a b \<longleftrightarrow>
     a = CHR 0xE0 \<and> byte_in 0xA0 0xBF b \<or> byte_in 0xE1 0xEC a \<and> utf8_cont b
     \<or> a = CHR 0xED \<and> byte_in 0x80 0x9F b \<or> byte_in 0xEE 0xEF a \<and> utf8_cont b"

definition utf8_lead4 :: "char \<Rightarrow> char \<Rightarrow> bool" where
  "utf8_lead4 a b \<longleftrightarrow>
     a = CHR 0xF0 \<and> byte_in 0x90 0xBF b \<or> byte_in 0xF1 0xF3 a \<and> utf8_cont b
     \<or> a = CHR 0xF4 \<and> byte_in 0x80 0x8F b"

text \<open>The length of the well-formed encoding at the front of the string, 0 if there is none.\<close>
fun utf8_len :: "string \<Rightarrow> nat" where
  "utf8_len [] = 0"
| "utf8_len (a # s) =
     (if byte_in 0x00 0x7F a then 1
      else if byte_in 0xC2 0xDF a then (case s of b # _ \<Rightarrow> if utf8_cont b then 2 else 0 | _ \<Rightarrow> 0)
      else (case s of
              b # c # t \<Rightarrow>
                if utf8_lead3 a b then (if utf8_cont c then 3 else 0)
                else if utf8_lead4 a b \<and> utf8_cont c
                then (case t of d # _ \<Rightarrow> if utf8_cont d then 4 else 0 | _ \<Rightarrow> 0)
                else 0
            | _ \<Rightarrow> 0))"

definition is_ascii :: "char \<Rightarrow> bool" where
  "is_ascii c \<longleftrightarrow> (of_char c :: int) < 128"

definition ascii :: "string \<Rightarrow> bool" where
  "ascii s \<longleftrightarrow> list_all is_ascii s"

text \<open>\<open>utf8.EncodeRune\<close>; code points beyond the range or in the surrogate gap become U+FFFD.\<close>
definition encode_rune :: "int \<Rightarrow> string" where
  "encode_rune r =
     (if r < 0x80 then [char_of r]
      else if r < 0x800 then [char_of (0xC0 + r div 64), char_of (0x80 + r mod 64)]
      else if 0xD800 \<le> r \<and> r < 0xE000 \<or> 0x10FFFF < r then [CHR 0xEF, CHR 0xBF, CHR 0xBD]
      else if r < 0x10000
        then [char_of (0xE0 + r div 4096), char_of (0x80 + r div 64 mod 64), char_of (0x80 + r mod 64)]
      else [char_of (0xF0 + r div 262144), char_of (0x80 + r div 4096 mod 64),
            char_of (0x80 + r div 64 mod 64), char_of (0x80 + r mod 64)])"

section \<open>Quoting\<close>

definition hex_digit :: "int \<Rightarrow> char" where
  "hex_digit n = (if n < 10 then char_of (48 + n) else char_of (87 + n))"

text \<open>Backslash and quote, the short escapes, and \<open>\u00XX\<close> for the other control
  characters and for \<open><\<close>, \<open>>\<close>, \<open>&\<close>; everything else in ASCII stands for itself.\<close>
definition escape_ascii :: "char \<Rightarrow> string" where
  "escape_ascii c =
     (if c = CHR 0x5C \<or> c = CHR 0x22 then [CHR 0x5C, c]
      else if c = CHR 0x08 then [CHR 0x5C, CHR ''b'']
      else if c = CHR 0x0C then [CHR 0x5C, CHR ''f'']
      else if c = CHR 0x0A then [CHR 0x5C, CHR ''n'']
      else if c = CHR 0x0D then [CHR 0x5C, CHR ''r'']
      else if c = CHR 0x09 then [CHR 0x5C, CHR ''t'']
      else if (of_char c :: int) < 32 \<or> c = CHR ''<'' \<or> c = CHR ''>'' \<or> c = CHR ''&''
        then [CHR 0x5C, CHR ''u'', CHR ''0'', CHR ''0'',
              hex_digit (of_char c div 16), hex_digit (of_char c mod 16)]
      else [c])"

fun json_chars :: "string \<Rightarrow> string" where
  "json_chars [] = []"
| "json_chars (c # cs) =
     (if is_ascii c then escape_ascii c @ json_chars cs
      else (case utf8_len (c # cs) of
              0 \<Rightarrow> [CHR 0x5C] @ ''ufffd'' @ json_chars cs
            | Suc k \<Rightarrow>
                (if take 3 (c # cs) = [CHR 0xE2, CHR 0x80, CHR 0xA8] then [CHR 0x5C] @ ''u2028''
                 else if take 3 (c # cs) = [CHR 0xE2, CHR 0x80, CHR 0xA9] then [CHR 0x5C] @ ''u2029''
                 else take (Suc k) (c # cs))
                @ json_chars (drop k cs)))"

definition json_string :: "string \<Rightarrow> string" where
  "json_string s = CHR 0x22 # json_chars s @ [CHR 0x22]"

section \<open>Integers\<close>

function show_digits :: "int \<Rightarrow> string" where
  "show_digits n =
     (if n < 10 then [char_of (48 + n)] else show_digits (n div 10) @ [char_of (48 + n mod 10)])"
  by pat_completeness auto
termination
  by (relation "measure nat") auto

declare show_digits.simps [simp del]

definition show_int :: "int \<Rightarrow> string" where
  "show_int i = (if i < 0 then CHR ''-'' # show_digits (- i) else show_digits i)"

section \<open>Reading\<close>

datatype json =
    JNull
  | JBool bool
  | JNum string
  | JStr string
  | JArr "json list"
  | JObj "(string \<times> json) list"

definition is_ws :: "char \<Rightarrow> bool" where
  "is_ws c \<longleftrightarrow> c = CHR 0x20 \<or> c = CHR 0x09 \<or> c = CHR 0x0A \<or> c = CHR 0x0D"

definition skip_ws :: "string \<Rightarrow> string" where
  "skip_ws = dropWhile is_ws"

definition hex_val :: "char \<Rightarrow> int option" where
  "hex_val c =
     (if CHR ''0'' \<le> c \<and> c \<le> CHR ''9'' then Some (of_char c - 48)
      else if CHR ''a'' \<le> c \<and> c \<le> CHR ''f'' then Some (of_char c - 87)
      else if CHR ''A'' \<le> c \<and> c \<le> CHR ''F'' then Some (of_char c - 55)
      else None)"

text \<open>The four hexadecimal digits at the front of the string.\<close>
definition hex4 :: "string \<Rightarrow> int option" where
  "hex4 s =
     (case s of
        a # b # c # d # _ \<Rightarrow>
          (case (hex_val a, hex_val b, hex_val c, hex_val d) of
             (Some x, Some y, Some z, Some w) \<Rightarrow> Some (((x * 16 + y) * 16 + z) * 16 + w)
           | _ \<Rightarrow> None)
      | _ \<Rightarrow> None)"

text \<open>A second escape of a surrogate pair: \<open>\uXXXX\<close> at the front of the string.\<close>
definition low_surrogate :: "string \<Rightarrow> int option" where
  "low_surrogate s =
     (case s of
        a # b # r \<Rightarrow>
          if a = CHR 0x5C \<and> b = CHR ''u'' then
            (case hex4 r of
               Some v \<Rightarrow> if 0xDC00 \<le> v \<and> v < 0xE000 then Some v else None
             | None \<Rightarrow> None)
          else None
      | _ \<Rightarrow> None)"

definition short_escape :: "char \<Rightarrow> char option" where
  "short_escape e =
     (if e = CHR 0x22 \<or> e = CHR 0x5C \<or> e = CHR ''/'' then Some e
      else if e = CHR ''b'' then Some (CHR 0x08)
      else if e = CHR ''f'' then Some (CHR 0x0C)
      else if e = CHR ''n'' then Some (CHR 0x0A)
      else if e = CHR ''r'' then Some (CHR 0x0D)
      else if e = CHR ''t'' then Some (CHR 0x09)
      else None)"

definition prepend :: "string \<Rightarrow> (string \<times> string) option \<Rightarrow> (string \<times> string) option" where
  "prepend p = map_option (\<lambda>(t, r). (p @ t, r))"

text \<open>The rest of a string literal after its opening quote: the text it denotes and what
  follows the closing quote.\<close>
fun parse_str :: "string \<Rightarrow> (string \<times> string) option" where
  "parse_str [] = None"
| "parse_str (c # s) =
     (if c = CHR 0x22 then Some ([], s)
      else if c = CHR 0x5C then
        (case s of
           [] \<Rightarrow> None
         | e # s1 \<Rightarrow>
             (case short_escape e of
                Some b \<Rightarrow> prepend [b] (parse_str s1)
              | None \<Rightarrow>
                  if e = CHR ''u'' then
                    (case hex4 s1 of
                       None \<Rightarrow> None
                     | Some r \<Rightarrow>
                         if 0xD800 \<le> r \<and> r < 0xE000 then
                           (case low_surrogate (drop 4 s1) of
                              Some r1 \<Rightarrow>
                                if r < 0xDC00
                                then prepend (encode_rune ((r - 0xD800) * 1024 + (r1 - 0xDC00) + 0x10000))
                                       (parse_str (drop 10 s1))
                                else prepend (encode_rune 0xFFFD) (parse_str (drop 4 s1))
                            | None \<Rightarrow> prepend (encode_rune 0xFFFD) (parse_str (drop 4 s1)))
                         else prepend (encode_rune r) (parse_str (drop 4 s1)))
                  else None))
      else if (of_char c :: int) < 32 then None
      else (case utf8_len (c # s) of
              0 \<Rightarrow> prepend (encode_rune 0xFFFD) (parse_str s)
            | Suc k \<Rightarrow> prepend (take (Suc k) (c # s)) (parse_str (drop k s))))"

section \<open>Numbers\<close>

definition digits_of :: "string \<Rightarrow> string" where
  "digits_of = takeWhile is_digit"

text \<open>The integer part: \<open>0\<close>, or digits that do not start with \<open>0\<close>.\<close>
definition int_part :: "string \<Rightarrow> string" where
  "int_part s = (case s of [] \<Rightarrow> [] | c # _ \<Rightarrow> if c = CHR ''0'' then [c] else digits_of s)"

text \<open>The fraction and the exponent at the front of the string, \<open>None\<close> when one starts and
  does not finish.\<close>
definition frac_part :: "string \<Rightarrow> string option" where
  "frac_part s =
     (case s of
        [] \<Rightarrow> Some []
      | c # r \<Rightarrow> if c = CHR ''.'' then (if digits_of r = [] then None else Some (c # digits_of r))
                 else Some [])"

definition exp_part :: "string \<Rightarrow> string option" where
  "exp_part s =
     (case s of
        [] \<Rightarrow> Some []
      | c # r \<Rightarrow>
          if c = CHR ''e'' \<or> c = CHR ''E'' then
            (case r of
               [] \<Rightarrow> None
             | d # q \<Rightarrow>
                 if d = CHR ''+'' \<or> d = CHR ''-''
                 then (if digits_of q = [] then None else Some (c # d # digits_of q))
                 else (if digits_of r = [] then None else Some (c # digits_of r)))
          else Some [])"

definition parse_num :: "string \<Rightarrow> (string \<times> string) option" where
  "parse_num s =
     (let sign = (case s of [] \<Rightarrow> [] | c # _ \<Rightarrow> if c = CHR ''-'' then [c] else []);
          s1 = drop (length sign) s;
          i = int_part s1;
          s2 = drop (length i) s1
      in if i = [] then None
         else (case frac_part s2 of
                 None \<Rightarrow> None
               | Some f \<Rightarrow>
                   (let s3 = drop (length f) s2
                    in case exp_part s3 of
                         None \<Rightarrow> None
                       | Some e \<Rightarrow> Some (sign @ i @ f @ e, drop (length e) s3))))"

section \<open>Values\<close>

definition literal :: "string \<Rightarrow> json \<Rightarrow> string \<Rightarrow> (json \<times> string) option" where
  "literal w v s = (if has_prefix s w then Some (v, drop (length w) s) else None)"

fun parse_value :: "nat \<Rightarrow> int \<Rightarrow> string \<Rightarrow> (json \<times> string) option"
  and parse_elems :: "nat \<Rightarrow> int \<Rightarrow> string \<Rightarrow> (json list \<times> string) option"
  and parse_members :: "nat \<Rightarrow> int \<Rightarrow> string \<Rightarrow> ((string \<times> json) list \<times> string) option" where
  "parse_value 0 d s = None"
| "parse_value (Suc n) d s =
     (case skip_ws s of
        [] \<Rightarrow> None
      | c # r \<Rightarrow>
          if c = CHR ''{'' then
            (if d \<le> 0 then None
             else (case skip_ws r of
                     [] \<Rightarrow> None
                   | b # q \<Rightarrow> if b = CHR ''}'' then Some (JObj [], q)
                              else map_option (\<lambda>(ms, t). (JObj ms, t)) (parse_members n (d - 1) r)))
          else if c = CHR ''['' then
            (if d \<le> 0 then None
             else (case skip_ws r of
                     [] \<Rightarrow> None
                   | b # q \<Rightarrow> if b = CHR '']'' then Some (JArr [], q)
                              else map_option (\<lambda>(vs, t). (JArr vs, t)) (parse_elems n (d - 1) r)))
          else if c = CHR 0x22 then map_option (\<lambda>(t, q). (JStr t, q)) (parse_str r)
          else if c = CHR ''t'' then literal ''true'' (JBool True) (c # r)
          else if c = CHR ''f'' then literal ''false'' (JBool False) (c # r)
          else if c = CHR ''n'' then literal ''null'' JNull (c # r)
          else map_option (\<lambda>(t, q). (JNum t, q)) (parse_num (c # r)))"
| "parse_elems 0 d s = None"
| "parse_elems (Suc n) d s =
     (case parse_value n d s of
        None \<Rightarrow> None
      | Some (v, r) \<Rightarrow>
          (case skip_ws r of
             [] \<Rightarrow> None
           | c # q \<Rightarrow>
               if c = CHR '']'' then Some ([v], q)
               else if c = CHR '','' then map_option (\<lambda>(vs, t). (v # vs, t)) (parse_elems n d q)
               else None))"
| "parse_members 0 d s = None"
| "parse_members (Suc n) d s =
     (case skip_ws s of
        [] \<Rightarrow> None
      | b # r \<Rightarrow>
          if b \<noteq> CHR 0x22 then None
          else (case parse_str r of
                  None \<Rightarrow> None
                | Some (k, r1) \<Rightarrow>
                    (case skip_ws r1 of
                       [] \<Rightarrow> None
                     | c # r2 \<Rightarrow>
                         if c \<noteq> CHR '':'' then None
                         else (case parse_value n d r2 of
                                 None \<Rightarrow> None
                               | Some (v, r3) \<Rightarrow>
                                   (case skip_ws r3 of
                                      [] \<Rightarrow> None
                                    | e # q \<Rightarrow>
                                        if e = CHR ''}'' then Some ([(k, v)], q)
                                        else if e = CHR '',''
                                        then map_option (\<lambda>(ms, t). ((k, v) # ms, t)) (parse_members n d q)
                                        else None)))))"

text \<open>A whole document: one value, then white space only.\<close>
definition max_nesting :: int where
  "max_nesting = 10000"

definition parse_json :: "string \<Rightarrow> json option" where
  "parse_json s =
     (case parse_value (2 * length s + 2) max_nesting s of
        None \<Rightarrow> None
      | Some (v, r) \<Rightarrow> if skip_ws r = [] then Some v else None)"

section \<open>Quoting round trip\<close>

fun utf8_valid :: "string \<Rightarrow> bool" where
  "utf8_valid [] = True"
| "utf8_valid (c # cs) = (case utf8_len (c # cs) of 0 \<Rightarrow> False | Suc k \<Rightarrow> utf8_valid (drop k cs))"

lemma utf8_len_le: "utf8_len s \<le> length s"
  by (cases s) (auto split: list.split)

text \<open>Only the bytes of the encoding itself decide its length.\<close>
lemma utf8_len_cases:
  "utf8_len s = Suc k \<Longrightarrow>
     (\<exists>a t. k = 0 \<and> s = a # t \<and> byte_in 0x00 0x7F a)
   \<or> (\<exists>a b t. k = 1 \<and> s = a # b # t \<and> \<not> byte_in 0x00 0x7F a \<and> byte_in 0xC2 0xDF a \<and> utf8_cont b)
   \<or> (\<exists>a b c t. k = 2 \<and> s = a # b # c # t \<and> \<not> byte_in 0x00 0x7F a \<and> \<not> byte_in 0xC2 0xDF a
        \<and> utf8_lead3 a b \<and> utf8_cont c)
   \<or> (\<exists>a b c d t. k = 3 \<and> s = a # b # c # d # t \<and> \<not> byte_in 0x00 0x7F a \<and> \<not> byte_in 0xC2 0xDF a
        \<and> \<not> utf8_lead3 a b \<and> utf8_lead4 a b \<and> utf8_cont c \<and> utf8_cont d)"
  by (cases s) (force split: list.splits if_split_asm)+

lemma utf8_len_take:
  assumes "utf8_len s = Suc k"
  shows "utf8_len (take (Suc k) s @ r) = Suc k"
  using utf8_len_cases [OF assms] by (elim disjE exE conjE) simp_all

declare utf8_len.simps(2) [simp del]

lemma of_char_int_nonneg: "0 \<le> (of_char c :: int)"
  by (metis of_char_of of_nat_0_le_iff of_nat_of_char)

lemma of_char_int_less: "(of_char c :: int) < 256"
  by (metis of_char_of of_nat_of_char of_nat_less_iff of_nat_numeral nat_of_char_less_256)

lemma utf8_len_ascii: "is_ascii c \<Longrightarrow> utf8_len (c # cs) = 1"
  by (simp add: utf8_len.simps byte_in_def is_ascii_def of_char_int_nonneg)

lemma ascii_utf8_valid: "ascii s \<Longrightarrow> utf8_valid s"
  by (induction s) (auto simp: ascii_def utf8_len_ascii)

lemma hex_digits_invert: "list_all (\<lambda>n. hex_val (hex_digit (int n)) = Some (int n)) [0..<16]"
  by code_simp

lemma hex_val_digit:
  assumes "0 \<le> n" "n < 16" shows "hex_val (hex_digit n) = Some n"
proof -
  obtain k where "n = int k" "k \<in> set [0..<16]" using assms by (auto dest!: zero_le_imp_eq_int)
  with hex_digits_invert show ?thesis unfolding list_all_iff by blast
qed

lemma prepend_Some [simp]: "prepend p (Some (t, r)) = Some (p @ t, r)"
  by (simp add: prepend_def)

lemma prepend_eq_Some: "prepend p x = Some (u, r) \<longleftrightarrow> (\<exists>t. x = Some (t, r) \<and> u = p @ t)"
  by (auto simp: prepend_def)

lemma encode_rune_ascii: "is_ascii c \<Longrightarrow> encode_rune (of_char c) = [c]"
  by (simp add: encode_rune_def is_ascii_def)

lemma hex4_low:
  assumes "(of_char c :: int) < 128"
  shows "hex4 (CHR ''0'' # CHR ''0'' # hex_digit (of_char c div 16) # hex_digit (of_char c mod 16) # t)
    = Some (of_char c)"
proof -
  have z: "hex_val (CHR ''0'') = Some 0" by code_simp
  have "0 \<le> (of_char c :: int) div 16" "(of_char c :: int) div 16 < 16"
    using of_char_int_nonneg [of c] assms by auto
  then have "hex_val (hex_digit (of_char c div 16)) = Some (of_char c div 16)"
    by (rule hex_val_digit)
  moreover have "hex_val (hex_digit (of_char c mod 16)) = Some (of_char c mod 16)"
    by (rule hex_val_digit) auto
  ultimately show ?thesis by (simp add: hex4_def z)
qed

lemma short_escape_u: "short_escape (CHR ''u'') = None"
  by (simp add: short_escape_def)

lemma parse_str_quote: "parse_str (CHR 0x22 # s) = Some ([], s)"
  by simp

lemma parse_str_short: "short_escape e = Some b \<Longrightarrow> parse_str (CHR 0x5C # e # s) = prepend [b] (parse_str s)"
  by simp

lemma parse_str_u:
  "hex4 s = Some r \<Longrightarrow> r < 0xD800 \<Longrightarrow>
   parse_str (CHR 0x5C # CHR ''u'' # s) = prepend (encode_rune r) (parse_str (drop 4 s))"
  by (simp add: short_escape_u)

lemma parse_str_chunk:
  "\<lbrakk>c \<noteq> CHR 0x22; c \<noteq> CHR 0x5C; \<not> (of_char c :: int) < 32; utf8_len (c # s) = Suc k\<rbrakk> \<Longrightarrow>
   parse_str (c # s) = prepend (take (Suc k) (c # s)) (parse_str (drop k s))"
  by simp

lemmas parse_str_rules = parse_str_quote parse_str_short parse_str_u parse_str_chunk

declare parse_str.simps(2) [simp del]

lemma escape_ascii_cases:
  "(\<exists>e. escape_ascii c = [CHR 0x5C, e] \<and> short_escape e = Some c)
   \<or> escape_ascii c = [CHR 0x5C, CHR ''u'', CHR ''0'', CHR ''0'',
        hex_digit (of_char c div 16), hex_digit (of_char c mod 16)]
   \<or> escape_ascii c = [c] \<and> c \<noteq> CHR 0x22 \<and> c \<noteq> CHR 0x5C \<and> \<not> (of_char c :: int) < 32"
proof (cases "c \<in> {CHR 0x5C, CHR 0x22, CHR 0x08, CHR 0x0C, CHR 0x0A, CHR 0x0D, CHR 0x09}")
  case True
  then show ?thesis by (auto simp: escape_ascii_def short_escape_def)
next
  case False
  then show ?thesis by (simp add: escape_ascii_def)
qed

lemma parse_str_ascii:
  assumes a: "is_ascii c"
  shows "parse_str (escape_ascii c @ t) = prepend [c] (parse_str t)"
proof -
  have lt: "(of_char c :: int) < 128" using a by (simp add: is_ascii_def)
  consider (esc) e where "escape_ascii c = [CHR 0x5C, e]" "short_escape e = Some c"
    | (hex) "escape_ascii c = [CHR 0x5C, CHR ''u'', CHR ''0'', CHR ''0'',
        hex_digit (of_char c div 16), hex_digit (of_char c mod 16)]"
    | (plain) "escape_ascii c = [c]" "c \<noteq> CHR 0x22" "c \<noteq> CHR 0x5C" "\<not> (of_char c :: int) < 32"
    using escape_ascii_cases [of c] by blast
  then show ?thesis
  proof cases
    case esc
    then show ?thesis by (simp add: parse_str_short)
  next
    case hex
    have "parse_str (CHR 0x5C # CHR ''u'' # CHR ''0'' # CHR ''0'' # hex_digit (of_char c div 16)
        # hex_digit (of_char c mod 16) # t) = prepend (encode_rune (of_char c)) (parse_str t)"
      using parse_str_u [OF hex4_low [OF lt]] lt by simp
    with hex a show ?thesis by (simp add: encode_rune_ascii)
  next
    case plain
    then show ?thesis using utf8_len_ascii [OF a] by (simp add: parse_str_chunk)
  qed
qed

lemma parse_str_wide:
  assumes l: "utf8_len (c # cs) = Suc k" and n: "\<not> is_ascii c"
  shows "parse_str (take (Suc k) (c # cs) @ t) = prepend (take (Suc k) (c # cs)) (parse_str t)"
proof -
  from n have ge: "128 \<le> (of_char c :: int)" by (simp add: is_ascii_def)
  then have ne: "c \<noteq> CHR 0x22" "c \<noteq> CHR 0x5C" "\<not> (of_char c :: int) < 32" by auto
  have l': "utf8_len (c # take k cs @ t) = Suc k"
    using utf8_len_take [OF l, of t] by simp
  have len: "k \<le> length cs" using utf8_len_le [of "c # cs"] l by (simp)
  show ?thesis using parse_str_chunk [OF ne l'] len by simp
qed

lemma parse_str_sep:
  "parse_str ([CHR 0x5C] @ ''u2028'' @ t) = prepend [CHR 0xE2, CHR 0x80, CHR 0xA8] (parse_str t)"
  "parse_str ([CHR 0x5C] @ ''u2029'' @ t) = prepend [CHR 0xE2, CHR 0x80, CHR 0xA9] (parse_str t)"
proof -
  have "hex4 (''2028'' @ t) = Some 0x2028" "hex4 (''2029'' @ t) = Some 0x2029" for t
    by (simp_all add: hex4_def hex_val_def less_eq_char_def)
  moreover have "encode_rune 0x2028 = [CHR 0xE2, CHR 0x80, CHR 0xA8]"
      "encode_rune 0x2029 = [CHR 0xE2, CHR 0x80, CHR 0xA9]"
    by code_simp+
  ultimately show "parse_str ([CHR 0x5C] @ ''u2028'' @ t) = prepend [CHR 0xE2, CHR 0x80, CHR 0xA8] (parse_str t)"
    "parse_str ([CHR 0x5C] @ ''u2029'' @ t) = prepend [CHR 0xE2, CHR 0x80, CHR 0xA9] (parse_str t)"
    using parse_str_u [where s = "''2028'' @ t" and r = "0x2028"] parse_str_u [where s = "''2029'' @ t" and r = "0x2029"]
    by simp_all
qed

text \<open>A character whose three bytes are those of a separator is that separator.\<close>
lemma utf8_take_sep:
  assumes "utf8_len (c # cs) = Suc k" "take 3 (c # cs) = e" "utf8_len e = 3"
  shows "take (Suc k) (c # cs) = e"
proof -
  have "utf8_len (c # cs) = utf8_len (e @ drop 3 (c # cs))" using assms(2) by (metis append_take_drop_id)
  moreover have "utf8_len (e @ drop 3 (c # cs)) = 3" using utf8_len_take [of e 2 "drop 3 (c # cs)"] assms by auto
  ultimately show ?thesis using assms by simp
qed

lemma parse_str_json_chars:
  "utf8_valid s \<Longrightarrow> parse_str (json_chars s @ CHR 0x22 # r) = Some (s, r)"
proof (induction s rule: utf8_valid.induct)
  case 1
  then show ?case by (simp add: parse_str_quote)
next
  case (2 c cs)
  then obtain k where k: "utf8_len (c # cs) = Suc k" and v: "utf8_valid (drop k cs)"
    by (auto split: nat.splits)
  have IH: "parse_str (json_chars (drop k cs) @ CHR 0x22 # r) = Some (drop k cs, r)"
    using 2 k v by (simp)
  show ?case
  proof (cases "is_ascii c")
    case True
    with k have "k = 0" by (simp add: utf8_len_ascii)
    with True IH show ?thesis by (simp add: parse_str_ascii)
  next
    case False
    have e8: "utf8_len [CHR 0xE2, CHR 0x80, CHR 0xA8] = 3" "utf8_len [CHR 0xE2, CHR 0x80, CHR 0xA9] = 3"
      by code_simp+
    have split: "c # cs = take (Suc k) (c # cs) @ drop k cs" by simp
    define A where "A = [CHR 0xE2, CHR 0x80, CHR 0xA8]"
    define B where "B = [CHR 0xE2, CHR 0x80, CHR 0xA9]"
    have pA: "parse_str ([CHR 0x5C] @ ''u2028'' @ t) = prepend A (parse_str t)" for t
      unfolding A_def by (rule parse_str_sep(1))
    have pB: "parse_str ([CHR 0x5C] @ ''u2029'' @ t) = prepend B (parse_str t)" for t
      unfolding B_def by (rule parse_str_sep(2))
    have AB: "A \<noteq> B" by (simp add: A_def B_def)
    have chars: "json_chars (c # cs) =
        (if take 3 (c # cs) = A then [CHR 0x5C] @ ''u2028''
         else if take 3 (c # cs) = B then [CHR 0x5C] @ ''u2029''
         else take (Suc k) (c # cs)) @ json_chars (drop k cs)"
      using False k by (simp add: A_def B_def del: take_Suc_Cons)
    consider "take 3 (c # cs) = A" | "take 3 (c # cs) = B"
      | "take 3 (c # cs) \<noteq> A" "take 3 (c # cs) \<noteq> B"
      by blast
    then show ?thesis
    proof cases
      case 1
      have "take (Suc k) (c # cs) = A" using utf8_take_sep [OF k 1] e8(1) by (simp add: A_def)
      then have "c # cs = A @ drop k cs" using split by simp
      moreover have "parse_str (json_chars (c # cs) @ CHR 0x22 # r) = prepend A (Some (drop k cs, r))"
        using 1 IH pA by (simp add: chars del: json_chars.simps(2))
      ultimately show ?thesis by (metis prepend_Some)
    next
      case 2
      have "take (Suc k) (c # cs) = B" using utf8_take_sep [OF k 2] e8(2) by (simp add: B_def)
      then have "c # cs = B @ drop k cs" using split by simp
      moreover have "parse_str (json_chars (c # cs) @ CHR 0x22 # r) = prepend B (Some (drop k cs, r))"
        using 2 AB IH pB by (simp add: chars del: json_chars.simps(2))
      ultimately show ?thesis by (metis prepend_Some)
    next
      case 3
      have "parse_str (json_chars (c # cs) @ CHR 0x22 # r) = prepend (take (Suc k) (c # cs)) (Some (drop k cs, r))"
        using 3 IH parse_str_wide [OF k False] by (simp add: chars del: take_Suc_Cons json_chars.simps(2))
      then show ?thesis using split by (metis prepend_Some)
    qed
  qed
qed

section \<open>Progress and fuel\<close>

lemma skip_ws_length: "length (skip_ws s) \<le> length s"
  by (simp add: skip_ws_def length_dropWhile_le)

lemma skip_ws_Cons: "skip_ws s = c # r \<Longrightarrow> length r < length s"
  using skip_ws_length [of s] by simp

lemma parse_str_length: "parse_str s = Some (t, r) \<Longrightarrow> length r < length s"
proof (induction s arbitrary: t r rule: length_induct)
  case (1 s)
  have IH: "\<And>s' t r. length s' < length s \<Longrightarrow> parse_str s' = Some (t, r) \<Longrightarrow> length r < length s'"
    using 1(1) by blast
  from 1(2) show ?case
    by (cases s)
       (auto simp: parse_str.simps(2) prepend_eq_Some split: if_splits list.splits option.splits nat.splits
         dest!: IH [rotated])
qed

lemma parse_num_length: "parse_num s = Some (t, r) \<Longrightarrow> length r < length s"
proof -
  assume a: "parse_num s = Some (t, r)"
  define sign where "sign = (case s of [] \<Rightarrow> [] | c # _ \<Rightarrow> if c = CHR ''-'' then [c] else [])"
  define s1 where "s1 = drop (length sign) s"
  define s2 where "s2 = drop (length (int_part s1)) s1"
  have ne: "int_part s1 \<noteq> []" and r: "length r \<le> length s2"
    using a by (auto simp: parse_num_def Let_def sign_def [symmetric] s1_def [symmetric] s2_def [symmetric]
        split: if_splits option.splits)
  from ne have "s1 \<noteq> []" by (auto simp: int_part_def)
  with ne have "length s2 < length s1" by (simp add: s2_def)
  then show ?thesis using r by (simp add: s1_def)
qed

lemma literal_length: "w \<noteq> [] \<Longrightarrow> literal w v s = Some (u, r) \<Longrightarrow> length r < length s"
  by (cases w; cases s) (auto simp: literal_def has_prefix_def split: if_splits)

lemma parse_length:
  "parse_value n d s = Some (v, r) \<Longrightarrow> length r < length s"
  "parse_elems n d s = Some (vs, r) \<Longrightarrow> length r < length s"
  "parse_members n d s = Some (ms, r) \<Longrightarrow> length r < length s"
proof (induction n arbitrary: d s v vs ms r)
  case 0
  { case 1 then show ?case by simp }
  { case 2 then show ?case by simp }
  { case 3 then show ?case by simp }
next
  case (Suc n)
  { case 1
    then show ?case
      by (auto split: list.splits if_splits dest!: Suc.IH parse_str_length parse_num_length literal_length [rotated] skip_ws_Cons) }
  { case 2
    then show ?case
      by (auto split: list.splits if_splits option.splits dest!: Suc.IH skip_ws_Cons) }
  { case 3
    then show ?case
      by (auto split: list.splits if_splits option.splits dest!: Suc.IH skip_ws_Cons parse_str_length) }
qed


text \<open>Each level of recursion starts behind at least one consumed byte, so twice the length of
  the input is fuel enough, and more changes nothing.\<close>
lemma parse_elems_fuel:
  assumes "parse_value (Suc n) d s = parse_value n d s"
    "\<And>q. length q < length s \<Longrightarrow> parse_elems (Suc n) d q = parse_elems n d q"
  shows "parse_elems (Suc (Suc n)) d s = parse_elems (Suc n) d s"
proof (cases "parse_value n d s")
  case None
  then show ?thesis by (simp only: parse_elems.simps(2) assms(1) option.case)
next
  case (Some p)
  obtain w r where p: "p = (w, r)" by (cases p)
  show ?thesis
  proof (cases "skip_ws r")
    case Nil
    then show ?thesis by (simp only: parse_elems.simps(2) assms(1) Some p option.case prod.case list.case)
  next
    case (Cons c q)
    have "length q < length s" using skip_ws_Cons [OF Cons] parse_length(1) [OF Some [unfolded p]] by linarith
    then show ?thesis using assms(2) [of q]
      by (simp only: parse_elems.simps(2) assms(1) Some p option.case prod.case list.case Cons)
  qed
qed

text \<open>What \<open>parse_members\<close> does once the key has been read.\<close>
lemma parse_members_fuel:
  assumes "\<And>q. length q < length s \<Longrightarrow> parse_value (Suc n) d q = parse_value n d q"
    "\<And>q. length q < length s \<Longrightarrow> parse_members (Suc n) d q = parse_members n d q"
  shows "parse_members (Suc (Suc n)) d s = parse_members (Suc n) d s"
proof -
  note unf = parse_members.simps(2) [of _ d s] list.case option.case prod.case
  consider "skip_ws s = []" | b r where "skip_ws s = b # r" "parse_str r = None"
    | b r k r1 where "skip_ws s = b # r" "parse_str r = Some (k, r1)" "skip_ws r1 = []"
    | b r k r1 c r2 where "skip_ws s = b # r" "parse_str r = Some (k, r1)" "skip_ws r1 = c # r2"
    by (cases "skip_ws s") (auto, metis list.exhaust option.exhaust prod.exhaust)
  then show ?thesis
  proof cases
    case 1
    then show ?thesis by (simp only: unf)
  next
    case (2 b r)
    then show ?thesis by (simp only: unf)
  next
    case (3 b r k r1)
    then show ?thesis by (simp only: unf)
  next
    case (4 b r k r1 c r2)
    note s = 4(1) and p = 4(2) and r1 = 4(3)
    have l2: "length r2 < length s" using skip_ws_Cons [OF s] parse_str_length [OF p] skip_ws_Cons [OF r1] by linarith
    consider "parse_value n d r2 = None" | v r3 where "parse_value n d r2 = Some (v, r3)" "skip_ws r3 = []"
      | v r3 e q where "parse_value n d r2 = Some (v, r3)" "skip_ws r3 = e # q"
      by (metis list.exhaust option.exhaust prod.exhaust)
    then show ?thesis
    proof cases
      case 1
      then show ?thesis by (simp only: unf s p r1 assms(1) [OF l2])
    next
      case (2 v r3)
      then show ?thesis by (simp only: unf s p r1 assms(1) [OF l2])
    next
      case (3 v r3 e q)
      then have "length q < length s" using l2 parse_length(1) [OF 3(1)] skip_ws_Cons [OF 3(2)] by linarith
      then show ?thesis by (simp only: unf s p r1 assms(1) [OF l2] 3 assms(2))
    qed
  qed
qed

lemma parse_fuel_step:
  "2 * length s + 1 \<le> n \<Longrightarrow> parse_value (Suc n) d s = parse_value n d s"
  "2 * length s + 2 \<le> n \<Longrightarrow> parse_elems (Suc n) d s = parse_elems n d s"
  "2 * length s + 2 \<le> n \<Longrightarrow> parse_members (Suc n) d s = parse_members n d s"
proof (induction n arbitrary: d s)
  case 0
  { case 1 then show ?case by simp }
  { case 2 then show ?case by simp }
  { case 3 then show ?case by simp }
next
  case (Suc n)
  { case 1
    show ?case
    proof (cases "skip_ws s")
      case Nil
      then show ?thesis by simp
    next
      case (Cons c r)
      then have "length r < length s" by (rule skip_ws_Cons)
      with 1 have "2 * length r + 2 \<le> n" by linarith
      then show ?thesis using Suc.IH(2,3) [of r]
        by (simp only: parse_value.simps Cons list.case)
    qed }
  { case 2
    then show ?case by (intro parse_elems_fuel Suc.IH) linarith+ }
  { case 3
    then show ?case by (intro parse_members_fuel Suc.IH) linarith+ }
qed

lemma parse_value_fuel:
  assumes "2 * length s + 1 \<le> n"
  shows "parse_value (n + k) d s = parse_value n d s"
proof (induction k)
  case (Suc k)
  have "parse_value (Suc (n + k)) d s = parse_value (n + k) d s"
    by (rule parse_fuel_step(1)) (use assms in linarith)
  with Suc show ?case by simp
qed simp

lemma parse_json_fuel:
  assumes "2 * length s + 1 \<le> n" and "parse_value n max_nesting s = Some (v, r)" and "skip_ws r = []"
  shows "parse_json s = Some v"
proof -
  obtain a b where "n + a = 2 * length s + 2 + b" by (metis add.commute)
  with parse_value_fuel [OF assms(1), of a] parse_value_fuel [of s "2 * length s + 2" b] assms
  show ?thesis by (simp add: parse_json_def)
qed

end
