(* ===== verification/Json_Render.thy ===== *)
theory Json_Render
  imports Json
begin

text \<open>
  The text \<open>json.Marshal\<close> writes for a value, and that reading it back gives the value
  again. The messages of the protocol are marshalled through \<open>json_render\<close>.
\<close>

section \<open>Compact text of a value\<close>

function json_render :: "json \<Rightarrow> string"
  and render_elems :: "json list \<Rightarrow> string"
  and render_members :: "(string \<times> json) list \<Rightarrow> string" where
  "json_render JNull = ''null''"
| "json_render (JBool b) = (if b then ''true'' else ''false'')"
| "json_render (JNum t) = t"
| "json_render (JStr s) = json_string s"
| "json_render (JArr vs) = CHR ''['' # render_elems vs @ [CHR '']'']"
| "json_render (JObj ms) = CHR ''{'' # render_members ms @ [CHR ''}'']"
| "render_elems [] = []"
| "render_elems (v # vs) = json_render v @ (if vs = [] then [] else CHR '','' # render_elems vs)"
| "render_members [] = []"
| "render_members ((k, v) # ms) =
     json_string k @ CHR '':'' # json_render v @ (if ms = [] then [] else CHR '','' # render_members ms)"
  by pat_completeness auto
termination
  by (relation "measure (case_sum size (case_sum (size_list size) (size_list (size_prod (\<lambda>_. 0) size))))") auto

text \<open>The literals an integer is written as.\<close>
definition int_literal :: "string \<Rightarrow> bool" where
  "int_literal t =
     (let ds = (case t of [] \<Rightarrow> [] | c # cs \<Rightarrow> if c = CHR ''-'' then cs else t)
      in ds \<noteq> [] \<and> list_all is_digit ds \<and> (hd ds \<noteq> CHR ''0'' \<or> length ds = 1))"

text \<open>Values whose text reads back: well-formed UTF-8, integers only, nesting within the limit.\<close>
function wf_json :: "int \<Rightarrow> json \<Rightarrow> bool" where
  "wf_json d JNull = True"
| "wf_json d (JBool b) = True"
| "wf_json d (JNum t) = int_literal t"
| "wf_json d (JStr s) = utf8_valid s"
| "wf_json d (JArr vs) = (0 < d \<and> list_all (wf_json (d - 1)) vs)"
| "wf_json d (JObj ms) = (0 < d \<and> list_all (\<lambda>m. utf8_valid (fst m) \<and> wf_json (d - 1) (snd m)) ms)"
  by pat_completeness auto
termination
proof (relation "measure (size \<circ> snd)", goal_cases)
  case (2 d vs v)
  then show ?case by (auto simp: less_Suc_eq_le intro: size_list_estimation')
next
  case (3 d ms m)
  have "size (snd m) \<le> size_prod (\<lambda>x. 0) size m" by (cases m) simp
  with size_list_estimation' [OF 3] show ?case by (simp add: less_Suc_eq_le)
qed simp

section \<open>Reading back\<close>

definition num_end :: "string \<Rightarrow> bool" where
  "num_end r \<longleftrightarrow> (case r of [] \<Rightarrow> True
     | c # _ \<Rightarrow> \<not> is_digit c \<and> c \<noteq> CHR ''.'' \<and> c \<noteq> CHR ''e'' \<and> c \<noteq> CHR ''E'')"

lemma is_digit_neq:
  "is_digit c \<Longrightarrow> c \<noteq> CHR ''{'' \<and> c \<noteq> CHR ''['' \<and> c \<noteq> CHR 0x22 \<and> c \<noteq> CHR ''t'' \<and> c \<noteq> CHR ''f''
     \<and> c \<noteq> CHR ''n'' \<and> c \<noteq> CHR ''-'' \<and> \<not> is_ws c"
  by (auto simp: is_digit_def is_ws_def less_eq_char_def)

lemma num_end_punct [simp]:
  "num_end []" "num_end (CHR '','' # r)" "num_end (CHR '']'' # r)" "num_end (CHR ''}'' # r)"
  by (simp_all add: num_end_def is_digit_def less_eq_char_def)

lemma digits_of_append: "list_all is_digit ds \<Longrightarrow> num_end r \<Longrightarrow> digits_of (ds @ r) = ds"
  by (induction ds) (auto simp: digits_of_def num_end_def split: list.splits)

lemma num_end_parts: "num_end r \<Longrightarrow> frac_part r = Some [] \<and> exp_part r = Some []"
  by (auto simp: num_end_def frac_part_def exp_part_def split: list.splits)

lemma int_part_literal:
  assumes "ds \<noteq> []" "list_all is_digit ds" "hd ds \<noteq> CHR ''0'' \<or> length ds = 1" "num_end r"
  shows "int_part (ds @ r) = ds"
proof -
  obtain c cs where ds: "ds = c # cs" using assms(1) by (cases ds) auto
  then show ?thesis
    using assms digits_of_append [OF assms(2,4)] by (auto simp: int_part_def)
qed

lemma parse_num_literal:
  assumes "int_literal t" "num_end r"
  shows "parse_num (t @ r) = Some (t, r)"
proof (cases "\<exists>ds. t = CHR ''-'' # ds")
  case True
  then obtain ds where t: "t = CHR ''-'' # ds" by blast
  with assms(1) have ds: "ds \<noteq> []" "list_all is_digit ds" "hd ds \<noteq> CHR ''0'' \<or> length ds = 1"
    by (auto simp: int_literal_def)
  show ?thesis
    using int_part_literal [OF ds assms(2)] num_end_parts [OF assms(2)] ds(1)
    by (simp add: t parse_num_def)
next
  case False
  then have ds: "t \<noteq> []" "list_all is_digit t" "hd t \<noteq> CHR ''0'' \<or> length t = 1"
    using assms(1) by (auto simp: int_literal_def Let_def split: list.splits if_splits)
  have "(case t @ r of [] \<Rightarrow> [] | c # x \<Rightarrow> if c = CHR ''-'' then [c] else []) = []"
    using False ds(1) by (cases t) auto
  then show ?thesis
    using int_part_literal [OF ds assms(2)] num_end_parts [OF assms(2)] ds(1)
    by (simp add: parse_num_def)
qed

lemma int_literal_head:
  "int_literal t \<Longrightarrow> \<exists>c cs. t = c # cs \<and> (is_digit c \<or> c = CHR ''-'')"
  by (cases t) (auto simp: int_literal_def Let_def split: if_splits)

lemma skip_ws_id: "\<not> is_ws c \<Longrightarrow> skip_ws (c # s) = c # s"
  by (simp add: skip_ws_def)

lemma is_ws_punct [simp]:
  "\<not> is_ws (CHR ''{'')" "\<not> is_ws (CHR ''}'')" "\<not> is_ws (CHR ''['')" "\<not> is_ws (CHR '']'')"
  "\<not> is_ws (CHR '','')" "\<not> is_ws (CHR '':'')" "\<not> is_ws (CHR 0x22)" "\<not> is_ws (CHR ''t'')"
  "\<not> is_ws (CHR ''f'')" "\<not> is_ws (CHR ''n'')" "\<not> is_ws (CHR ''-'')"
  by (simp_all add: is_ws_def)

lemma json_render_head:
  "wf_json d j \<Longrightarrow> \<exists>c cs. json_render j = c # cs \<and> \<not> is_ws c \<and> c \<noteq> CHR '']'' \<and> c \<noteq> CHR ''}''"
proof (cases j)
  case (JNum t)
  assume "wf_json d j"
  with JNum have "int_literal t" by simp
  then obtain c cs where "t = c # cs" "is_digit c \<or> c = CHR ''-''"
    using int_literal_head by blast
  then show ?thesis using JNum by (auto simp: is_digit_neq is_digit_def less_eq_char_def)
qed (auto simp: json_string_def)

lemma parse_value_num:
  assumes "int_literal t" "num_end r"
  shows "parse_value (Suc n) d (t @ r) = Some (JNum t, r)"
proof -
  obtain c cs where t: "t = c # cs" and c: "is_digit c \<or> c = CHR ''-''"
    using int_literal_head [OF assms(1)] by blast
  from c have "\<not> is_ws c" "c \<noteq> CHR ''{''" "c \<noteq> CHR ''[''" "c \<noteq> CHR 0x22" "c \<noteq> CHR ''t''"
      "c \<noteq> CHR ''f''" "c \<noteq> CHR ''n''"
    by (auto dest: is_digit_neq)
  then show ?thesis
    using parse_num_literal [OF assms] by (simp add: t skip_ws_id)
qed

lemma parse_str_string:
  "utf8_valid s \<Longrightarrow> \<exists>q. json_string s @ r = CHR 0x22 # q \<and> parse_str q = Some (s, r)"
  by (simp add: json_string_def parse_str_json_chars)

lemma literal_append: "literal w v (w @ r) = Some (v, r)"
  by (simp add: literal_def has_prefix_def)

lemma parse_value_atom:
  "parse_value (Suc n) d (''null'' @ r) = Some (JNull, r)"
  "parse_value (Suc n) d (''true'' @ r) = Some (JBool True, r)"
  "parse_value (Suc n) d (''false'' @ r) = Some (JBool False, r)"
  using literal_append [of "''null''" JNull r] literal_append [of "''true''" "JBool True" r]
    literal_append [of "''false''" "JBool False" r]
  by (simp_all add: skip_ws_id)

lemma parse_value_str:
  "utf8_valid s \<Longrightarrow> parse_value (Suc n) d (json_string s @ r) = Some (JStr s, r)"
  using parse_str_string [of s r] by (auto simp: skip_ws_id)


text \<open>The text of a value reads back as the value, whatever follows it.\<close>
text \<open>The value of an array or object once its elements or members are read back.\<close>
lemma parse_arr_render:
  assumes "wf_json d (JArr vs)"
    "vs \<noteq> [] \<Longrightarrow> parse_elems n (d - 1) (render_elems vs @ CHR '']'' # r) = Some (vs, r)"
  shows "parse_value (Suc n) d (json_render (JArr vs) @ r) = Some (JArr vs, r)"
proof (cases vs)
  case Nil
  with assms(1) show ?thesis by (simp add: skip_ws_id)
next
  case (Cons v vs')
  with assms(1) obtain c cs where c: "json_render v = c # cs" "\<not> is_ws c" "c \<noteq> CHR '']''"
    using json_render_head [of "d - 1" v] by auto
  obtain q where q: "render_elems vs @ CHR '']'' # r = c # q" using Cons c(1) by simp
  show ?thesis using assms Cons c by (simp add: q skip_ws_id)
qed

lemma parse_obj_render:
  assumes "wf_json d (JObj ms)"
    "ms \<noteq> [] \<Longrightarrow> parse_members n (d - 1) (render_members ms @ CHR ''}'' # r) = Some (ms, r)"
  shows "parse_value (Suc n) d (json_render (JObj ms) @ r) = Some (JObj ms, r)"
proof (cases "ms = []")
  case True
  with assms(1) show ?thesis by (simp add: skip_ws_id)
next
  case False
  obtain q where q: "render_members ms @ CHR ''}'' # r = CHR 0x22 # q"
    using False by (cases ms) (auto simp: json_string_def)
  show ?thesis using assms False by (simp add: q skip_ws_id)
qed

text \<open>One more element or member in front of those that are read back.\<close>
definition after_elem :: "json list \<Rightarrow> string \<Rightarrow> string" where
  "after_elem vs r = (if vs = [] then [] else CHR '','' # render_elems vs) @ CHR '']'' # r"

definition after_member :: "(string \<times> json) list \<Rightarrow> string \<Rightarrow> string" where
  "after_member ms r = (if ms = [] then [] else CHR '','' # render_members ms) @ CHR ''}'' # r"

lemma after_parts [simp]: "num_end (after_elem vs r)" "num_end (after_member ms r)"
  "render_elems (v # vs) @ CHR '']'' # r = json_render v @ after_elem vs r"
  "render_members ((k, v) # ms) @ CHR ''}'' # r = json_string k @ CHR '':'' # json_render v @ after_member ms r"
  by (simp_all add: after_elem_def after_member_def)

lemma parse_elems_render:
  assumes "parse_value n d (json_render v @ after_elem vs r) = Some (v, after_elem vs r)"
    "vs \<noteq> [] \<Longrightarrow> parse_elems n d (render_elems vs @ CHR '']'' # r) = Some (vs, r)"
  shows "parse_elems (Suc n) d (render_elems (v # vs) @ CHR '']'' # r) = Some (v # vs, r)"
  unfolding after_parts parse_elems.simps assms(1)
  by (cases "vs = []") (use assms(2) in \<open>simp_all add: after_elem_def skip_ws_id\<close>)

lemma parse_members_render:
  assumes "utf8_valid k" "parse_value n d (json_render v @ after_member ms r) = Some (v, after_member ms r)"
    "ms \<noteq> [] \<Longrightarrow> parse_members n d (render_members ms @ CHR ''}'' # r) = Some (ms, r)"
  shows "parse_members (Suc n) d (render_members ((k, v) # ms) @ CHR ''}'' # r) = Some ((k, v) # ms, r)"
proof -
  define mid where "mid = CHR '':'' # json_render v @ after_member ms r"
  obtain q where q: "json_string k @ mid = CHR 0x22 # q" "parse_str q = Some (k, mid)"
    using assms(1) parse_str_string [of k mid] by auto
  have unf: "skip_ws (CHR 0x22 # q) = CHR 0x22 # q" "skip_ws mid = mid" by (simp_all add: skip_ws_id mid_def)
  show ?thesis
    unfolding after_parts mid_def [symmetric] q(1) parse_members.simps unf
    by (simp add: q(2) unf) (use assms(2,3) in \<open>cases "ms = []"; simp add: mid_def after_member_def skip_ws_id\<close>)
qed

lemma parse_render:
  "\<lbrakk>wf_json d j; num_end r; 2 * length (json_render j @ r) + 1 \<le> n\<rbrakk> \<Longrightarrow>
     parse_value n d (json_render j @ r) = Some (j, r)"
  "\<lbrakk>vs \<noteq> []; list_all (wf_json d) vs; 2 * length (render_elems vs @ CHR '']'' # r) + 2 \<le> n\<rbrakk> \<Longrightarrow>
     parse_elems n d (render_elems vs @ CHR '']'' # r) = Some (vs, r)"
  "\<lbrakk>ms \<noteq> []; list_all (\<lambda>m. utf8_valid (fst m) \<and> wf_json d (snd m)) ms;
     2 * length (render_members ms @ CHR ''}'' # r) + 2 \<le> n\<rbrakk> \<Longrightarrow>
     parse_members n d (render_members ms @ CHR ''}'' # r) = Some (ms, r)"
proof (induction j and vs and ms arbitrary: n d r and n d r and n d r
    rule: json_render_render_elems_render_members.induct)
  case 1
  then show ?case by (cases n) (simp_all add: parse_value_atom [simplified])
next
  case (2 b)
  then show ?case by (cases n) (auto simp: parse_value_atom [simplified])
next
  case (3 t)
  then show ?case by (cases n) (simp_all add: parse_value_num del: parse_value.simps)
next
  case (4 s)
  then show ?case by (cases n) (simp_all add: parse_value_str del: parse_value.simps)
next
  case (5 vs)
  then obtain n' where n: "n = Suc n'" by (cases n) auto
  show ?case unfolding n by (rule parse_arr_render) (use 5 n in \<open>auto intro!: "5.IH"\<close>)
next
  case (6 ms)
  then obtain n' where n: "n = Suc n'" by (cases n) auto
  show ?case unfolding n by (rule parse_obj_render) (use 6 n in \<open>auto intro!: "6.IH"\<close>)
next
  case (8 v vs)
  then obtain n' where n: "n = Suc n'" by (cases n) auto
  have "2 * length (json_render v @ after_elem vs r) + 1 \<le> n'" using "8.prems" n by (simp only: after_parts)
  then show ?case unfolding n
    by (intro parse_elems_render) (use 8 n in \<open>auto intro!: "8.IH" simp: after_elem_def\<close>)
next
  case (10 k v ms)
  then obtain n' where n: "n = Suc n'" by (cases n) auto
  have "2 * length (json_render v @ after_member ms r) + 1 \<le> n'" using "10.prems" n by (simp only: after_parts) simp
  then show ?case unfolding n
    by (intro parse_members_render) (use 10 n in \<open>auto intro!: "10.IH" simp: after_member_def\<close>)
qed simp_all

lemma parse_json_render:
  assumes "wf_json max_nesting j"
  shows "parse_json (json_render j) = Some j"
proof -
  have "parse_value (2 * length (json_render j) + 2) max_nesting (json_render j @ []) = Some (j, [])"
    using assms by (intro parse_render(1)) auto
  then show ?thesis by (simp add: parse_json_def skip_ws_def)
qed

section \<open>Integers read back\<close>

lemma digit_char:
  assumes "0 \<le> n" "n < 10"
  shows "is_digit (char_of (48 + n))" "digit_val (char_of (48 + n)) = n"
    "char_of (48 + n) = CHR ''0'' \<longleftrightarrow> n = 0"
proof -
  have c: "(of_char (char_of (48 + n)) :: int) = 48 + n" using assms by simp
  then have "(of_char (char_of (48 + n)) :: nat) = nat (48 + n)"
    by (metis nat_int of_nat_of_char)
  then show "is_digit (char_of (48 + n))"
    using assms by (auto simp: is_digit_def less_eq_char_def)
  show "digit_val (char_of (48 + n)) = n" using c by (simp only: digit_val_def)
  have "char_of (48 + n) = CHR ''0'' \<longleftrightarrow> (of_char (char_of (48 + n)) :: int) = of_char (CHR ''0'')"
    by (metis char_of_char)
  also have "\<dots> \<longleftrightarrow> n = 0" unfolding c by simp
  finally show "char_of (48 + n) = CHR ''0'' \<longleftrightarrow> n = 0" .
qed

lemma digits_val_append: "digits_val (ds @ [c]) = 10 * digits_val ds + digit_val c"
  by (simp add: digits_val_def)

lemma show_digits_facts:
  "0 \<le> n \<Longrightarrow> show_digits n \<noteq> [] \<and> list_all is_digit (show_digits n) \<and> digits_val (show_digits n) = n
     \<and> (n \<noteq> 0 \<longrightarrow> hd (show_digits n) \<noteq> CHR ''0'') \<and> (n = 0 \<longrightarrow> length (show_digits n) = 1)"
proof (induction n rule: show_digits.induct)
  case (1 n)
  show ?case
  proof (cases "n < 10")
    case True
    then have "digits_val [char_of (48 + n)] = n"
      using "1.prems" digit_char [of n] by (simp add: digits_val_def)
    with True "1.prems" digit_char [of n] show ?thesis
      by (auto simp: show_digits.simps [of n] show_digits.simps [of 0])
  next
    case False
    then have IH: "show_digits (n div 10) \<noteq> []" "list_all is_digit (show_digits (n div 10))"
        "digits_val (show_digits (n div 10)) = n div 10" "hd (show_digits (n div 10)) \<noteq> CHR ''0''"
      using "1.IH" by auto
    then show ?thesis
      using False digit_char [of "n mod 10"]
      by (simp add: show_digits.simps [of n] digits_val_append)
  qed
qed

lemma int_literal_show_int: "int_literal (show_int i)"
proof (cases "i < 0")
  case True
  then show ?thesis using show_digits_facts [of "- i"] by (auto simp: show_int_def int_literal_def)
next
  case False
  then have f: "show_digits i \<noteq> []" "list_all is_digit (show_digits i)"
      "hd (show_digits i) \<noteq> CHR ''0'' \<or> length (show_digits i) = 1"
    using show_digits_facts [of i] by auto
  then obtain c cs where c: "show_digits i = c # cs" by (cases "show_digits i") auto
  with f have "c \<noteq> CHR ''-''" using is_digit_neq by auto
  with False f c show ?thesis by (simp add: show_int_def int_literal_def)
qed

lemma atoi_show_int:
  assumes "- (2 ^ 63) \<le> i" "i < 2 ^ 63"
  shows "atoi (show_int i) = Some i"
proof (cases "i < 0")
  case True
  then show ?thesis using assms show_digits_facts [of "- i"] by (simp add: show_int_def atoi_def)
next
  case False
  then have f: "show_digits i \<noteq> []" "list_all is_digit (show_digits i)" "digits_val (show_digits i) = i"
    using show_digits_facts [of i] by auto
  then obtain c cs where c: "show_digits i = c # cs" by (cases "show_digits i") auto
  with f have "c \<noteq> CHR ''-''" "c \<noteq> CHR ''+''"
    using is_digit_neq by (auto simp: is_digit_def less_eq_char_def)
  with False f c assms show ?thesis by (simp add: show_int_def atoi_def)
qed

end
