(* ===== verification/Protocol.thy ===== *)
theory Protocol
  imports Json_Render
begin

text \<open>
  \<open>internal/protocol/protocol.go\<close>: the username rule, the messages of the protocol with
  their constructors, the JSON they are marshalled to, and \<open>ParseMessage\<close>.

  A Go struct with JSON tags becomes a record with the same fields, the JSON value its tags
  give it (\<open>omitempty\<close> fields are left out when empty), and, for the two messages the relay
  reads, the table of its fields that \<open>json.Unmarshal\<close> consults.
\<close>

section \<open>Usernames\<close>

text \<open>A pattern anchored at both ends: a sequence of character classes with repetition bounds.\<close>
type_synonym char_pattern = "((char \<Rightarrow> bool) \<times> nat \<times> nat) list"

fun pattern_match :: "char_pattern \<Rightarrow> string \<Rightarrow> bool" where
  "pattern_match [] s = (s = [])"
| "pattern_match ((p, lo, hi) # rest) s =
     list_ex (\<lambda>n. n \<le> length s \<and> list_all p (take n s) \<and> pattern_match rest (drop n s)) [lo..<Suc hi]"

definition alnum :: "char \<Rightarrow> bool" where
  "alnum c \<longleftrightarrow> CHR ''a'' \<le> c \<and> c \<le> CHR ''z'' \<or> CHR ''0'' \<le> c \<and> c \<le> CHR ''9''"

definition alnum_dash :: "char \<Rightarrow> bool" where
  "alnum_dash c \<longleftrightarrow> alnum c \<or> c = CHR ''-''"

definition usernameRe :: char_pattern where
  "usernameRe = [(alnum, 1, 1), (alnum_dash, 1, 30), (alnum, 1, 1)]"

definition IsValidUsername :: "string \<Rightarrow> bool" where
  "IsValidUsername username = pattern_match usernameRe username"

section \<open>Messages\<close>

record ServerRegister =
  sr_Type :: string
  sr_Username :: string
  sr_InstallID :: string
  sr_AuthToken :: string
  sr_JWT :: string
  sr_MultiClient :: bool

record ServerRegistered =
  sd_Type :: string
  sd_JWT :: string
  sd_MultiClient :: bool

record ServerRejected =
  sj_Type :: string
  sj_Reason :: string

record ClientConnect =
  cc_Type :: string
  cc_Username :: string
  cc_ClientID :: string

record ClientConnected =
  cd_Type :: string
  cd_ClientID :: string

record ClientError =
  ce_Type :: string
  ce_Reason :: string

record RelayClientJoined =
  rj_Type :: string
  rj_ClientID :: string

record RelayClientLeft =
  rl_Type :: string
  rl_ClientID :: string

record RelayBackpressure =
  rb_Type :: string
  rb_Action :: string

record BufferedFrame =
  bf_Timestamp :: int
  bf_Direction :: string
  bf_MsgType :: int
  bf_Data :: string

record BufferedMessages =
  bm_Type :: string
  bm_Messages :: "BufferedFrame list"

definition NewRelayClientJoined :: "string \<Rightarrow> RelayClientJoined" where
  "NewRelayClientJoined clientID = \<lparr>rj_Type = ''relay_client_joined'', rj_ClientID = clientID\<rparr>"

definition NewRelayClientLeft :: "string \<Rightarrow> RelayClientLeft" where
  "NewRelayClientLeft clientID = \<lparr>rl_Type = ''relay_client_left'', rl_ClientID = clientID\<rparr>"

definition NewRelayBackpressure :: "string \<Rightarrow> RelayBackpressure" where
  "NewRelayBackpressure action = \<lparr>rb_Type = ''relay_backpressure'', rb_Action = action\<rparr>"

definition NewBufferedMessages :: "BufferedFrame list \<Rightarrow> BufferedMessages" where
  "NewBufferedMessages messages = \<lparr>bm_Type = ''buffered_messages'', bm_Messages = messages\<rparr>"

definition NewServerRegistered :: "string \<Rightarrow> bool \<Rightarrow> ServerRegistered" where
  "NewServerRegistered jwt multiClient =
     \<lparr>sd_Type = ''server_registered'', sd_JWT = jwt, sd_MultiClient = multiClient\<rparr>"

definition NewServerRejected :: "string \<Rightarrow> ServerRejected" where
  "NewServerRejected reason = \<lparr>sj_Type = ''server_rejected'', sj_Reason = reason\<rparr>"

definition NewClientConnected :: "string \<Rightarrow> ClientConnected" where
  "NewClientConnected clientID = \<lparr>cd_Type = ''client_connected'', cd_ClientID = clientID\<rparr>"

definition NewClientError :: "string \<Rightarrow> ClientError" where
  "NewClientError reason = \<lparr>ce_Type = ''client_error'', ce_Reason = reason\<rparr>"

section \<open>Marshalling\<close>

text \<open>A member of an object, and one that \<open>omitempty\<close> drops when it holds the zero value.\<close>
definition str_member :: "string \<Rightarrow> string \<Rightarrow> (string \<times> json) list" where
  "str_member k v = [(k, JStr v)]"

definition str_omitempty :: "string \<Rightarrow> string \<Rightarrow> (string \<times> json) list" where
  "str_omitempty k v = (if v = [] then [] else [(k, JStr v)])"

definition bool_omitempty :: "string \<Rightarrow> bool \<Rightarrow> (string \<times> json) list" where
  "bool_omitempty k b = (if b then [(k, JBool True)] else [])"

definition int_member :: "string \<Rightarrow> int \<Rightarrow> (string \<times> json) list" where
  "int_member k i = [(k, JNum (show_int i))]"

definition json_of_ServerRegister :: "ServerRegister \<Rightarrow> json" where
  "json_of_ServerRegister m = JObj (str_member ''type'' (sr_Type m) @ str_member ''username'' (sr_Username m)
     @ str_member ''installId'' (sr_InstallID m) @ str_omitempty ''authToken'' (sr_AuthToken m)
     @ str_omitempty ''jwt'' (sr_JWT m) @ bool_omitempty ''multiClient'' (sr_MultiClient m))"

definition json_of_ServerRegistered :: "ServerRegistered \<Rightarrow> json" where
  "json_of_ServerRegistered m = JObj (str_member ''type'' (sd_Type m) @ str_omitempty ''jwt'' (sd_JWT m)
     @ bool_omitempty ''multiClient'' (sd_MultiClient m))"

definition json_of_ServerRejected :: "ServerRejected \<Rightarrow> json" where
  "json_of_ServerRejected m = JObj (str_member ''type'' (sj_Type m) @ str_member ''reason'' (sj_Reason m))"

definition json_of_ClientConnect :: "ClientConnect \<Rightarrow> json" where
  "json_of_ClientConnect m = JObj (str_member ''type'' (cc_Type m) @ str_member ''username'' (cc_Username m)
     @ str_omitempty ''clientId'' (cc_ClientID m))"

definition json_of_ClientConnected :: "ClientConnected \<Rightarrow> json" where
  "json_of_ClientConnected m = JObj (str_member ''type'' (cd_Type m) @ str_omitempty ''clientId'' (cd_ClientID m))"

definition json_of_ClientError :: "ClientError \<Rightarrow> json" where
  "json_of_ClientError m = JObj (str_member ''type'' (ce_Type m) @ str_member ''reason'' (ce_Reason m))"

definition json_of_RelayClientJoined :: "RelayClientJoined \<Rightarrow> json" where
  "json_of_RelayClientJoined m = JObj (str_member ''type'' (rj_Type m) @ str_member ''clientId'' (rj_ClientID m))"

definition json_of_RelayClientLeft :: "RelayClientLeft \<Rightarrow> json" where
  "json_of_RelayClientLeft m = JObj (str_member ''type'' (rl_Type m) @ str_member ''clientId'' (rl_ClientID m))"

definition json_of_RelayBackpressure :: "RelayBackpressure \<Rightarrow> json" where
  "json_of_RelayBackpressure m = JObj (str_member ''type'' (rb_Type m) @ str_member ''action'' (rb_Action m))"

definition json_of_BufferedFrame :: "BufferedFrame \<Rightarrow> json" where
  "json_of_BufferedFrame f = JObj (int_member ''ts'' (bf_Timestamp f) @ str_member ''dir'' (bf_Direction f)
     @ int_member ''msgType'' (bf_MsgType f) @ str_member ''data'' (bf_Data f))"

definition json_of_BufferedMessages :: "BufferedMessages \<Rightarrow> json" where
  "json_of_BufferedMessages m = JObj (str_member ''type'' (bm_Type m)
     @ [(''messages'', JArr (map json_of_BufferedFrame (bm_Messages m)))])"

section \<open>Unmarshalling\<close>

text \<open>
  \<open>json.Unmarshal\<close> finds the field of a member by its name up to letter case: names are
  compared after Unicode simple folding. Outside ASCII only U+017F and U+212A fold to ASCII
  letters (\<open>S\<close> and \<open>K\<close>), and the names of the fields are ASCII.
\<close>
fun fold_name :: "string \<Rightarrow> string" where
  "fold_name [] = []"
| "fold_name (c # s) =
     (if CHR ''a'' \<le> c \<and> c \<le> CHR ''z'' then char_of (of_char c - 32 :: int) # fold_name s
      else if c = CHR 0xC5 \<and> take 1 s = [CHR 0xBF] then CHR ''S'' # fold_name (drop 1 s)
      else if c = CHR 0xE2 \<and> take 2 s = [CHR 0x84, CHR 0xAA] then CHR ''K'' # fold_name (drop 2 s)
      else c # fold_name s)"

text \<open>How the value of a member is stored: \<open>null\<close> leaves the field alone, a value of the
  wrong kind is an error.\<close>
type_synonym 'r field_table = "(string \<times> (json \<Rightarrow> 'r \<Rightarrow> 'r option)) list"

definition str_field :: "((string \<Rightarrow> string) \<Rightarrow> 'r \<Rightarrow> 'r) \<Rightarrow> json \<Rightarrow> 'r \<Rightarrow> 'r option" where
  "str_field upd v r = (case v of JStr x \<Rightarrow> Some (upd (\<lambda>_. x) r) | JNull \<Rightarrow> Some r | _ \<Rightarrow> None)"

definition bool_field :: "((bool \<Rightarrow> bool) \<Rightarrow> 'r \<Rightarrow> 'r) \<Rightarrow> json \<Rightarrow> 'r \<Rightarrow> 'r option" where
  "bool_field upd v r = (case v of JBool x \<Rightarrow> Some (upd (\<lambda>_. x) r) | JNull \<Rightarrow> Some r | _ \<Rightarrow> None)"

definition int_field :: "((int \<Rightarrow> int) \<Rightarrow> 'r \<Rightarrow> 'r) \<Rightarrow> json \<Rightarrow> 'r \<Rightarrow> 'r option" where
  "int_field upd v r =
     (case v of JNum t \<Rightarrow> map_option (\<lambda>i. upd (\<lambda>_. i) r) (atoi t) | JNull \<Rightarrow> Some r | _ \<Rightarrow> None)"

fun decode_members :: "'r field_table \<Rightarrow> (string \<times> json) list \<Rightarrow> 'r \<Rightarrow> 'r option" where
  "decode_members tbl [] r = Some r"
| "decode_members tbl ((k, v) # ms) r =
     (case find (\<lambda>(name, _). fold_name name = fold_name k) tbl of
        None \<Rightarrow> decode_members tbl ms r
      | Some (_, store) \<Rightarrow>
          (case store v r of None \<Rightarrow> None | Some r' \<Rightarrow> decode_members tbl ms r'))"

definition unmarshal :: "'r field_table \<Rightarrow> 'r \<Rightarrow> string \<Rightarrow> 'r option" where
  "unmarshal tbl zero data =
     (case parse_json data of
        None \<Rightarrow> None
      | Some j \<Rightarrow> (case j of JObj ms \<Rightarrow> decode_members tbl ms zero | JNull \<Rightarrow> Some zero | _ \<Rightarrow> None))"

definition type_fields :: "string field_table" where
  "type_fields = [(''type'', str_field id)]"

definition ServerRegister_fields :: "ServerRegister field_table" where
  "ServerRegister_fields =
     [(''type'', str_field sr_Type_update), (''username'', str_field sr_Username_update),
      (''installId'', str_field sr_InstallID_update), (''authToken'', str_field sr_AuthToken_update),
      (''jwt'', str_field sr_JWT_update), (''multiClient'', bool_field sr_MultiClient_update)]"

definition ClientConnect_fields :: "ClientConnect field_table" where
  "ClientConnect_fields =
     [(''type'', str_field cc_Type_update), (''username'', str_field cc_Username_update),
      (''clientId'', str_field cc_ClientID_update)]"

definition BufferedFrame_fields :: "BufferedFrame field_table" where
  "BufferedFrame_fields =
     [(''ts'', int_field bf_Timestamp_update), (''dir'', str_field bf_Direction_update),
      (''msgType'', int_field bf_MsgType_update), (''data'', str_field bf_Data_update)]"

definition zero_ServerRegister :: ServerRegister where
  "zero_ServerRegister = \<lparr>sr_Type = [], sr_Username = [], sr_InstallID = [], sr_AuthToken = [],
     sr_JWT = [], sr_MultiClient = False\<rparr>"

definition zero_ClientConnect :: ClientConnect where
  "zero_ClientConnect = \<lparr>cc_Type = [], cc_Username = [], cc_ClientID = []\<rparr>"

definition zero_BufferedFrame :: BufferedFrame where
  "zero_BufferedFrame = \<lparr>bf_Timestamp = 0, bf_Direction = [], bf_MsgType = 0, bf_Data = []\<rparr>"

section \<open>ParseMessage\<close>

text \<open>The two typed structs it returns; \<open>None\<close> is its \<open>nil\<close>.\<close>
datatype message = MServerRegister ServerRegister | MClientConnect ClientConnect

definition ParseMessage :: "bytes \<Rightarrow> message option" where
  "ParseMessage data =
     (case unmarshal type_fields [] data of
        None \<Rightarrow> None
      | Some ty \<Rightarrow>
          if ty = ''server_register'' then
            map_option MServerRegister (unmarshal ServerRegister_fields zero_ServerRegister data)
          else if ty = ''client_connect'' then
            map_option MClientConnect (unmarshal ClientConnect_fields zero_ClientConnect data)
          else None)"

section \<open>Facts about usernames\<close>

lemma pattern_match_one:
  "pattern_match ((p, 1, 1) # rest) s \<longleftrightarrow> (\<exists>c t. s = c # t \<and> p c \<and> pattern_match rest t)"
  by (cases s) auto

lemma pattern_match_last: "pattern_match [(p, 1, 1)] s \<longleftrightarrow> (\<exists>c. s = [c] \<and> p c)"
  unfolding pattern_match_one by auto

lemma IsValidUsername_shape:
  "IsValidUsername u \<longleftrightarrow>
     (\<exists>c m d. u = c # m @ [d] \<and> alnum c \<and> alnum d \<and> list_all alnum_dash m \<and> 1 \<le> length m \<and> length m \<le> 30)"
proof -
  have "pattern_match [(alnum_dash, 1, 30), (alnum, 1, 1)] t \<longleftrightarrow>
      (\<exists>m d. t = m @ [d] \<and> alnum d \<and> list_all alnum_dash m \<and> 1 \<le> length m \<and> length m \<le> 30)" (is "?L \<longleftrightarrow> ?R") for t
  proof
    assume ?L
    then obtain n where n: "1 \<le> n" "n \<le> 30" "n \<le> length t" "list_all alnum_dash (take n t)"
        "pattern_match [(alnum, 1, 1)] (drop n t)"
      by (auto simp: list_ex_iff simp del: upt_Suc)
    then obtain d where "drop n t = [d]" "alnum d" by (auto simp only: pattern_match_last)
    with n show ?R by (intro exI [of _ "take n t"] exI [of _ d]) (auto, metis append_take_drop_id)
  next
    assume ?R
    then obtain m d where t: "t = m @ [d]" "alnum d" "list_all alnum_dash m" "1 \<le> length m" "length m \<le> 30"
      by blast
    have "length m \<in> set [1..<Suc 30]" using t(4,5) by simp
    moreover have "length m \<le> length t \<and> list_all alnum_dash (take (length m) t)
        \<and> pattern_match [(alnum, 1, 1)] (drop (length m) t)"
      unfolding pattern_match_last using t by simp
    ultimately show ?L unfolding pattern_match.simps(2) list_ex_iff by blast
  qed
  then show ?thesis
    by (auto simp only: IsValidUsername_def usernameRe_def pattern_match_one)
qed

lemma alnum_neq_dash: "alnum c \<Longrightarrow> c \<noteq> CHR ''-''"
  by (auto simp: alnum_def less_eq_char_def)

lemma IsValidUsername_eq:
  "IsValidUsername u \<longleftrightarrow>
     3 \<le> length u \<and> length u \<le> 32 \<and> list_all alnum_dash u \<and> hd u \<noteq> CHR ''-'' \<and> last u \<noteq> CHR ''-''"
  (is "_ \<longleftrightarrow> ?R")
proof
  assume "IsValidUsername u"
  then show ?R by (auto simp: IsValidUsername_shape alnum_dash_def dest: alnum_neq_dash)
next
  assume r: ?R
  then obtain c t where u: "u = c # t" by (cases u) auto
  from r u obtain m d where t: "t = m @ [d]" by (cases t rule: rev_cases) auto
  show "IsValidUsername u"
    unfolding IsValidUsername_shape using r u t
    by (intro exI [of _ c] exI [of _ m] exI [of _ d]) (auto simp: alnum_dash_def)
qed

lemma IsValidUsername_nonempty: "IsValidUsername u \<Longrightarrow> u \<noteq> []"
  by (auto simp: IsValidUsername_eq)

section \<open>Facts about messages\<close>

lemmas json_of_defs =
  json_of_ServerRegister_def json_of_ServerRegistered_def json_of_ServerRejected_def
  json_of_ClientConnect_def json_of_ClientConnected_def json_of_ClientError_def
  json_of_RelayClientJoined_def json_of_RelayClientLeft_def json_of_RelayBackpressure_def
  json_of_BufferedFrame_def

lemmas member_defs = str_member_def str_omitempty_def bool_omitempty_def int_member_def

text \<open>The names of the fields are ASCII and differ after folding.\<close>
lemma field_names_ascii:
  "list_all (utf8_valid) [''type'', ''username'', ''installId'', ''authToken'', ''jwt'', ''multiClient'',
     ''clientId'', ''reason'', ''action'', ''ts'', ''dir'', ''msgType'', ''data'', ''messages'']"
  by code_simp

lemma unmarshal_render:
  assumes "wf_json max_nesting (JObj ms)"
  shows "unmarshal tbl zero (json_render (JObj ms)) = decode_members tbl ms zero"
  using parse_json_render [OF assms] by (simp add: unmarshal_def del: json_render.simps)

lemma fold_names:
  "fold_name ''type'' = ''TYPE''" "fold_name ''username'' = ''USERNAME''"
  "fold_name ''installId'' = ''INSTALLID''" "fold_name ''authToken'' = ''AUTHTOKEN''"
  "fold_name ''jwt'' = ''JWT''" "fold_name ''multiClient'' = ''MULTICLIENT''"
  "fold_name ''clientId'' = ''CLIENTID''" "fold_name ''ts'' = ''TS''" "fold_name ''dir'' = ''DIR''"
  "fold_name ''msgType'' = ''MSGTYPE''" "fold_name ''data'' = ''DATA''"
  by code_simp+

lemmas decode_defs = type_fields_def ServerRegister_fields_def ClientConnect_fields_def
  BufferedFrame_fields_def str_field_def bool_field_def int_field_def
  zero_ServerRegister_def zero_ClientConnect_def zero_BufferedFrame_def

lemma wf_ServerRegister:
  "\<lbrakk>utf8_valid (sr_Type m); utf8_valid (sr_Username m); utf8_valid (sr_InstallID m);
    utf8_valid (sr_AuthToken m); utf8_valid (sr_JWT m)\<rbrakk> \<Longrightarrow> wf_json max_nesting (json_of_ServerRegister m)"
  using field_names_ascii by (simp add: json_of_defs member_defs max_nesting_def)

lemma wf_ClientConnect:
  "\<lbrakk>utf8_valid (cc_Type m); utf8_valid (cc_Username m); utf8_valid (cc_ClientID m)\<rbrakk>
     \<Longrightarrow> wf_json max_nesting (json_of_ClientConnect m)"
  using field_names_ascii by (simp add: json_of_defs member_defs max_nesting_def)

lemma wf_BufferedFrame:
  "\<lbrakk>utf8_valid (bf_Direction f); utf8_valid (bf_Data f); 1 \<le> d\<rbrakk> \<Longrightarrow> wf_json d (json_of_BufferedFrame f)"
  using field_names_ascii by (simp add: json_of_defs member_defs int_literal_show_int)

lemma ParseMessage_ServerRegister:
  assumes "sr_Type m = ''server_register''" "utf8_valid (sr_Username m)" "utf8_valid (sr_InstallID m)"
    "utf8_valid (sr_AuthToken m)" "utf8_valid (sr_JWT m)"
  shows "ParseMessage (json_render (json_of_ServerRegister m)) = Some (MServerRegister m)"
proof -
  have "utf8_valid ''server_register''" by code_simp
  with assms have wf: "wf_json max_nesting (json_of_ServerRegister m)" by (intro wf_ServerRegister) simp_all
  have "unmarshal type_fields [] (json_render (json_of_ServerRegister m)) = Some ''server_register''"
    using unmarshal_render [OF wf [unfolded json_of_ServerRegister_def], of type_fields] assms(1)
    unfolding json_of_ServerRegister_def by (simp add: member_defs decode_defs fold_names del: fold_name.simps)
  moreover have "unmarshal ServerRegister_fields zero_ServerRegister (json_render (json_of_ServerRegister m)) = Some m"
    using unmarshal_render [OF wf [unfolded json_of_ServerRegister_def], of ServerRegister_fields]
    unfolding json_of_ServerRegister_def
    by (cases m) (simp add: member_defs decode_defs fold_names del: fold_name.simps)
  ultimately show ?thesis by (simp add: ParseMessage_def)
qed

lemma ParseMessage_ClientConnect:
  assumes "cc_Type m = ''client_connect''" "utf8_valid (cc_Username m)" "utf8_valid (cc_ClientID m)"
  shows "ParseMessage (json_render (json_of_ClientConnect m)) = Some (MClientConnect m)"
proof -
  have "utf8_valid ''client_connect''" by code_simp
  with assms have wf: "wf_json max_nesting (json_of_ClientConnect m)" by (intro wf_ClientConnect) simp_all
  have "unmarshal type_fields [] (json_render (json_of_ClientConnect m)) = Some ''client_connect''"
    using unmarshal_render [OF wf [unfolded json_of_ClientConnect_def], of type_fields] assms(1)
    unfolding json_of_ClientConnect_def by (simp add: member_defs decode_defs fold_names del: fold_name.simps)
  moreover have "unmarshal ClientConnect_fields zero_ClientConnect (json_render (json_of_ClientConnect m)) = Some m"
    using unmarshal_render [OF wf [unfolded json_of_ClientConnect_def], of ClientConnect_fields]
    unfolding json_of_ClientConnect_def
    by (cases m) (simp add: member_defs decode_defs fold_names del: fold_name.simps)
  ultimately show ?thesis by (simp add: ParseMessage_def)
qed

lemma unmarshal_BufferedFrame:
  assumes "utf8_valid (bf_Direction f)" "utf8_valid (bf_Data f)"
    "- (2 ^ 63) \<le> bf_Timestamp f" "bf_Timestamp f < 2 ^ 63" "- (2 ^ 63) \<le> bf_MsgType f" "bf_MsgType f < 2 ^ 63"
  shows "unmarshal BufferedFrame_fields zero_BufferedFrame (json_render (json_of_BufferedFrame f)) = Some f"
proof -
  have wf: "wf_json max_nesting (json_of_BufferedFrame f)"
    using assms(1,2) by (intro wf_BufferedFrame) (simp_all add: max_nesting_def)
  show ?thesis
    using unmarshal_render [OF wf [unfolded json_of_BufferedFrame_def], of BufferedFrame_fields]
      atoi_show_int [OF assms(3,4)] atoi_show_int [OF assms(5,6)]
    unfolding json_of_BufferedFrame_def
    by (cases f) (simp add: member_defs decode_defs fold_names del: fold_name.simps)
qed

section \<open>Properties\<close>

lemma decode_type_register:
  "decode_members ServerRegister_fields ms r = Some m \<Longrightarrow> decode_members type_fields ms (sr_Type r) = Some (sr_Type m)"
proof (induction ms arbitrary: r)
  case (Cons kv ms)
  note ih = Cons.IH [unfolded ServerRegister_fields_def type_fields_def]
  from Cons.prems show ?case
    by (cases kv) (auto simp: ServerRegister_fields_def type_fields_def str_field_def bool_field_def fold_names
        simp del: fold_name.simps split: if_splits option.splits json.splits dest!: ih)
qed simp

lemma decode_type_connect:
  "decode_members ClientConnect_fields ms r = Some m \<Longrightarrow> decode_members type_fields ms (cc_Type r) = Some (cc_Type m)"
proof (induction ms arbitrary: r)
  case (Cons kv ms)
  note ih = Cons.IH [unfolded ClientConnect_fields_def type_fields_def]
  from Cons.prems show ?case
    by (cases kv) (auto simp: ClientConnect_fields_def type_fields_def str_field_def fold_names
        simp del: fold_name.simps split: if_splits option.splits json.splits dest!: ih)
qed simp

text \<open>A username is valid exactly when it has 3 to 32 characters, all of them lower-case letters,
  digits or dashes, and neither begins nor ends with a dash.\<close>
lemma valid_usernames:
  "IsValidUsername u \<longleftrightarrow>
     3 \<le> length u \<and> length u \<le> 32 \<and> list_all alnum_dash u \<and> hd u \<noteq> CHR ''-'' \<and> last u \<noteq> CHR ''-''"
  by (rule IsValidUsername_eq)

text \<open>C26 A registration that is marshalled and parsed comes back unchanged, and so does a connection
  request: every field, the optional ones included, when its texts are valid UTF-8.\<close>
theorem messages_roundtrip:
  assumes "sr_Type m = ''server_register''" "list_all utf8_valid [sr_Username m, sr_InstallID m, sr_AuthToken m, sr_JWT m]"
    "cc_Type c = ''client_connect''" "list_all utf8_valid [cc_Username c, cc_ClientID c]"
  shows "ParseMessage (json_render (json_of_ServerRegister m)) = Some (MServerRegister m)
    \<and> ParseMessage (json_render (json_of_ClientConnect c)) = Some (MClientConnect c)"
  using assms by (simp add: ParseMessage_ServerRegister ParseMessage_ClientConnect)

definition sample_register :: ServerRegister where
  "sample_register = \<lparr>sr_Type = ''server_register'', sr_Username = ''ann-1'', sr_InstallID = ''i1'', sr_AuthToken = [],
     sr_JWT = ''a.b.c'', sr_MultiClient = True\<rparr>"

definition sample_connect :: ClientConnect where
  "sample_connect = \<lparr>cc_Type = ''client_connect'', cc_Username = ''ann-1'', cc_ClientID = []\<rparr>"

theorem messages_roundtrip_witness:
  "ParseMessage (json_render (json_of_ServerRegister sample_register)) = Some (MServerRegister sample_register)
    \<and> ParseMessage (json_render (json_of_ClientConnect sample_connect)) = Some (MClientConnect sample_connect)"
proof (rule messages_roundtrip)
  show "sr_Type sample_register = ''server_register''" "cc_Type sample_connect = ''client_connect''"
    by (simp_all add: sample_register_def sample_connect_def)
  show "list_all utf8_valid [sr_Username sample_register, sr_InstallID sample_register, sr_AuthToken sample_register,
      sr_JWT sample_register]" "list_all utf8_valid [cc_Username sample_connect, cc_ClientID sample_connect]"
    by code_simp+
qed

text \<open>C32 The message \<open>ParseMessage\<close> returns carries the type it was dispatched on, whatever the
  input: the two passes over the JSON agree on the \<open>type\<close> member even when it occurs more than once
  or in another letter case.\<close>
theorem parsed_types:
  assumes "ParseMessage data = Some msg"
  shows "case msg of MServerRegister m \<Rightarrow> sr_Type m = ''server_register'' | MClientConnect m \<Rightarrow> cc_Type m = ''client_connect''"
proof -
  obtain ty where ty: "unmarshal type_fields [] data = Some ty"
    using assms by (auto simp: ParseMessage_def split: option.splits)
  have r: "sr_Type m = ty" if "unmarshal ServerRegister_fields zero_ServerRegister data = Some m" for m
    using that ty decode_type_register [of _ zero_ServerRegister m]
    by (auto simp: unmarshal_def zero_ServerRegister_def split: option.splits json.splits)
  have c: "cc_Type m = ty" if "unmarshal ClientConnect_fields zero_ClientConnect data = Some m" for m
    using that ty decode_type_connect [of _ zero_ClientConnect m]
    by (auto simp: unmarshal_def zero_ClientConnect_def split: option.splits json.splits)
  show ?thesis using assms ty r c by (auto simp: ParseMessage_def split: if_splits)
qed

theorem parsed_types_witness:
  "\<exists>m. ParseMessage ''{\"Type\":\"x\",\"type\":\"server_register\"}'' = Some (MServerRegister m) \<and> sr_Type m = ''server_register''"
proof -
  obtain m where m: "ParseMessage ''{\"Type\":\"x\",\"type\":\"server_register\"}'' = Some (MServerRegister m)"
    by (rule that [of "zero_ServerRegister\<lparr>sr_Type := ''server_register''\<rparr>"]) code_simp
  with parsed_types [OF m] show ?thesis by auto
qed

end
