(* ===== verification/Go_Time.thy ===== *)
theory Go_Time
  imports Json
begin

text \<open>
  Go's \<open>time.Time\<close> as the registry uses it: an instant in UTC is its number of nanoseconds
  since 1970-01-01T00:00:00Z, \<open>AddDate(0, 0, -days)\<close> subtracts whole days (UTC has no other
  kind), and \<open>Format(time.RFC3339Nano)\<close> writes the proleptic Gregorian date and time. This is
  the language's library and maps to no line of the repository.
\<close>

section \<open>The calendar\<close>

definition nanos_per_day :: int where
  "nanos_per_day = 86400 * 1000000000"

definition leap_year :: "int \<Rightarrow> bool" where
  "leap_year y \<longleftrightarrow> y mod 4 = 0 \<and> (y mod 100 \<noteq> 0 \<or> y mod 400 = 0)"

definition year_days :: "int \<Rightarrow> int" where
  "year_days y = (if leap_year y then 366 else 365)"

definition month_lengths :: "int \<Rightarrow> int list" where
  "month_lengths y = [31, if leap_year y then 29 else 28, 31, 30, 31, 30, 31, 31, 30, 31, 30, 31]"

text \<open>The year a day falls in and the day's index in it, counting from the first day of \<open>y\<close>.\<close>
function find_year :: "int \<Rightarrow> int \<Rightarrow> int \<times> int" where
  "find_year y d = (if d < year_days y then (y, d) else find_year (y + 1) (d - year_days y))"
  by pat_completeness auto
termination
  by (relation "measure (\<lambda>(y, d). nat d)") (auto simp: year_days_def split: if_splits)

declare find_year.simps [simp del]

fun find_month :: "int \<Rightarrow> int list \<Rightarrow> int \<Rightarrow> int \<times> int" where
  "find_month m [] d = (m, d + 1)"
| "find_month m (l # ls) d = (if d < l then (m, d + 1) else find_month (m + 1) ls (d - l))"

text \<open>Year, month and day of a day number, day 0 being 1970-01-01: 400 years have 146097 days,
  and 719528 days lie between 0000-01-01 and 1970-01-01.\<close>
definition civil_date :: "int \<Rightarrow> int \<times> int \<times> int" where
  "civil_date days =
     (let z = days + 719528;
          (y, yd) = find_year (400 * (z div 146097)) (z mod 146097);
          (m, d) = find_month 1 (month_lengths y) yd
      in (y, m, d))"

section \<open>RFC 3339\<close>

text \<open>A decimal padded with zeros to a width.\<close>
definition pad_int :: "nat \<Rightarrow> int \<Rightarrow> string" where
  "pad_int w n =
     (let ds = show_digits \<bar>n\<bar>
      in (if n < 0 then ''-'' else []) @ replicate (w - length ds) (CHR ''0'') @ ds)"

text \<open>The fraction: nine digits without the trailing zeros, nothing when all are zero.\<close>
definition frac_text :: "int \<Rightarrow> string" where
  "frac_text ns =
     (let ds = rev (dropWhile (\<lambda>c. c = CHR ''0'') (rev (pad_int 9 ns)))
      in if ds = [] then [] else CHR ''.'' # ds)"

definition date_text :: "int \<Rightarrow> string" where
  "date_text days =
     (case civil_date days of
        (y, m, d) \<Rightarrow> pad_int 4 y @ ''-'' @ pad_int 2 m @ ''-'' @ pad_int 2 d)"

definition clock_text :: "int \<Rightarrow> string" where
  "clock_text secs =
     pad_int 2 (secs div 3600) @ '':'' @ pad_int 2 (secs div 60 mod 60) @ '':'' @ pad_int 2 (secs mod 60)"

definition rfc3339nano :: "int \<Rightarrow> string" where
  "rfc3339nano t =
     date_text (t div nanos_per_day) @ ''T'' @ clock_text (t mod nanos_per_day div 1000000000)
     @ frac_text (t mod 1000000000) @ ''Z''"

definition add_days :: "int \<Rightarrow> int \<Rightarrow> int" where
  "add_days t n = t + n * nanos_per_day"

end
