(* ===== verification/Registry.thy ===== *)
theory Registry
  imports Protocol Go_Time "HOL-Library.State_Monad" "HOL-Library.Finite_Map"
begin

text \<open>
  \<open>internal/registry/registry.go\<close>: the table of usernames, each bound to the installation that
  registered it first.

  The SQL statements are those of the source: a constructor of \<open>sql_stmt\<close> per statement with
  its arguments, and what each means on the table (\<open>sql_answer\<close>, \<open>sql_effect\<close>). The database
  behind them is a parameter: \<open>exec\<close> runs a statement on an opaque state and may fail. The
  locale \<open>sql_engine\<close> states what the registry relies on: a statement that succeeds does what
  it says, one that fails changes nothing, a second row for a username is refused.
\<close>

section \<open>The table and its statements\<close>

record urow =
  ur_install_id :: string
  ur_registered_at :: string
  ur_last_seen_at :: string

text \<open>Keyed by the primary key.\<close>
type_synonym utable = "(string, urow) fmap"

datatype sql_stmt =
    PragmaWAL
  | CreateTable
  | CreateIndex
  | PingDb
  | SelectInstall string
  | SelectOne string
  | SelectRow string
  | SelectCount
  | SelectAll
  | UpdateSeen string string
  | InsertRow string string string string
  | DeleteOlder string
  | DeleteRow string

datatype sql_value = SText string | SInt int

datatype sql_result = Rows "sql_value list list" | Affected int

datatype sql_error = SqlError

definition row_values :: "string \<Rightarrow> urow \<Rightarrow> sql_value list" where
  "row_values u r = [SText u, SText (ur_install_id r), SText (ur_registered_at r), SText (ur_last_seen_at r)]"

definition older :: "string \<Rightarrow> utable \<Rightarrow> string \<Rightarrow> bool" where
  "older cutoff t u = (case fmlookup t u of None \<Rightarrow> False | Some r \<Rightarrow> ur_last_seen_at r < cutoff)"

fun sql_answer :: "sql_stmt \<Rightarrow> utable \<Rightarrow> sql_result" where
  "sql_answer (SelectInstall u) t =
     Rows (case fmlookup t u of None \<Rightarrow> [] | Some r \<Rightarrow> [[SText (ur_install_id r)]])"
| "sql_answer (SelectOne u) t = Rows (case fmlookup t u of None \<Rightarrow> [] | Some r \<Rightarrow> [[SInt 1]])"
| "sql_answer (SelectRow u) t = Rows (case fmlookup t u of None \<Rightarrow> [] | Some r \<Rightarrow> [row_values u r])"
| "sql_answer SelectCount t = Rows [[SInt (int (fcard (fmdom t)))]]"
| "sql_answer SelectAll t =
     Rows (map (\<lambda>u. case fmlookup t u of None \<Rightarrow> [] | Some r \<Rightarrow> row_values u r)
             (sorted_list_of_fset (fmdom t)))"
| "sql_answer (UpdateSeen now u) t = Affected (case fmlookup t u of None \<Rightarrow> 0 | Some _ \<Rightarrow> 1)"
| "sql_answer (InsertRow u i ra ls) t = Affected 1"
| "sql_answer (DeleteOlder cutoff) t = Affected (int (fcard (ffilter (older cutoff t) (fmdom t))))"
| "sql_answer (DeleteRow u) t = Affected (case fmlookup t u of None \<Rightarrow> 0 | Some _ \<Rightarrow> 1)"
| "sql_answer _ t = Affected 0"

fun sql_effect :: "sql_stmt \<Rightarrow> utable \<Rightarrow> utable" where
  "sql_effect (UpdateSeen now u) t =
     (case fmlookup t u of None \<Rightarrow> t | Some r \<Rightarrow> fmupd u (r\<lparr>ur_last_seen_at := now\<rparr>) t)"
| "sql_effect (InsertRow u i ra ls) t =
     fmupd u \<lparr>ur_install_id = i, ur_registered_at = ra, ur_last_seen_at = ls\<rparr> t"
| "sql_effect (DeleteOlder cutoff) t = fmfilter (\<lambda>u. \<not> older cutoff t u) t"
| "sql_effect (DeleteRow u) t = fmdrop u t"
| "sql_effect _ t = t"

text \<open>The constraint of the schema: usernames are the primary key.\<close>
fun sql_violates :: "sql_stmt \<Rightarrow> utable \<Rightarrow> bool" where
  "sql_violates (InsertRow u i ra ls) t = (fmlookup t u \<noteq> None)"
| "sql_violates _ t = False"

section \<open>Running statements\<close>

type_synonym 'd sql_exec = "sql_stmt \<Rightarrow> 'd \<Rightarrow> (sql_error + sql_result) \<times> 'd"

text \<open>\<open>QueryRow(...).Scan\<close>: the first row, \<open>sql.ErrNoRows\<close>, or another error.\<close>
datatype scan = Found "sql_value list" | NoRows | ScanFailed

definition scan_row :: "sql_error + sql_result \<Rightarrow> scan" where
  "scan_row r =
     (case r of
        Inl e \<Rightarrow> ScanFailed
      | Inr (Rows []) \<Rightarrow> NoRows
      | Inr (Rows (vs # _)) \<Rightarrow> Found vs
      | Inr (Affected n) \<Rightarrow> ScanFailed)"

definition query_row :: "'d sql_exec \<Rightarrow> sql_stmt \<Rightarrow> ('d, scan) state" where
  "query_row exec s = State (\<lambda>d. case exec s d of (r, d') \<Rightarrow> (scan_row r, d'))"

definition db_exec :: "'d sql_exec \<Rightarrow> sql_stmt \<Rightarrow> ('d, sql_error + sql_result) state" where
  "db_exec exec s = State (exec s)"

definition rows_affected :: "sql_error + sql_result \<Rightarrow> int option" where
  "rows_affected r = (case r of Inl e \<Rightarrow> None | Inr (Affected n) \<Rightarrow> Some n | Inr (Rows _) \<Rightarrow> Some 0)"

section \<open>The registry\<close>

datatype registry_error = CreateDataDir | OpenDb | EnableWAL | InitSchema

definition initSchema :: "'d sql_exec \<Rightarrow> ('d, bool) state" where
  "initSchema exec = do {
     r1 \<leftarrow> db_exec exec CreateTable;
     if isl r1 then State_Monad.return False
     else do {
       r2 \<leftarrow> db_exec exec CreateIndex;
       State_Monad.return (\<not> isl r2)
     }
   }"

text \<open>\<open>mkdir_ok\<close> and \<open>open_ok\<close> are the outcomes of \<open>os.MkdirAll\<close> and \<open>sql.Open\<close>.\<close>
definition registry_New :: "'d sql_exec \<Rightarrow> bool \<Rightarrow> bool \<Rightarrow> ('d, registry_error option) state" where
  "registry_New exec mkdir_ok open_ok =
     (if \<not> mkdir_ok then State_Monad.return (Some CreateDataDir)
      else if \<not> open_ok then State_Monad.return (Some OpenDb)
      else do {
        wal \<leftarrow> db_exec exec PragmaWAL;
        if isl wal then State_Monad.return (Some EnableWAL)
        else do {
          ok \<leftarrow> initSchema exec;
          State_Monad.return (if ok then None else Some InitSchema)
        }
      })"

definition CanRegister :: "'d sql_exec \<Rightarrow> string \<Rightarrow> string \<Rightarrow> ('d, bool) state" where
  "CanRegister exec username installID =
     (if \<not> IsValidUsername username then State_Monad.return False
      else do {
        r \<leftarrow> query_row exec (SelectInstall username);
        State_Monad.return (case r of
            NoRows \<Rightarrow> True
          | ScanFailed \<Rightarrow> False
          | Found vs \<Rightarrow> vs = [SText installID])
      })"

definition Register :: "'d sql_exec \<Rightarrow> int \<Rightarrow> string \<Rightarrow> string \<Rightarrow> ('d, bool) state" where
  "Register exec time username installID =
     (if \<not> IsValidUsername username then State_Monad.return False
      else do {
        let now = rfc3339nano time;
        r \<leftarrow> query_row exec (SelectInstall username);
        case r of
          Found vs \<Rightarrow>
            if vs \<noteq> [SText installID] then State_Monad.return False
            else do {
              _ \<leftarrow> db_exec exec (UpdateSeen now username);
              State_Monad.return True
            }
        | _ \<Rightarrow> do {
            res \<leftarrow> db_exec exec (InsertRow username installID now now);
            State_Monad.return (\<not> isl res)
          }
      })"

definition IsRegistered :: "'d sql_exec \<Rightarrow> string \<Rightarrow> ('d, bool) state" where
  "IsRegistered exec username = do {
     r \<leftarrow> query_row exec (SelectOne username);
     State_Monad.return (case r of Found _ \<Rightarrow> True | _ \<Rightarrow> False)
   }"

definition UpdateLastSeen :: "'d sql_exec \<Rightarrow> int \<Rightarrow> string \<Rightarrow> ('d, unit) state" where
  "UpdateLastSeen exec time username = do {
     _ \<leftarrow> db_exec exec (UpdateSeen (rfc3339nano time) username);
     State_Monad.return ()
   }"

record UsernameRecord =
  Username :: string
  InstallID :: string
  RegisteredAt :: string
  LastSeenAt :: string

fun scan_record :: "sql_value list \<Rightarrow> UsernameRecord option" where
  "scan_record [SText u, SText i, SText ra, SText ls] =
     Some \<lparr>Username = u, InstallID = i, RegisteredAt = ra, LastSeenAt = ls\<rparr>"
| "scan_record _ = None"

definition Get :: "'d sql_exec \<Rightarrow> string \<Rightarrow> ('d, UsernameRecord option) state" where
  "Get exec username = do {
     r \<leftarrow> query_row exec (SelectRow username);
     State_Monad.return (case r of Found vs \<Rightarrow> scan_record vs | _ \<Rightarrow> None)
   }"

definition Count :: "'d sql_exec \<Rightarrow> ('d, int) state" where
  "Count exec = do {
     r \<leftarrow> query_row exec SelectCount;
     State_Monad.return (case r of Found [SInt n] \<Rightarrow> n | _ \<Rightarrow> 0)
   }"

definition ReclaimInactive :: "'d sql_exec \<Rightarrow> int \<Rightarrow> int \<Rightarrow> ('d, int) state" where
  "ReclaimInactive exec time days = do {
     let cutoff = rfc3339nano (add_days time (- days));
     res \<leftarrow> db_exec exec (DeleteOlder cutoff);
     State_Monad.return (case rows_affected res of None \<Rightarrow> 0 | Some n \<Rightarrow> n)
   }"

definition Delete :: "'d sql_exec \<Rightarrow> string \<Rightarrow> ('d, bool) state" where
  "Delete exec username = do {
     res \<leftarrow> db_exec exec (DeleteRow username);
     State_Monad.return (case rows_affected res of None \<Rightarrow> False | Some n \<Rightarrow> n > 0)
   }"

text \<open>Rows that do not scan are skipped.\<close>
definition registry_List :: "'d sql_exec \<Rightarrow> ('d, UsernameRecord list) state" where
  "registry_List exec = do {
     res \<leftarrow> db_exec exec SelectAll;
     State_Monad.return (case res of Inr (Rows rs) \<Rightarrow> List.map_filter scan_record rs | _ \<Rightarrow> [])
   }"

definition registry_Ping :: "'d sql_exec \<Rightarrow> ('d, bool) state" where
  "registry_Ping exec = do {
     res \<leftarrow> db_exec exec PingDb;
     State_Monad.return (\<not> isl res)
   }"

section \<open>What the registry relies on\<close>

locale sql_engine =
  fixes exec :: "'d sql_exec" and tbl :: "'d \<Rightarrow> utable"
  assumes exec_ok: "exec s d = (Inr r, d') \<Longrightarrow>
      \<not> sql_violates s (tbl d) \<and> r = sql_answer s (tbl d) \<and> tbl d' = sql_effect s (tbl d)"
    and exec_failed: "exec s d = (Inl e, d') \<Longrightarrow> tbl d' = tbl d"
begin

lemma query_tbl:
  assumes "run_state (query_row exec s) d = (r, d')" "\<And>t. sql_effect s t = t"
  shows "tbl d' = tbl d"
proof -
  obtain q d1 where e: "exec s d = (q, d1)" by (cases "exec s d")
  then show ?thesis using assms exec_ok [of s d] exec_failed [of s d]
    by (cases q) (auto simp: query_row_def)
qed

lemma query_found:
  "run_state (query_row exec s) d = (Found vs, d') \<Longrightarrow> \<exists>rest. sql_answer s (tbl d) = Rows (vs # rest)"
proof -
  assume a: "run_state (query_row exec s) d = (Found vs, d')"
  obtain q d1 where e: "exec s d = (q, d1)" by (cases "exec s d")
  then show ?thesis using a exec_ok [of s d]
    by (cases q) (auto simp: query_row_def scan_row_def split: sql_result.splits list.splits)
qed

lemma query_none:
  "run_state (query_row exec s) d = (NoRows, d') \<Longrightarrow> sql_answer s (tbl d) = Rows []"
proof -
  assume a: "run_state (query_row exec s) d = (NoRows, d')"
  obtain q d1 where e: "exec s d = (q, d1)" by (cases "exec s d")
  then show ?thesis using a exec_ok [of s d]
    by (cases q) (auto simp: query_row_def scan_row_def split: sql_result.splits list.splits)
qed

lemma db_exec_tbl:
  assumes "run_state (db_exec exec s) d = (r, d')"
  shows "tbl d' = tbl d \<and> isl r \<or> tbl d' = sql_effect s (tbl d) \<and> r = Inr (sql_answer s (tbl d)) \<and> \<not> sql_violates s (tbl d)"
  using assms exec_ok [of s d] exec_failed [of s d] by (cases r) (auto simp: db_exec_def)

end

text \<open>A database whose statements only fail when they violate the schema.\<close>
locale sql_reliable = sql_engine +
  assumes reliable: "\<not> sql_violates s (tbl d) \<Longrightarrow> \<exists>r d'. exec s d = (Inr r, d')"

section \<open>Who owns a username\<close>

definition owner :: "utable \<Rightarrow> string \<Rightarrow> string option" where
  "owner t u = map_option ur_install_id (fmlookup t u)"

lemma owner_seen [simp]:
  "owner (case fmlookup t u of None \<Rightarrow> t | Some r \<Rightarrow> fmupd u (r\<lparr>ur_last_seen_at := now\<rparr>) t) = owner t"
  by (auto simp: owner_def fun_eq_iff split: option.splits)

lemma owner_insert [simp]: "owner (fmupd u r t) = (owner t)(u \<mapsto> ur_install_id r)"
  by (simp add: owner_def fun_eq_iff)

lemma owner_drop [simp]: "owner (fmdrop u t) = map_delete (owner t) u"
  by (simp add: owner_def fun_eq_iff)

context sql_engine
begin

lemma query_run:
  assumes "\<And>t. sql_effect s t = t"
  shows "\<exists>r d'. run_state (query_row exec s) d = (r, d') \<and> tbl d' = tbl d
    \<and> (r = ScanFailed \<or> r = scan_row (Inr (sql_answer s (tbl d))))"
proof -
  obtain q d1 where e: "exec s d = (q, d1)" by (cases "exec s d")
  then show ?thesis using exec_ok [of s d] exec_failed [of s d] assms
    by (cases q) (auto simp: query_row_def scan_row_def)
qed

lemma db_run:
  "\<exists>r d'. run_state (db_exec exec s) d = (r, d')
    \<and> (isl r \<and> tbl d' = tbl d \<or> r = Inr (sql_answer s (tbl d)) \<and> tbl d' = sql_effect s (tbl d) \<and> \<not> sql_violates s (tbl d))"
  using db_exec_tbl [of s d] by (metis surj_pair)

lemma select_install:
  "\<exists>r d'. run_state (query_row exec (SelectInstall u)) d = (r, d') \<and> tbl d' = tbl d
    \<and> (r = ScanFailed \<or> r = (case owner (tbl d) u of None \<Rightarrow> NoRows | Some i \<Rightarrow> Found [SText i]))"
  using query_run [of "SelectInstall u" d] by (auto simp: owner_def scan_row_def split: option.splits)

lemma CanRegister_run:
  assumes "run_state (CanRegister exec u i) d = (ok, d')"
  shows "tbl d' = tbl d" "ok \<Longrightarrow> IsValidUsername u \<and> (owner (tbl d) u = None \<or> owner (tbl d) u = Some i)"
  using assms select_install [of u d]
  by (auto simp: CanRegister_def split: if_splits option.splits)

lemma Register_run:
  assumes "run_state (Register exec time u i) d = (ok, d')"
  shows "ok \<Longrightarrow> IsValidUsername u \<and> (owner (tbl d) u = None \<or> owner (tbl d) u = Some i)
      \<and> owner (tbl d') = (owner (tbl d))(u \<mapsto> i)"
    and "\<not> ok \<Longrightarrow> tbl d' = tbl d"
proof -
  obtain r d1 where q: "run_state (query_row exec (SelectInstall u)) d = (r, d1)" "tbl d1 = tbl d"
      "r = ScanFailed \<or> r = (case owner (tbl d) u of None \<Rightarrow> NoRows | Some i \<Rightarrow> Found [SText i])"
    using select_install [of u d] by blast
  obtain x d2 where x: "run_state (db_exec exec (UpdateSeen (rfc3339nano time) u)) d1 = (x, d2)"
      "isl x \<and> tbl d2 = tbl d1 \<or> tbl d2 = sql_effect (UpdateSeen (rfc3339nano time) u) (tbl d1)"
    using db_run [of "UpdateSeen (rfc3339nano time) u" d1] by blast
  obtain y d3 where y: "run_state (db_exec exec (InsertRow u i (rfc3339nano time) (rfc3339nano time))) d1 = (y, d3)"
      "isl y \<and> tbl d3 = tbl d1 \<or> \<not> isl y \<and> tbl d3 = sql_effect (InsertRow u i (rfc3339nano time) (rfc3339nano time)) (tbl d1)
         \<and> owner (tbl d1) u = None"
    using db_run [of "InsertRow u i (rfc3339nano time) (rfc3339nano time)" d1] by (auto simp: owner_def)
  have upd: "owner (tbl d2) = owner (tbl d1)" using x(2) by (auto simp: fun_eq_iff)
  show "ok \<Longrightarrow> IsValidUsername u \<and> (owner (tbl d) u = None \<or> owner (tbl d) u = Some i)
      \<and> owner (tbl d') = (owner (tbl d))(u \<mapsto> i)"
    using assms q x y upd
    by (cases r) (auto simp: Register_def Let_def fun_eq_iff split: if_splits option.splits)
  show "\<not> ok \<Longrightarrow> tbl d' = tbl d"
    using assms q x y
    by (cases r) (auto simp: Register_def Let_def split: if_splits option.splits)
qed

lemma IsRegistered_run:
  assumes "run_state (IsRegistered exec u) d = (ok, d')"
  shows "tbl d' = tbl d" "ok \<Longrightarrow> owner (tbl d) u \<noteq> None"
  using assms query_run [of "SelectOne u" d]
  by (auto simp: IsRegistered_def owner_def scan_row_def split: option.splits)

lemma UpdateLastSeen_run: "owner (tbl (snd (run_state (UpdateLastSeen exec time u) d))) = owner (tbl d)"
  using db_run [of "UpdateSeen (rfc3339nano time) u" d] by (auto simp: UpdateLastSeen_def fun_eq_iff)

lemma Get_run:
  assumes "run_state (Get exec u) d = (r, d')"
  shows "tbl d' = tbl d" "r = Some rec \<Longrightarrow> Username rec = u \<and> owner (tbl d) u = Some (InstallID rec)"
  using assms query_run [of "SelectRow u" d]
  by (auto simp: Get_def owner_def scan_row_def row_values_def split: option.splits)

lemma Count_run:
  assumes "run_state (Count exec) d = (n, d')"
  shows "tbl d' = tbl d" "n = 0 \<or> n = int (fcard (fmdom (tbl d)))"
  using assms query_run [of SelectCount d] by (auto simp: Count_def scan_row_def)

lemma ReclaimInactive_run:
  assumes "run_state (ReclaimInactive exec time days) d = (n, d')"
  shows "tbl d' = tbl d \<and> n = 0
    \<or> tbl d' = fmfilter (\<lambda>u. \<not> older (rfc3339nano (add_days time (- days))) (tbl d) u) (tbl d)
      \<and> n = int (fcard (fmdom (tbl d) |-| fmdom (tbl d')))"
proof -
  define cutoff where "cutoff = rfc3339nano (add_days time (- days))"
  have dom: "fmdom (fmfilter (\<lambda>u. \<not> older cutoff (tbl d) u) (tbl d)) = ffilter (\<lambda>u. \<not> older cutoff (tbl d) u) (fmdom (tbl d))"
    by simp
  have "fmdom (tbl d) |-| ffilter (\<lambda>u. \<not> older cutoff (tbl d) u) (fmdom (tbl d)) = ffilter (older cutoff (tbl d)) (fmdom (tbl d))"
    by auto
  with assms db_run [of "DeleteOlder cutoff" d] show ?thesis
    by (auto simp: ReclaimInactive_def Let_def cutoff_def [symmetric] rows_affected_def split: sum.splits)
qed

lemma Delete_run:
  assumes "run_state (Delete exec u) d = (ok, d')"
  shows "ok \<Longrightarrow> owner (tbl d) u \<noteq> None" "tbl d' = tbl d \<or> tbl d' = fmdrop u (tbl d)"
  using assms db_run [of "DeleteRow u" d]
  by (auto simp: Delete_def rows_affected_def owner_def split: sum.splits option.splits)

end

section \<open>A database that keeps the promise\<close>

definition table_exec :: "utable sql_exec" where
  "table_exec s t =
     (if sql_violates s t then (Inl SqlError, t) else (Inr (sql_answer s t), sql_effect s t))"

interpretation table_db: sql_reliable table_exec id
  by unfold_locales (auto simp: table_exec_def split: if_splits)

text \<open>One whose disk is full: every statement fails.\<close>
definition broken_exec :: "utable sql_exec" where
  "broken_exec s t = (Inl SqlError, t)"

interpretation broken_db: sql_engine broken_exec id
  by unfold_locales (auto simp: broken_exec_def)

section \<open>Histories of the registry\<close>

text \<open>Any sequence of operations, and the ones that free no username.\<close>
datatype reg_op =
    OpCanRegister string string
  | OpRegister int string string
  | OpIsRegistered string
  | OpUpdateLastSeen int string
  | OpGet string
  | OpCount
  | OpList
  | OpPing
  | OpReclaimInactive int int
  | OpDelete string

fun reg_step :: "'d sql_exec \<Rightarrow> reg_op \<Rightarrow> 'd \<Rightarrow> 'd" where
  "reg_step exec (OpCanRegister u i) d = snd (run_state (CanRegister exec u i) d)"
| "reg_step exec (OpRegister t u i) d = snd (run_state (Register exec t u i) d)"
| "reg_step exec (OpIsRegistered u) d = snd (run_state (IsRegistered exec u) d)"
| "reg_step exec (OpUpdateLastSeen t u) d = snd (run_state (UpdateLastSeen exec t u) d)"
| "reg_step exec (OpGet u) d = snd (run_state (Get exec u) d)"
| "reg_step exec OpCount d = snd (run_state (Count exec) d)"
| "reg_step exec OpList d = snd (run_state (registry_List exec) d)"
| "reg_step exec OpPing d = snd (run_state (registry_Ping exec) d)"
| "reg_step exec (OpReclaimInactive t days) d = snd (run_state (ReclaimInactive exec t days) d)"
| "reg_step exec (OpDelete u) d = snd (run_state (Delete exec u) d)"

fun frees_none :: "reg_op \<Rightarrow> bool" where
  "frees_none (OpReclaimInactive t days) = False"
| "frees_none (OpDelete u) = False"
| "frees_none _ = True"

definition reg_run :: "'d sql_exec \<Rightarrow> reg_op list \<Rightarrow> 'd \<Rightarrow> 'd" where
  "reg_run exec ops d = foldl (\<lambda>d op. reg_step exec op d) d ops"

context sql_engine
begin

lemma reg_step_owner:
  assumes "frees_none op" "owner (tbl d) u = Some i"
  shows "owner (tbl (reg_step exec op d)) u = Some i"
proof (cases op)
  case (OpCanRegister v j)
  obtain ok d' where r: "run_state (CanRegister exec v j) d = (ok, d')" by force
  show ?thesis using CanRegister_run(1) [OF r] r assms(2) OpCanRegister by simp
next
  case (OpRegister t v j)
  obtain ok d' where r: "run_state (Register exec t v j) d = (ok, d')" by force
  show ?thesis using Register_run [OF r] r assms(2) OpRegister by (cases ok) auto
next
  case (OpIsRegistered v)
  obtain ok d' where r: "run_state (IsRegistered exec v) d = (ok, d')" by force
  show ?thesis using IsRegistered_run(1) [OF r] r assms(2) OpIsRegistered by simp
next
  case (OpUpdateLastSeen t v)
  then show ?thesis using UpdateLastSeen_run [of t v d] assms(2) by simp
next
  case (OpGet v)
  obtain ok d' where r: "run_state (Get exec v) d = (ok, d')" by force
  show ?thesis using Get_run(1) [OF r] r assms(2) OpGet by simp
next
  case OpCount
  obtain ok d' where r: "run_state (Count exec) d = (ok, d')" by force
  show ?thesis using Count_run(1) [OF r] r assms(2) OpCount by simp
next
  case OpList
  then show ?thesis using db_run [of SelectAll d] assms(2) by (auto simp: registry_List_def)
next
  case OpPing
  then show ?thesis using db_run [of PingDb d] assms(2) by (auto simp: registry_Ping_def)
qed (use assms(1) in simp_all)

lemma reg_run_owner:
  "list_all frees_none ops \<Longrightarrow> owner (tbl d) u = Some i \<Longrightarrow> owner (tbl (reg_run exec ops d)) u = Some i"
proof (induction ops arbitrary: d)
  case (Cons op ops)
  then show ?case using reg_step_owner [of op d u i] by (simp add: reg_run_def)
qed (simp add: reg_run_def)

end

text \<open>The specification of \<open>Register\<close>: a map from usernames to their owners.\<close>
definition register_spec :: "string \<Rightarrow> string \<Rightarrow> (string \<rightharpoonup> string) \<Rightarrow> bool \<times> (string \<rightharpoonup> string)" where
  "register_spec u i m =
     (if IsValidUsername u \<and> (m u = None \<or> m u = Some i) then (True, m(u \<mapsto> i)) else (False, m))"

context sql_reliable
begin

lemma db_reliable:
  assumes "\<not> sql_violates s (tbl d)"
  shows "\<exists>d'. run_state (db_exec exec s) d = (Inr (sql_answer s (tbl d)), d') \<and> tbl d' = sql_effect s (tbl d)"
proof -
  obtain r d' where r: "exec s d = (Inr r, d')" using reliable [OF assms] by blast
  then show ?thesis using exec_ok [OF r] by (simp add: db_exec_def)
qed

lemma query_reliable:
  assumes "\<not> sql_violates s (tbl d)"
  shows "\<exists>d'. run_state (query_row exec s) d = (scan_row (Inr (sql_answer s (tbl d))), d') \<and> tbl d' = sql_effect s (tbl d)"
proof -
  obtain r d' where r: "exec s d = (Inr r, d')" using reliable [OF assms] by blast
  then show ?thesis using exec_ok [OF r] by (simp add: query_row_def)
qed

lemma Register_refines:
  "(case run_state (Register exec t u i) d of (ok, d') \<Rightarrow> (ok, owner (tbl d'))) = register_spec u i (owner (tbl d))"
proof (cases "IsValidUsername u")
  case False
  then show ?thesis by (simp add: Register_def register_spec_def)
next
  case True
  obtain d1 where q: "run_state (query_row exec (SelectInstall u)) d
      = (scan_row (Inr (sql_answer (SelectInstall u) (tbl d))), d1)" "tbl d1 = tbl d"
    using query_reliable [of "SelectInstall u" d] by auto
  show ?thesis
  proof (cases "fmlookup (tbl d) u")
    case None
    then obtain d2 where "run_state (db_exec exec (InsertRow u i (rfc3339nano t) (rfc3339nano t))) d1
        = (Inr (Affected 1), d2)" "owner (tbl d2) = (owner (tbl d))(u \<mapsto> i)"
      using db_reliable [of "InsertRow u i (rfc3339nano t) (rfc3339nano t)" d1] q(2) by auto
    with True None q show ?thesis
      by (simp add: Register_def register_spec_def scan_row_def owner_def Let_def)
  next
    case (Some r)
    obtain d2 x where "run_state (db_exec exec (UpdateSeen (rfc3339nano t) u)) d1 = (x, d2)"
        "owner (tbl d2) = owner (tbl d)"
      using db_reliable [of "UpdateSeen (rfc3339nano t) u" d1] q(2) by auto
    with True Some q show ?thesis
      by (auto simp: Register_def register_spec_def scan_row_def owner_def Let_def fun_eq_iff)
  qed
qed

end

context sql_reliable
begin

lemma CanRegister_reliable:
  "\<exists>d'. run_state (CanRegister exec u i) d = (IsValidUsername u \<and> owner (tbl d) u \<in> {None, Some i}, d') \<and> tbl d' = tbl d"
  using query_reliable [of "SelectInstall u" d]
  by (cases "fmlookup (tbl d) u") (auto simp: CanRegister_def owner_def scan_row_def)

lemma IsRegistered_reliable:
  "\<exists>d'. run_state (IsRegistered exec u) d = (owner (tbl d) u \<noteq> None, d') \<and> tbl d' = tbl d"
  using query_reliable [of "SelectOne u" d]
  by (cases "fmlookup (tbl d) u") (auto simp: IsRegistered_def owner_def scan_row_def)

end

section \<open>Properties\<close>

text \<open>C17 A username belongs to the installation that registered it first: after a registration that
  succeeded, and any further operations except reclaiming and deleting, a registration of the name
  can only succeed for the same installation, whatever statements of the database fail in between.\<close>
theorem username_bound_to_owner:
  assumes "sql_engine exec tbl" "list_all frees_none ops"
    "run_state (Register exec t1 u i) d = (True, d1)"
    "run_state (Register exec t2 u j) (reg_run exec ops d1) = (True, d2)"
  shows "i = j"
proof -
  have "owner (tbl d1) u = Some i"
    using sql_engine.Register_run(1) [OF assms(1,3)] by simp
  then have "owner (tbl (reg_run exec ops d1)) u = Some i"
    by (rule sql_engine.reg_run_owner [OF assms(1,2)])
  with sql_engine.Register_run(1) [OF assms(1,4)] show ?thesis by simp
qed

theorem username_bound_to_owner_witness:
  "\<exists>d1 d2. run_state (Register table_exec 0 ''ann'' ''i1'') fmempty = (True, d1)
    \<and> run_state (Register table_exec 5 ''ann'' ''i1'') (reg_run table_exec [OpRegister 1 ''bob'' ''i2''] d1) = (True, d2)
    \<and> ''i1'' = (''i1'' :: string)"
proof -
  have v: "IsValidUsername ''ann''" by (simp add: IsValidUsername_eq) code_simp
  obtain ok d1 where r1: "run_state (Register table_exec 0 ''ann'' ''i1'') fmempty = (ok, d1)" by force
  have ok: "ok" "owner d1 ''ann'' = Some ''i1''"
    using table_db.Register_refines [of 0 "''ann''" "''i1''" fmempty] r1 v by (auto simp: register_spec_def owner_def)
  have keep: "owner (reg_run table_exec [OpRegister 1 ''bob'' ''i2''] d1) ''ann'' = Some ''i1''"
    using table_db.reg_run_owner [of "[OpRegister 1 ''bob'' ''i2'']" d1 "''ann''" "''i1''"] ok(2) by simp
  obtain ok2 d2 where r2: "run_state (Register table_exec 5 ''ann'' ''i1'') (reg_run table_exec [OpRegister 1 ''bob'' ''i2''] d1) = (ok2, d2)"
    by force
  have ok2: "ok2"
    using table_db.Register_refines [of 5 "''ann''" "''i1''" "reg_run table_exec [OpRegister 1 ''bob'' ''i2''] d1"] r2 keep v
    by (auto simp: register_spec_def)
  have "list_all frees_none [OpRegister 1 ''bob'' ''i2'']" by simp
  with username_bound_to_owner [OF table_db.sql_engine_axioms _ r1 [unfolded eqTrueI [OF ok(1)]] r2 [unfolded eqTrueI [OF ok2]]]
  show ?thesis using r1 r2 ok ok2 by auto
qed

text \<open>C18 On a database whose statements fail only when they violate the schema, registering is the
  operation of a map from usernames to owners: it succeeds exactly when the name is valid and free or
  already the caller's, and then binds it; otherwise it changes no owner.\<close>
theorem register_refines_owner_map:
  assumes "sql_reliable exec tbl"
  shows "(case run_state (Register exec t u i) d of (ok, d') \<Rightarrow> (ok, owner (tbl d'))) = register_spec u i (owner (tbl d))"
  using sql_reliable.Register_refines [OF assms] by simp

theorem register_refines_owner_map_witness:
  "(case run_state (Register table_exec 0 ''ann'' ''i1'') fmempty of (ok, d') \<Rightarrow> (ok, owner (id d')))
    = (True, [''ann'' \<mapsto> ''i1''])"
proof -
  have v: "IsValidUsername ''ann''" by (simp add: IsValidUsername_eq) code_simp
  have "owner (id (fmempty :: utable)) = Map.empty" by (simp add: owner_def fun_eq_iff)
  then show ?thesis
    using register_refines_owner_map [OF table_db.sql_reliable_axioms, of 0 "''ann''" "''i1''" fmempty] v
    by (simp add: register_spec_def)
qed

text \<open>Reclaiming with a working database deletes exactly the rows last seen before the cutoff
  text and reports how many rows that were; when the statement fails it deletes nothing and
  reports zero.\<close>
lemma reclaim_exact:
  assumes "sql_engine exec tbl" "run_state (ReclaimInactive exec now days) d = (n, d')"
  shows "tbl d' = tbl d \<and> n = 0
    \<or> (\<forall>u. fmlookup (tbl d') u = (if older (rfc3339nano (add_days now (- days))) (tbl d) u then None else fmlookup (tbl d) u))
      \<and> n = int (fcard (fmdom (tbl d) |-| fmdom (tbl d')))"
  using sql_engine.ReclaimInactive_run [OF assms] by auto

theorem reclaim_exact_witness:
  "snd (run_state (ReclaimInactive broken_exec 0 90) fmempty) = fmempty"
proof -
  obtain n d' where r: "run_state (ReclaimInactive broken_exec 0 90) fmempty = (n, d')" by force
  from reclaim_exact [OF broken_db.sql_engine_axioms r] show ?thesis
    by (auto simp: r intro!: fmap_ext)
qed

lemma show_digits_nonzero: "0 < n \<Longrightarrow> \<exists>c \<in> set (show_digits n). c \<noteq> CHR ''0''"
proof (induction n rule: show_digits.induct)
  case (1 n)
  show ?case
  proof (cases "n < 10")
    case True
    with 1(2) consider "n = 1" | "n = 2" | "n = 3" | "n = 4" | "n = 5" | "n = 6" | "n = 7" | "n = 8" | "n = 9" by linarith
    then show ?thesis by cases (simp_all add: show_digits.simps char_of_def)
  next
    case False
    then show ?thesis using 1(1) by (simp add: show_digits.simps [of n])
  qed
qed

lemma frac_text_dot: "0 < d \<Longrightarrow> \<exists>ds. frac_text d = CHR ''.'' # ds"
proof -
  assume "0 < d"
  then obtain c where "c \<in> set (show_digits d)" "c \<noteq> CHR ''0''" using show_digits_nonzero by blast
  then have "dropWhile (\<lambda>c. c = CHR ''0'') (rev (pad_int 9 d)) \<noteq> []"
    using \<open>0 < d\<close> by (auto simp: dropWhile_eq_Nil_conv pad_int_def Let_def)
  then show ?thesis by (simp add: frac_text_def Let_def)
qed

text \<open>The text of an instant depends on its whole seconds up to the fraction.\<close>
lemma rfc3339nano_seconds:
  "rfc3339nano t = date_text (t div 10 ^ 9 div 86400) @ ''T'' @ clock_text (t div 10 ^ 9 mod 86400) @ frac_text (t mod 10 ^ 9) @ ''Z''"
proof -
  have "t div nanos_per_day = t div 10 ^ 9 div 86400"
    using zdiv_zmult2_eq [of 86400 t "10 ^ 9"] by (simp add: nanos_per_day_def)
  moreover have "t mod nanos_per_day div 1000000000 = t div 10 ^ 9 mod 86400"
    using zmod_zmult2_eq [of 86400 t "10 ^ 9"] by (simp add: nanos_per_day_def)
  ultimately show ?thesis by (simp add: rfc3339nano_def)
qed

lemma text_append_less: "xs @ ys < xs @ zs \<longleftrightarrow> ys < (zs :: string)"
  by (induction xs) simp_all

lemma later_text_smaller:
  assumes "c mod 10 ^ 9 = 0" "0 < d" "d < 10 ^ 9"
  shows "rfc3339nano (c + d) < rfc3339nano c"
proof -
  have q: "(c + d) div 10 ^ 9 = c div 10 ^ 9" "(c + d) mod 10 ^ 9 = d"
    using assms by (auto elim!: dvdE simp: mod_eq_0_iff_dvd)
  obtain ds where "frac_text d = CHR ''.'' # ds" using frac_text_dot [OF assms(2)] by blast
  moreover have "frac_text 0 = []" by code_simp
  ultimately show ?thesis
    using assms(1) q by (simp add: rfc3339nano_seconds [of "c + d"] rfc3339nano_seconds [of c] text_append_less less_char_def)
qed

text \<open>C40 Comparing the texts of two times is not comparing the times: a cutoff on a whole second has no fraction in
  its text, and every username last seen within the second after it, although later, is reclaimed.\<close>
theorem reclaims_too_early:
  assumes "sql_reliable exec tbl" "run_state (ReclaimInactive exec now days) db = (n, db')"
    and "add_days now (- days) mod 10 ^ 9 = 0" "0 < d" "d < 10 ^ 9"
    and "fmlookup (tbl db) u = Some r" "ur_last_seen_at r = rfc3339nano (add_days now (- days) + d)"
  shows "fmlookup (tbl db') u = None \<and> 1 \<le> n"
proof -
  define cutoff where "cutoff = rfc3339nano (add_days now (- days))"
  have old: "older cutoff (tbl db) u"
    using later_text_smaller [OF assms(3-5)] assms(6,7) by (simp add: older_def cutoff_def)
  obtain res where run: "exec (DeleteOlder cutoff) db = (Inr res, db')"
    and n: "n = (case rows_affected (Inr res) of None \<Rightarrow> 0 | Some n \<Rightarrow> n)"
    using sql_reliable.reliable [OF assms(1), of "DeleteOlder cutoff" db] assms(2)
    by (auto simp: ReclaimInactive_def db_exec_def cutoff_def Let_def)
  note e = sql_engine.exec_ok [OF sql_reliable.axioms(1) [OF assms(1)] run]
  have "u |\<in>| ffilter (older cutoff (tbl db)) (fmdom (tbl db))" using old assms(6) by (simp add: fmdomI)
  then have "0 < fcard (ffilter (older cutoff (tbl db)) (fmdom (tbl db)))"
    by (metis fcard_0_eq bot_nat_0.not_eq_extremum fempty_iff)
  then show ?thesis using e n old by (simp add: rows_affected_def)
qed

theorem reclaims_too_early_witness:
  "\<exists>n db'. run_state (ReclaimInactive table_exec (90 * nanos_per_day) 90) (fmap_of_list
       [(''ann'', \<lparr>ur_install_id = ''i1'', ur_registered_at = rfc3339nano 500000000, ur_last_seen_at = rfc3339nano 500000000\<rparr>)])
     = (n, db') \<and> fmlookup db' ''ann'' = None"
proof -
  define db where "db = fmap_of_list
    [(''ann'', \<lparr>ur_install_id = ''i1'', ur_registered_at = rfc3339nano 500000000, ur_last_seen_at = rfc3339nano 500000000\<rparr>)]"
  obtain n db' where r: "run_state (ReclaimInactive table_exec (90 * nanos_per_day) 90) db = (n, db')"
    by (rule prod.exhaust)
  have "fmlookup (id db) ''ann'' = Some \<lparr>ur_install_id = ''i1'', ur_registered_at = rfc3339nano 500000000, ur_last_seen_at = rfc3339nano 500000000\<rparr>"
    by (simp add: db_def)
  from reclaims_too_early [OF table_db.sql_reliable_axioms r _ _ _ this, of 500000000] r
  show ?thesis by (auto simp: add_days_def db_def)
qed

end
