(* ===== verification/Redis.thy ===== *)
theory Redis
  imports Relay_Prelude "HOL-Library.State_Monad" "HOL-Library.FSet"
begin

text \<open>
  The Redis service as the relay sees it, and \<open>internal/redis/redis.go\<close>.

  Redis is not part of the repository. The model takes it as a parameter: a record \<open>'r redis\<close>
  with what the server does on one command (\<open>rd_call\<close>) and what the network does to one round
  trip (\<open>rd_net\<close>), over an opaque state \<open>'r\<close> of the service. What the relay relies on is
  the documented behaviour of the commands, stated as the locale \<open>redis_server\<close> over a
  \<open>view\<close> of the service's state as a key space; between two round trips keys with a time to
  live may have expired, and a request or its reply may be lost.
\<close>

section \<open>Commands and replies\<close>

text \<open>The commands the relay sends. Times to live are in seconds. The scores and the members of
  the sorted sets are the integral doubles of the rate limiter.\<close>
datatype redis_cmd =
    GET string
  | SETEX string string int
  | DEL string
  | EXISTS string
  | EXPIRE string int
  | SADD string "string list"
  | SREM string "string list"
  | SCARD string
  | SMEMBERS string
  | RPUSH string string
  | LTRIM string int int
  | LRANGE string int int
  | ZADD string int int
  | ZREMRANGEBYSCORE string int
  | ZREM string int
  | ZCARD string
  | PING

datatype redis_reply = RNil | ROk | RText string | RInt int | RList "string list"

text \<open>What happens to a round trip: it completes, or the client sees an error because the
  request never arrived, or because the reply to an executed request got lost.\<close>
datatype delivery = Delivered | RequestLost | ReplyLost

record 'r redis =
  rd_call :: "redis_cmd \<Rightarrow> 'r \<Rightarrow> redis_reply \<times> 'r"
  rd_net :: "'r \<Rightarrow> delivery \<times> 'r"

text \<open>One command executed by the server; a Lua script is a sequence of them.\<close>
definition call :: "'r redis \<Rightarrow> redis_cmd \<Rightarrow> ('r, redis_reply) state" where
  "call R c = State (rd_call R c)"

text \<open>One round trip of the client: a single command, a pipeline or a script. \<open>None\<close> is the
  error the client library returns.\<close>
definition round_trip :: "'r redis \<Rightarrow> ('r, 'a) state \<Rightarrow> ('r, 'a option) state" where
  "round_trip R body =
     State (\<lambda>s. case rd_net R s of
        (Delivered, s1) \<Rightarrow> (case run_state body s1 of (a, s2) \<Rightarrow> (Some a, s2))
      | (RequestLost, s1) \<Rightarrow> (None, s1)
      | (ReplyLost, s1) \<Rightarrow> (None, snd (run_state body s1)))"

section \<open>The key space\<close>

record keyspace =
  strs :: "string \<rightharpoonup> string"
  sets :: "string \<Rightarrow> string fset"
  lists :: "string \<Rightarrow> string list"
  zsets :: "string \<Rightarrow> (int \<rightharpoonup> int)"

definition empty_keyspace :: keyspace where
  "empty_keyspace = \<lparr>strs = Map.empty, sets = (\<lambda>_. {||}), lists = (\<lambda>_. []), zsets = (\<lambda>_. Map.empty)\<rparr>"

text \<open>The part of a list between two indices, negative ones counting from the end, both ends
  included and clipped to the list.\<close>
definition list_range :: "int \<Rightarrow> int \<Rightarrow> 'a list \<Rightarrow> 'a list" where
  "list_range start stop xs =
     (let n = int (length xs);
          a = max 0 (if start < 0 then n + start else start);
          b = (if stop < 0 then n + stop else stop)
      in if a > b then [] else take (nat (b - a + 1)) (drop (nat a) xs))"

definition zset_trim :: "int \<Rightarrow> (int \<rightharpoonup> int) \<Rightarrow> (int \<rightharpoonup> int)" where
  "zset_trim hi z = (\<lambda>m. case z m of None \<Rightarrow> None | Some sc \<Rightarrow> if sc \<le> hi then None else Some sc)"

text \<open>What each command does to the keys. Expiry is not an effect of a command: \<open>EXPIRE\<close> and
  the time to live of \<open>SETEX\<close> only allow keys to disappear later.\<close>
fun cmd_effect :: "redis_cmd \<Rightarrow> keyspace \<Rightarrow> keyspace" where
  "cmd_effect (SETEX k v ttl) s = s\<lparr>strs := (strs s)(k \<mapsto> v)\<rparr>"
| "cmd_effect (DEL k) s =
     s\<lparr>strs := map_delete (strs s) k, sets := (sets s)(k := {||}), lists := (lists s)(k := []),
       zsets := (zsets s)(k := Map.empty)\<rparr>"
| "cmd_effect (SADD k xs) s = s\<lparr>sets := (sets s)(k := sets s k |\<union>| fset_of_list xs)\<rparr>"
| "cmd_effect (SREM k xs) s = s\<lparr>sets := (sets s)(k := sets s k |-| fset_of_list xs)\<rparr>"
| "cmd_effect (RPUSH k v) s = s\<lparr>lists := (lists s)(k := lists s k @ [v])\<rparr>"
| "cmd_effect (LTRIM k a b) s = s\<lparr>lists := (lists s)(k := list_range a b (lists s k))\<rparr>"
| "cmd_effect (ZADD k sc m) s = s\<lparr>zsets := (zsets s)(k := (zsets s k)(m \<mapsto> sc))\<rparr>"
| "cmd_effect (ZREMRANGEBYSCORE k hi) s = s\<lparr>zsets := (zsets s)(k := zset_trim hi (zsets s k))\<rparr>"
| "cmd_effect (ZREM k m) s = s\<lparr>zsets := (zsets s)(k := map_delete (zsets s k) m)\<rparr>"
| "cmd_effect _ s = s"

text \<open>What each command answers, for the commands whose answer the relay looks at.\<close>
fun cmd_answer :: "redis_cmd \<Rightarrow> keyspace \<Rightarrow> redis_reply \<Rightarrow> bool" where
  "cmd_answer (GET k) s r = (r = (case strs s k of None \<Rightarrow> RNil | Some v \<Rightarrow> RText v))"
| "cmd_answer (EXISTS k) s r = (r = RInt (if strs s k = None then 0 else 1))"
| "cmd_answer (SCARD k) s r = (r = RInt (int (fcard (sets s k))))"
| "cmd_answer (SMEMBERS k) s r = (\<exists>xs. r = RList xs \<and> fset_of_list xs = sets s k \<and> distinct xs)"
| "cmd_answer (LRANGE k a b) s r = (r = RList (list_range a b (lists s k)))"
| "cmd_answer (ZCARD k) s r = (r = RInt (int (card (dom (zsets s k)))))"
| "cmd_answer _ s r = True"

text \<open>Keys may be gone later. Every string, list and sorted set the relay writes carries a time to live, the two
  sets of names carry none. When a key goes is left open: a theorem over \<open>redis_server\<close> holds whatever expires
  and whenever, and so for the times to live of the code; how long a key lives is in \<open>redis_timed\<close>.\<close>
definition expired :: "keyspace \<Rightarrow> keyspace \<Rightarrow> bool" where
  "expired s t \<longleftrightarrow>
     (\<forall>k. strs t k = strs s k \<or> strs t k = None) \<and> sets t = sets s
     \<and> (\<forall>k. lists t k = lists s k \<or> lists t k = [])
     \<and> (\<forall>k. zsets t k = zsets s k \<or> zsets t k = Map.empty)"

lemma expired_refl [simp]: "expired s s"
  by (simp add: expired_def)

section \<open>What the relay relies on\<close>

locale redis_server =
  fixes R :: "'r redis" and view :: "'r \<Rightarrow> keyspace"
  assumes call_effect: "view (snd (rd_call R c s)) = cmd_effect c (view s)"
    and call_answer: "cmd_answer c (view s) (fst (rd_call R c s))"
    and net_expires: "expired (view s) (view (snd (rd_net R s)))"
begin

lemma view_call: "view (snd (run_state (call R c) s)) = cmd_effect c (view s)"
  by (simp add: call_def call_effect)

lemma answer_call: "cmd_answer c (view s) (fst (run_state (call R c) s))"
  by (simp add: call_def call_answer)

text \<open>A round trip either runs its body on what is left of the key space or does nothing to it.\<close>
lemma round_trip_cases:
  assumes "run_state (round_trip R body) s = (r, s')"
  shows "\<exists>s1. expired (view s) (view s1)
     \<and> (r = Some (fst (run_state body s1)) \<and> s' = snd (run_state body s1)
        \<or> r = None \<and> (s' = s1 \<or> s' = snd (run_state body s1)))"
proof -
  obtain d s1 where n: "rd_net R s = (d, s1)" by (cases "rd_net R s")
  then have "expired (view s) (view s1)" using net_expires [of s] by simp
  with assms n show ?thesis
    by (cases d) (auto simp: round_trip_def split: prod.splits intro!: exI [of _ s1])
qed

end

text \<open>A stretch of time in which every round trip completes and nothing expires.\<close>
locale redis_calm = redis_server +
  assumes delivered: "fst (rd_net R s) = Delivered"
    and still: "view (snd (rd_net R s)) = view s"
begin

lemma round_trip_calm:
  "\<exists>s1. view s1 = view s \<and> run_state (round_trip R body) s
      = (Some (fst (run_state body s1)), snd (run_state body s1))"
proof -
  obtain d s1 where n: "rd_net R s = (d, s1)" by (cases "rd_net R s")
  then have "d = Delivered" "view s1 = view s" using delivered [of s] still [of s] by auto
  with n show ?thesis by (auto simp: round_trip_def split: prod.splits intro!: exI [of _ s1])
qed

end

section \<open>Times to live\<close>

definition key_exists :: "keyspace \<Rightarrow> string \<Rightarrow> bool" where
  "key_exists s k \<longleftrightarrow> strs s k \<noteq> None \<or> sets s k \<noteq> {||} \<or> lists s k \<noteq> [] \<or> zsets s k \<noteq> Map.empty"

text \<open>When each key is to be dropped, after a command at the time \<open>now\<close>; times are in milliseconds.\<close>
fun cmd_deadline :: "redis_cmd \<Rightarrow> keyspace \<Rightarrow> int \<Rightarrow> (string \<rightharpoonup> int) \<Rightarrow> (string \<rightharpoonup> int)" where
  "cmd_deadline (SETEX k v ttl) s now d = d(k \<mapsto> now + 1000 * ttl)"
| "cmd_deadline (EXPIRE k ttl) s now d = (if key_exists s k then d(k \<mapsto> now + 1000 * ttl) else d)"
| "cmd_deadline (DEL k) s now d = map_delete d k"
| "cmd_deadline _ s now d = d"

text \<open>A service whose round trips complete, with its clock: a string is there until its deadline, and no longer.\<close>
locale redis_timed = redis_server R view for R :: "'r redis" and view +
  fixes clock :: "'r \<Rightarrow> int" and deadline :: "'r \<Rightarrow> string \<Rightarrow> int option"
  assumes arrives: "fst (rd_net R s) = Delivered"
    and call_clock: "clock (snd (rd_call R c s)) = clock s"
    and call_deadline: "deadline (snd (rd_call R c s)) = cmd_deadline c (view s) (clock s) (deadline s)"
    and net_strs: "strs (view (snd (rd_net R s))) k =
      (case deadline s k of Some d \<Rightarrow> if d \<le> clock (snd (rd_net R s)) then None else strs (view s) k | None \<Rightarrow> strs (view s) k)"
begin

lemma round_trip_arrives:
  "run_state (round_trip R body) s = (Some (fst (run_state body (snd (rd_net R s)))), snd (run_state body (snd (rd_net R s))))"
  using arrives [of s] by (cases "rd_net R s") (simp add: round_trip_def split_def)

lemma timed_call:
  "clock (snd (run_state (call R c) s)) = clock s"
  "deadline (snd (run_state (call R c) s)) = cmd_deadline c (view s) (clock s) (deadline s)"
  by (simp_all add: call_def call_clock call_deadline)

end

section \<open>A service that keeps the promise\<close>

text \<open>The key space itself as the service: it shows that the assumptions can hold, and concrete
  runs are evaluated on it.\<close>
fun ks_reply :: "redis_cmd \<Rightarrow> keyspace \<Rightarrow> redis_reply" where
  "ks_reply (GET k) s = (case strs s k of None \<Rightarrow> RNil | Some v \<Rightarrow> RText v)"
| "ks_reply (EXISTS k) s = RInt (if strs s k = None then 0 else 1)"
| "ks_reply (SCARD k) s = RInt (int (fcard (sets s k)))"
| "ks_reply (SMEMBERS k) s =
     RList (sorted_list_of_fset (sets s k))"
| "ks_reply (LRANGE k a b) s = RList (list_range a b (lists s k))"
| "ks_reply (ZCARD k) s = RInt (int (card (dom (zsets s k))))"
| "ks_reply _ s = ROk"

definition ks_redis :: "keyspace redis" where
  "ks_redis = \<lparr>rd_call = (\<lambda>c s. (ks_reply c s, cmd_effect c s)), rd_net = (\<lambda>s. (Delivered, s))\<rparr>"

lemma ks_reply_answers: "cmd_answer c s (ks_reply c s)"
  by (cases c) (auto simp: sorted_list_of_fset_simps sorted_list_of_fset.rep_eq fset_of_list.rep_eq fset_inject [symmetric])

interpretation ks: redis_calm ks_redis id
  by unfold_locales (simp_all add: ks_redis_def ks_reply_answers)

text \<open>A service that is down: every request is lost. The relay's code has to cope with it too.\<close>
definition down_redis :: "keyspace redis" where
  "down_redis = ks_redis\<lparr>rd_net := (\<lambda>s. (RequestLost, s))\<rparr>"

interpretation down: redis_server down_redis id
  by unfold_locales (simp_all add: down_redis_def ks_redis_def ks_reply_answers)

text \<open>A service with a clock that advances by the next of a list of delays at every round trip.\<close>
record timed =
  td_keys :: keyspace
  td_now :: int
  td_deadline :: "string \<rightharpoonup> int"
  td_delays :: "nat list"

definition due :: "timed \<Rightarrow> string \<Rightarrow> bool" where
  "due s k = (case td_deadline s k of None \<Rightarrow> False | Some d \<Rightarrow> d \<le> td_now s)"

definition td_drop :: "timed \<Rightarrow> timed" where
  "td_drop s = s\<lparr>td_keys := (td_keys s)\<lparr>strs := (\<lambda>k. if due s k then None else strs (td_keys s) k),
     lists := (\<lambda>k. if due s k then [] else lists (td_keys s) k),
     zsets := (\<lambda>k. if due s k then Map.empty else zsets (td_keys s) k)\<rparr>\<rparr>"

definition td_redis :: "timed redis" where
  "td_redis = \<lparr>rd_call = (\<lambda>c s. (ks_reply c (td_keys s), s\<lparr>td_keys := cmd_effect c (td_keys s),
       td_deadline := cmd_deadline c (td_keys s) (td_now s) (td_deadline s)\<rparr>)),
     rd_net = (\<lambda>s. (Delivered, td_drop (s\<lparr>td_now := td_now s + (case td_delays s of [] \<Rightarrow> 0 | d # ds \<Rightarrow> int d),
       td_delays := tl (td_delays s)\<rparr>)))\<rparr>"

interpretation td: redis_timed td_redis td_keys td_now td_deadline
  by unfold_locales
    (auto simp: td_redis_def ks_reply_answers expired_def td_drop_def due_def split: option.splits list.splits)

section \<open>The client wrapper\<close>

record redis_options =
  ro_Addr :: string
  ro_Password :: string
  ro_DB :: int

datatype redis_error = URLRequired | PingFailed

text \<open>\<open>New\<close>: a URL the client library can parse decides the options, anything else is taken as
  \<open>host:port\<close>; then the server must answer a \<open>PING\<close>. \<open>parseURL\<close> and \<open>newClient\<close> are the client
  library's.\<close>
definition redis_New ::
  "(string \<Rightarrow> redis_options option) \<Rightarrow> (redis_options \<Rightarrow> 'r redis) \<Rightarrow> string \<Rightarrow> string \<Rightarrow> int
     \<Rightarrow> ('r, redis_error + 'r redis) state" where
  "redis_New parseURL newClient url password db =
     (if url = [] then State_Monad.return (Inl URLRequired)
      else let opts = (case parseURL url of
                         Some o' \<Rightarrow> o'
                       | None \<Rightarrow> \<lparr>ro_Addr = url, ro_Password = password, ro_DB = db\<rparr>);
               rdb = newClient opts
           in do {
             pong \<leftarrow> round_trip rdb (call rdb PING);
             State_Monad.return (case pong of None \<Rightarrow> Inl PingFailed | Some _ \<Rightarrow> Inr rdb)
           })"

definition redis_Ping :: "'r redis \<Rightarrow> ('r, bool) state" where
  "redis_Ping rdb = do {
     pong \<leftarrow> round_trip rdb (call rdb PING);
     State_Monad.return (pong \<noteq> None)
   }"

lemma redis_New_down:
  "url \<noteq> [] \<Longrightarrow> run_state (redis_New parse (\<lambda>_. down_redis) url pw db) s = (Inl PingFailed, s)"
  by (simp add: redis_New_def round_trip_def down_redis_def)

lemma redis_New_up:
  "url \<noteq> [] \<Longrightarrow> run_state (redis_New parse (\<lambda>_. ks_redis) url pw db) s = (Inr ks_redis, s)"
  by (simp add: redis_New_def round_trip_def ks_redis_def call_def)

end
