(* ===== verification/Ratelimit.thy ===== *)
theory Ratelimit
  imports Redis
begin

text \<open>
  \<open>internal/ratelimit/ratelimit.go\<close>: sliding-window rate limits, kept in a Redis sorted set
  when there is a Redis client and in memory otherwise or when Redis fails. Times are
  nanoseconds since the epoch; \<open>time.Now()\<close> is an argument of every operation that reads it.
\<close>

section \<open>State\<close>

type_synonym windows = "string \<rightharpoonup> int list"

record 'r limiter =
  rdb :: "'r redis option"
  connPerMin :: int
  msgPerSec :: int
  connWindows :: windows
  msgWindows :: windows

definition second :: int where
  "second = 1000000000"

definition minute :: int where
  "minute = 60 * second"

definition NewLimiter :: "'r redis option \<Rightarrow> int \<Rightarrow> int \<Rightarrow> 'r limiter" where
  "NewLimiter r cpm mps =
     \<lparr>rdb = r, connPerMin = cpm, msgPerSec = mps, connWindows = Map.empty, msgWindows = Map.empty\<rparr>"

section \<open>The in-memory window\<close>

text \<open>
  \<open>valid := entries[:0]\<close> shares the array of \<open>entries\<close>, and the loop appends the entries
  that are still valid to it while it reads the same array: \<open>a\<close> is the array, \<open>i\<close> the entry
  being read, \<open>k\<close> the length of \<open>valid\<close>.
\<close>
function compact :: "int \<Rightarrow> nat \<Rightarrow> nat \<Rightarrow> int list \<Rightarrow> int list \<times> nat" where
  "compact cutoff i k a =
     (if i < length a
      then (if a ! i > cutoff then compact cutoff (i + 1) (k + 1) (a[k := a ! i])
            else compact cutoff (i + 1) k a)
      else (a, k))"
  by pat_completeness auto
termination
  by (relation "measure (\<lambda>(cutoff, i, k, a). length a - i)") auto

declare compact.simps [simp del]

definition valid_entries :: "int \<Rightarrow> int list \<Rightarrow> int list" where
  "valid_entries cutoff entries = (case compact cutoff 0 0 entries of (a, k) \<Rightarrow> take k a)"

text \<open>\<open>now\<close> is read before the lock is taken, so requests may come to the lock with readings that go back.\<close>
definition memAllow :: "windows \<Rightarrow> string \<Rightarrow> int \<Rightarrow> int \<Rightarrow> int \<Rightarrow> bool \<times> windows" where
  "memAllow w key limit window now =
     (let cutoff = now - window;
          entries = (case w key of None \<Rightarrow> [] | Some es \<Rightarrow> es);
          valid = valid_entries cutoff entries
      in if int (length valid) \<ge> limit then (False, w(key \<mapsto> valid))
         else (True, w(key \<mapsto> valid @ [now])))"

text \<open>\<open>cleanMap\<close>, over the keys in the order the runtime ranges over them.\<close>
definition clean_key :: "int \<Rightarrow> windows \<Rightarrow> string \<Rightarrow> windows" where
  "clean_key cutoff m key =
     (case m key of
        None \<Rightarrow> m
      | Some entries \<Rightarrow>
          (let valid = valid_entries cutoff entries
           in if length valid = 0 then map_delete m key else m(key \<mapsto> valid)))"

definition cleanMap :: "string list \<Rightarrow> windows \<Rightarrow> int \<Rightarrow> int \<Rightarrow> windows" where
  "cleanMap keys m now maxAge = foldl (clean_key (now - maxAge)) m keys"

text \<open>One tick of the cleanup goroutine, under the limiter's lock.\<close>
definition cleanup :: "(string set \<Rightarrow> string list) \<Rightarrow> int \<Rightarrow> 'r limiter \<Rightarrow> 'r limiter" where
  "cleanup order now l =
     l\<lparr>connWindows := cleanMap (order (dom (connWindows l))) (connWindows l) now (2 * minute),
       msgWindows := cleanMap (order (dom (msgWindows l))) (msgWindows l) now (2 * second)\<rparr>"

section \<open>The window in Redis\<close>

text \<open>\<open>float64(n)\<close> for an integer: rounded to 53 significant bits, ties to even.\<close>
function f64_shift :: "int \<Rightarrow> nat" where
  "f64_shift m = (if m < 2 ^ 53 then 0 else Suc (f64_shift (m div 2)))"
  by pat_completeness auto
termination
  by (relation "measure nat") auto

declare f64_shift.simps [simp del]

definition f64_abs :: "int \<Rightarrow> int" where
  "f64_abs m =
     (let e = f64_shift m in
      if e = 0 then m
      else let q = m div 2 ^ e; r = m mod 2 ^ e; half = 2 ^ (e - 1)
           in (if r > half \<or> r = half \<and> odd q then q + 1 else q) * 2 ^ e)"

definition f64 :: "int \<Rightarrow> int" where
  "f64 n = (if n < 0 then - f64_abs (- n) else f64_abs n)"

text \<open>\<open>None\<close> is the error of the pipeline. The four commands travel in one pipeline, the removal
  of a refused entry is a round trip of its own whose error is ignored.\<close>
definition redisAllow :: "'r redis \<Rightarrow> string \<Rightarrow> int \<Rightarrow> int \<Rightarrow> int \<Rightarrow> ('r, bool option) state" where
  "redisAllow R key limit window now = do {
     let nowNano = f64 now;
     let cutoff = f64 (now - window);
     card \<leftarrow> round_trip R (do {
       _ \<leftarrow> call R (ZREMRANGEBYSCORE key cutoff);
       _ \<leftarrow> call R (ZADD key nowNano nowNano);
       n \<leftarrow> call R (ZCARD key);
       _ \<leftarrow> call R (EXPIRE key (2 * window div second));
       State_Monad.return (case n of RInt i \<Rightarrow> i | _ \<Rightarrow> 0)
     });
     case card of
       None \<Rightarrow> State_Monad.return None
     | Some count \<Rightarrow>
         if count > limit then do {
           _ \<leftarrow> round_trip R (call R (ZREM key nowNano));
           State_Monad.return (Some False)
         }
         else State_Monad.return (Some True)
   }"

section \<open>The two limits\<close>

text \<open>\<open>nowR\<close> and \<open>nowM\<close> are the two readings of the clock, in \<open>redisAllow\<close> and in
  \<open>memAllow\<close>.\<close>
definition AllowConnection ::
  "int \<Rightarrow> int \<Rightarrow> string \<Rightarrow> 'r limiter \<Rightarrow> 'r \<Rightarrow> bool \<times> 'r limiter \<times> 'r" where
  "AllowConnection nowR nowM ip l s =
     (if connPerMin l \<le> 0 then (True, l, s)
      else
        let mem = (\<lambda>s'. case memAllow (connWindows l) ip (connPerMin l) minute nowM of
                     (ok, w) \<Rightarrow> (ok, l\<lparr>connWindows := w\<rparr>, s'))
        in case rdb l of
             None \<Rightarrow> mem s
           | Some R \<Rightarrow>
               (case run_state (redisAllow R (''relay:ratelimit:conn:'' @ ip) (connPerMin l) minute nowR) s of
                  (Some allowed, s') \<Rightarrow> (allowed, l, s')
                | (None, s') \<Rightarrow> mem s'))"

definition AllowMessage ::
  "int \<Rightarrow> int \<Rightarrow> string \<Rightarrow> 'r limiter \<Rightarrow> 'r \<Rightarrow> bool \<times> 'r limiter \<times> 'r" where
  "AllowMessage nowR nowM pairID l s =
     (if msgPerSec l \<le> 0 then (True, l, s)
      else
        let mem = (\<lambda>s'. case memAllow (msgWindows l) pairID (msgPerSec l) second nowM of
                     (ok, w) \<Rightarrow> (ok, l\<lparr>msgWindows := w\<rparr>, s'))
        in case rdb l of
             None \<Rightarrow> mem s
           | Some R \<Rightarrow>
               (case run_state (redisAllow R (''relay:ratelimit:msg:'' @ pairID) (msgPerSec l) second nowR) s of
                  (Some allowed, s') \<Rightarrow> (allowed, l, s')
                | (None, s') \<Rightarrow> mem s'))"

section \<open>The in-place loop is a filter\<close>

lemma compact_filter:
  "\<lbrakk>k \<le> i; i \<le> length a\<rbrakk> \<Longrightarrow>
     (case compact c i k a of (a', k') \<Rightarrow> take k' a' = take k a @ filter (\<lambda>t. t > c) (drop i a) \<and> k' \<le> length a')"
proof (induction c i k a rule: compact.induct)
  case (1 c i k a)
  show ?case
  proof (cases "i < length a")
    case False
    with 1 show ?thesis by (auto simp: compact.simps [of c _ k a])
  next
    case True
    then have d: "drop i a = a ! i # drop (Suc i) a" by (simp add: Cons_nth_drop_Suc)
    show ?thesis
    proof (cases "a ! i > c")
      case True
      have "take (k + 1) (a[k := a ! i]) = take k a @ [a ! i]"
        using \<open>i < length a\<close> 1(3) by (simp add: take_Suc_conv_app_nth)
      then show ?thesis
        using "1.IH"(1) [OF \<open>i < length a\<close> True] 1(3) \<open>i < length a\<close> True d
        by (simp add: compact.simps [of c i k a])
    next
      case False
      then show ?thesis
        using "1.IH"(2) [OF \<open>i < length a\<close> False] 1(3) \<open>i < length a\<close> d
        by (simp add: compact.simps [of c i k a])
    qed
  qed
qed

lemma valid_entries_filter: "valid_entries c es = filter (\<lambda>t. t > c) es"
  using compact_filter [of 0 0 es c] by (simp add: valid_entries_def split: prod.splits)

definition entries_of :: "windows \<Rightarrow> string \<Rightarrow> int list" where
  "entries_of w key = (case w key of None \<Rightarrow> [] | Some es \<Rightarrow> es)"

lemma memAllow_spec:
  "memAllow w key limit window now =
     (let valid = filter (\<lambda>t. t > now - window) (entries_of w key)
      in if int (length valid) \<ge> limit then (False, w(key \<mapsto> valid)) else (True, w(key \<mapsto> valid @ [now])))"
  by (simp add: memAllow_def valid_entries_filter entries_of_def)

lemma memAllow_other: "memAllow w key limit window now = (ok, w') \<Longrightarrow> k \<noteq> key \<Longrightarrow> w' k = w k"
  by (auto simp: memAllow_spec Let_def split: if_splits)

lemma clean_key_apply:
  "clean_key c m key k =
     (if k = key then (case m key of None \<Rightarrow> None
        | Some es \<Rightarrow> let v = filter (\<lambda>t. t > c) es in if v = [] then None else Some v) else m k)"
  by (auto simp: clean_key_def valid_entries_filter Let_def split: option.split)

lemma foldl_clean_key:
  "distinct keys \<Longrightarrow> foldl (clean_key c) m keys k =
     (if k \<in> set keys then clean_key c m k k else m k)"
  by (induction keys arbitrary: m) (auto simp: clean_key_apply)

text \<open>The order in which the runtime walks the map does not matter.\<close>
lemma cleanMap_apply:
  assumes "set keys = dom m" "distinct keys"
  shows "cleanMap keys m now maxAge k =
    (case m k of None \<Rightarrow> None
     | Some es \<Rightarrow> let v = filter (\<lambda>t. t > now - maxAge) es in if v = [] then None else Some v)"
  using assms foldl_clean_key [of keys "now - maxAge" m k]
  by (auto simp: cleanMap_def clean_key_apply domIff split: option.splits)

lemma cleanMap_entries:
  assumes "set keys = dom m" "distinct keys"
  shows "entries_of (cleanMap keys m now maxAge) k = filter (\<lambda>t. t > now - maxAge) (entries_of m k)"
  using assms by (auto simp: entries_of_def cleanMap_apply Let_def split: option.splits)

section \<open>Runs of the in-memory limiter\<close>

text \<open>Requests against either limit, with the reading of the clock they carry, and ticks of the cleanup
  goroutine, in the order in which they hold the lock.\<close>
datatype limit_kind = ConnLimit | MsgLimit

datatype rl_event = Ask limit_kind string int | Clean int

primrec event_time :: "rl_event \<Rightarrow> int" where
  "event_time (Ask k key t) = t"
| "event_time (Clean t) = t"

fun allow :: "limit_kind \<Rightarrow> int \<Rightarrow> string \<Rightarrow> 'r limiter \<Rightarrow> 'r \<Rightarrow> bool \<times> 'r limiter \<times> 'r" where
  "allow ConnLimit t key l s = AllowConnection t t key l s"
| "allow MsgLimit t key l s = AllowMessage t t key l s"

type_synonym rl_log = "((limit_kind \<times> string) \<times> int) list"

text \<open>What the limiter admits, in order.\<close>
fun limiter_run :: "(string set \<Rightarrow> string list) \<Rightarrow> rl_event list \<Rightarrow> 'r limiter \<Rightarrow> 'r \<Rightarrow> rl_log" where
  "limiter_run order [] l s = []"
| "limiter_run order (Ask k key t # es) l s =
     (case allow k t key l s of
        (ok, l', s') \<Rightarrow> (if ok then [((k, key), t)] else []) @ limiter_run order es l' s')"
| "limiter_run order (Clean t # es) l s = limiter_run order es (cleanup order t l) s"

section \<open>The specification\<close>

text \<open>It remembers every admitted request for ever, and admits one exactly when there is no limit or fewer than
  that many requests of the same key were admitted in the minute, or the second, before it.\<close>
fun span :: "limit_kind \<Rightarrow> int" where
  "span ConnLimit = 60 * 10 ^ 9"
| "span MsgLimit = 10 ^ 9"

fun limit_for :: "int \<Rightarrow> int \<Rightarrow> limit_kind \<Rightarrow> int" where
  "limit_for cpm mps ConnLimit = cpm"
| "limit_for cpm mps MsgLimit = mps"

definition recent :: "limit_kind \<times> string \<Rightarrow> int \<Rightarrow> rl_log \<Rightarrow> int list" where
  "recent k c lg = filter (\<lambda>t. t > c) (map snd (filter (\<lambda>e. fst e = k) lg))"

fun ideal_run :: "(limit_kind \<Rightarrow> int) \<Rightarrow> rl_log \<Rightarrow> rl_event list \<Rightarrow> rl_log" where
  "ideal_run lim lg [] = lg"
| "ideal_run lim lg (Ask k key t # es) =
     ideal_run lim (if lim k \<le> 0 \<or> int (length (recent (k, key) (t - span k) lg)) < lim k then lg @ [((k, key), t)] else lg) es"
| "ideal_run lim lg (Clean t # es) = ideal_run lim lg es"

definition in_window :: "limit_kind \<times> string \<Rightarrow> int \<Rightarrow> int \<Rightarrow> rl_log \<Rightarrow> int list" where
  "in_window k lo hi lg = filter (\<lambda>t. t \<le> hi) (recent k lo lg)"

lemma finite_dom_memAllow:
  "memAllow w key limit window now = (ok, w') \<Longrightarrow> finite (dom w) \<Longrightarrow> finite (dom w')"
  by (auto simp: memAllow_spec Let_def split: if_splits)

lemma memAllow_windows:
  "memAllow w key limit window now = (ok, w') \<Longrightarrow>
     w' = w(key \<mapsto> filter (\<lambda>t. t > now - window) (entries_of w key) @ (if ok then [now] else []))"
  by (auto simp: memAllow_spec Let_def split: if_splits)

lemma filter_later: "c \<le> c' \<Longrightarrow> filter (\<lambda>t. t > (c'::int)) xs = filter (\<lambda>t. t > c') (filter (\<lambda>t. t > c) xs)"
  by (auto intro: filter_cong)

lemma recent_snoc: "recent k c (lg @ [(k', t)]) = (if k' = k \<and> t > c then recent k c lg @ [t] else recent k c lg)"
  by (auto simp: recent_def)

lemma recent_filter [simp]: "filter ((<) c) (recent k c lg) = recent k c lg"
  by (simp add: recent_def)

lemma entries_of_upd: "entries_of (w(k \<mapsto> es)) j = (if j = k then es else entries_of w j)"
  by (simp add: entries_of_def)

section \<open>The windows represent the log\<close>

fun windows_of :: "'r limiter \<Rightarrow> limit_kind \<Rightarrow> windows" where
  "windows_of l ConnLimit = connWindows l"
| "windows_of l MsgLimit = msgWindows l"

definition limits_of :: "'r limiter \<Rightarrow> limit_kind \<Rightarrow> int" where
  "limits_of l = limit_for (connPerMin l) (msgPerSec l)"

text \<open>\<open>S\<close> is the latest reading so far: what is younger than a window before \<open>S\<close> has not been dropped.\<close>
definition represents :: "int \<Rightarrow> 'r limiter \<Rightarrow> rl_log \<Rightarrow> bool" where
  "represents S l lg \<longleftrightarrow> rdb l = None \<and> (\<forall>k. finite (dom (windows_of l k)))
     \<and> (\<forall>k key c. 0 < limits_of l k \<longrightarrow> S - span k \<le> c \<longrightarrow>
          filter (\<lambda>x. x > c) (entries_of (windows_of l k) key) = recent (k, key) c lg)"

lemma representsD:
  assumes "represents S l lg"
  shows "rdb l = None" "finite (dom (windows_of l k))"
    "0 < limits_of l k \<Longrightarrow> S - span k \<le> c \<Longrightarrow> filter (\<lambda>x. x > c) (entries_of (windows_of l k) key) = recent (k, key) c lg"
  using assms by (auto simp: represents_def)

lemma represents_new: "represents S (NewLimiter None cpm mps) []"
proof -
  define l :: "'a limiter" where "l = NewLimiter None cpm mps"
  have "windows_of l k = Map.empty" for k by (cases k) (simp_all add: l_def NewLimiter_def)
  moreover have "rdb l = None" by (simp add: l_def NewLimiter_def)
  ultimately show ?thesis by (simp add: represents_def recent_def entries_of_def flip: l_def)
qed

lemma allow_memory:
  assumes "rdb l = None" "allow k t key l s = (ok, l', s')"
  shows "s' = s" "rdb l' = None" "limits_of l' = limits_of l"
    "limits_of l k \<le> 0 \<Longrightarrow> ok \<and> l' = l"
    "0 < limits_of l k \<Longrightarrow> memAllow (windows_of l k) key (limits_of l k) (span k) t = (ok, windows_of l' k)"
    "j \<noteq> k \<Longrightarrow> windows_of l' j = windows_of l j"
  using assms
  by (cases k; cases j; auto simp: AllowConnection_def AllowMessage_def limits_of_def minute_def second_def split: prod.splits if_splits)+

lemma represents_ask:
  assumes r: "represents S l lg" and t: "allow k t key l s = (ok, l', s')"
  shows "represents (max S t) l' (if ok then lg @ [((k, key), t)] else lg)"
proof -
  note m = allow_memory [OF representsD(1) [OF r] t]
  have fin: "finite (dom (windows_of l' j))" for j
  proof (cases "j = k \<and> 0 < limits_of l k")
    case True
    with m(5) have "memAllow (windows_of l j) key (limits_of l k) (span k) t = (ok, windows_of l' j)" by simp
    then show ?thesis using representsD(2) [OF r] by (rule finite_dom_memAllow)
  next
    case False
    then show ?thesis using m(4) m(6) [of j] representsD(2) [OF r] by (cases "j = k") (auto simp: not_less)
  qed
  have "filter (\<lambda>x. x > c) (entries_of (windows_of l' j) i) = recent (j, i) c (if ok then lg @ [((k, key), t)] else lg)"
    if lim: "0 < limits_of l j" and c: "max S t - span j \<le> c" for j i c
  proof -
    have old: "filter (\<lambda>x. x > c) (entries_of (windows_of l j) i) = recent (j, i) c lg"
      using representsD(3) [OF r lim] c by simp
    show ?thesis
    proof (cases "j = k")
      case False
      with old m(6) show ?thesis by (simp add: recent_snoc)
    next
      case True
      with lim m(5) have a: "memAllow (windows_of l k) key (limits_of l k) (span k) t = (ok, windows_of l' k)" by simp
      have "filter (\<lambda>x. x > c) (filter (\<lambda>x. x > t - span k) (entries_of (windows_of l k) i)) = recent (k, i) c lg"
        using old c True filter_later [of "t - span k" c "entries_of (windows_of l k) i"] by simp
      then show ?thesis using old True
        by (auto simp: memAllow_windows [OF a] entries_of_upd recent_snoc)
    qed
  qed
  with fin m(2,3) show ?thesis by (simp add: represents_def)
qed

text \<open>Whether the next request is admitted, as long as its reading is not behind one already seen.\<close>
lemma allow_ideal:
  assumes "represents S l lg" "S \<le> t" "allow k t key l s = (ok, l', s')"
  shows "ok \<longleftrightarrow> limits_of l k \<le> 0 \<or> int (length (recent (k, key) (t - span k) lg)) < limits_of l k"
proof -
  note m = allow_memory [OF representsD(1) [OF assms(1)] assms(3)]
  show ?thesis
  proof (cases "limits_of l k \<le> 0")
    case False
    then have "filter (\<lambda>x. x > t - span k) (entries_of (windows_of l k) key) = recent (k, key) (t - span k) lg"
      using representsD(3) [OF assms(1), of k "t - span k" key] assms(2) by simp
    with m(5) False show ?thesis by (auto simp: memAllow_spec Let_def split: if_splits)
  qed (use m(4) in simp)
qed

lemma windows_of_cleanup:
  assumes "range_order order" "finite (dom (windows_of l k))"
  shows "entries_of (windows_of (cleanup order t l) k) key = filter (\<lambda>x. x > t - 2 * span k) (entries_of (windows_of l k) key)"
    "finite (dom (windows_of (cleanup order t l) k))"
proof -
  note keys = range_orderD [OF assms]
  have "entries_of (cleanMap (order (dom (windows_of l k))) (windows_of l k) t (2 * span k)) key
      = filter (\<lambda>x. x > t - 2 * span k) (entries_of (windows_of l k) key)"
    by (rule cleanMap_entries [OF keys])
  moreover have w: "windows_of (cleanup order t l) k = cleanMap (order (dom (windows_of l k))) (windows_of l k) t (2 * span k)"
    by (cases k) (simp_all add: cleanup_def minute_def second_def)
  ultimately show "entries_of (windows_of (cleanup order t l) k) key = filter (\<lambda>x. x > t - 2 * span k) (entries_of (windows_of l k) key)"
    by simp
  have "dom (windows_of (cleanup order t l) k) \<subseteq> dom (windows_of l k)"
    unfolding w using cleanMap_apply [OF keys] by (auto split: option.splits)
  then show "finite (dom (windows_of (cleanup order t l) k))" using assms(2) by (rule finite_subset)
qed

lemma represents_clean:
  assumes "range_order order" "represents S l lg"
  shows "represents (max S t) (cleanup order t l) lg"
proof -
  note fin = representsD(2) [OF assms(2)]
  have "filter (\<lambda>x. x > c) (entries_of (windows_of (cleanup order t l) k) key) = recent (k, key) c lg"
    if "0 < limits_of l k" "max S t - span k \<le> c" for k key c
  proof -
    have "t - 2 * span k \<le> c" using that(2) by (cases k) simp_all
    then have "filter (\<lambda>x. x > c) (filter (\<lambda>x. x > t - 2 * span k) (entries_of (windows_of l k) key))
        = filter (\<lambda>x. x > c) (entries_of (windows_of l k) key)" by (rule filter_later [symmetric])
    then show ?thesis using representsD(3) [OF assms(2) that(1)] that(2) windows_of_cleanup(1) [OF assms(1) fin] by simp
  qed
  moreover have "rdb (cleanup order t l) = None" "limits_of (cleanup order t l) = limits_of l"
    using representsD(1) [OF assms(2)] by (simp_all add: cleanup_def limits_of_def)
  ultimately show ?thesis using windows_of_cleanup(2) [OF assms(1) fin] by (simp add: represents_def)
qed

lemma limiter_run_ideal:
  assumes "range_order order"
  shows "\<lbrakk>represents S l lg; sorted (S # map event_time es)\<rbrakk> \<Longrightarrow>
     lg @ limiter_run order es l s = ideal_run (limits_of l) lg es"
proof (induction es arbitrary: S l s lg)
  case (Cons e es)
  show ?case
  proof (cases e)
    case (Ask k key t)
    obtain ok l' s' where a: "allow k t key l s = (ok, l', s')" by (cases "allow k t key l s") auto
    have t: "S \<le> t" "max S t = t" using Cons.prems(2) Ask by auto
    have r: "represents t l' (if ok then lg @ [((k, key), t)] else lg)" using represents_ask [OF Cons.prems(1) a] t by simp
    have "sorted (t # map event_time es)" using Cons.prems(2) Ask by simp
    from Cons.IH [OF r this, of s'] allow_ideal [OF Cons.prems(1) t(1) a] allow_memory(3) [OF representsD(1) [OF Cons.prems(1)] a] a Ask
    show ?thesis by (cases ok) simp_all
  next
    case (Clean t)
    have t: "max S t = t" "sorted (t # map event_time es)" using Cons.prems(2) Clean by auto
    have r: "represents t (cleanup order t l) lg" using represents_clean [OF assms Cons.prems(1), of t] t by simp
    have "limits_of (cleanup order t l) = limits_of l" by (simp add: cleanup_def limits_of_def)
    with Cons.IH [OF r t(2), of s] Clean show ?thesis by simp
  qed
qed simp

section \<open>Readings that go back\<close>

text \<open>If readings go back by at most \<open>d\<close> between two holders of the lock, the youngest request of a stretch that is
  shorter than the window by \<open>d\<close> still sees all the others.\<close>
lemma limiter_run_bound:
  assumes "range_order order" "0 \<le> d" and lim: "0 < limits_of l k"
    and lg: "represents S l lg" "\<And>T. int (length (in_window (k, key) (T - (span k - d)) T lg)) \<le> limits_of l k"
    and times: "sorted_wrt (\<lambda>t u. t \<le> u + d) (S # map event_time es)"
  shows "int (length (in_window (k, key) (T - (span k - d)) T (lg @ limiter_run order es l s))) \<le> limits_of l k"
  using lim lg times
proof (induction es arbitrary: S l s lg)
  case (Cons e es)
  note lim = Cons.prems(1) and r = Cons.prems(2) and b = Cons.prems(3)
  have ahead: "sorted_wrt (\<lambda>t u. t \<le> u + d) (max S (event_time e) # map event_time es)"
    using Cons.prems(4) by auto
  show ?case
  proof (cases e)
    case (Clean t)
    have "limits_of (cleanup order t l) = limits_of l" by (simp add: cleanup_def limits_of_def)
    with Cons.IH [of "cleanup order t l" "max S t" lg s] represents_clean [OF assms(1) r] lim b ahead Clean show ?thesis by simp
  next
    case (Ask j i t)
    obtain ok l' s' where a: "allow j t i l s = (ok, l', s')" by (cases "allow j t i l s") auto
    define lg' where "lg' = (if ok then lg @ [((j, i), t)] else lg)"
    note m = allow_memory [OF representsD(1) [OF r] a]
    have "int (length (in_window (k, key) (U - (span k - d)) U lg')) \<le> limits_of l k" for U
    proof (cases "lg' = lg \<or> (j, i) \<noteq> (k, key) \<or> U < t \<or> t \<le> U - (span k - d)")
      case True
      then have "in_window (k, key) (U - (span k - d)) U lg' = in_window (k, key) (U - (span k - d)) U lg"
        by (auto simp: lg'_def in_window_def recent_snoc)
      with b show ?thesis by simp
    next
      case False
      define c where "c = U - (span k - d)"
      have e: "ok" "j = k" "i = key" "lg' = lg @ [((k, key), t)]" "t \<le> U" "c < t"
        using False by (auto simp: lg'_def c_def split: if_splits)
      have c: "S - span k \<le> c" "t - span k \<le> c" using Cons.prems(4) Ask e(5) assms(2) by (auto simp: c_def)
      have "length (in_window (k, key) c U lg) \<le> length (recent (k, key) c lg)" by (simp add: in_window_def)
      also have "\<dots> = length (filter (\<lambda>x. x > c) (entries_of (windows_of l k) key))"
        using representsD(3) [OF r lim c(1)] by simp
      also have "\<dots> \<le> length (filter (\<lambda>x. x > t - span k) (entries_of (windows_of l k) key))"
        by (subst filter_later [OF c(2)]) (rule length_filter_le)
      finally have "length (in_window (k, key) c U lg) \<le> length (filter (\<lambda>x. x > t - span k) (entries_of (windows_of l k) key))" .
      moreover have "int (length (filter (\<lambda>x. x > t - span k) (entries_of (windows_of l k) key))) < limits_of l k"
        using m(5) lim e(1-3) by (auto simp: memAllow_spec Let_def split: if_splits)
      ultimately show ?thesis using e by (simp add: in_window_def recent_snoc flip: c_def)
    qed
    with Cons.IH [of l' "max S t" lg' s'] represents_ask [OF r a] lim ahead m(3) a Ask
    show ?thesis by (cases ok) (simp_all add: lg'_def)
  qed
qed simp

section \<open>Properties\<close>

text \<open>The loop that compacts the expired entries in place, while it reads the same array, computes
  the entries after the cutoff in their order.\<close>
lemma compaction_is_filter:
  "valid_entries cutoff entries = filter (\<lambda>t. t > cutoff) entries"
  by (rule valid_entries_filter)

text \<open>C21 Without Redis the limiter, with its pruned windows of a minute and a second and its cleanup, admits
  exactly the requests of the specification that remembers every admitted request for ever, as long as
  the clock readings of the requests and cleanups are in the order in which they hold the lock.\<close>
theorem memory_limiter_refines_log:
  assumes "range_order order" "sorted (map event_time es)"
  shows "limiter_run order es (NewLimiter None cpm mps) s = ideal_run (limit_for cpm mps) [] es"
proof -
  define t where "t = (case es of [] \<Rightarrow> 0 | e # _ \<Rightarrow> event_time e)"
  have "sorted (t # map event_time es)" using assms(2) by (cases es) (auto simp: t_def)
  moreover have "limits_of (NewLimiter None cpm mps :: 'a limiter) = limit_for cpm mps" by (simp add: limits_of_def NewLimiter_def)
  ultimately show ?thesis using limiter_run_ideal [OF assms(1) represents_new, of t es cpm mps s] by simp
qed

definition sample_events :: "rl_event list" where
  "sample_events = [Ask ConnLimit ''a'' 0, Ask MsgLimit ''p'' 1, Ask ConnLimit ''a'' (3 * 10 ^ 9), Clean (30 * 10 ^ 9),
     Ask ConnLimit ''a'' (31 * 10 ^ 9), Ask MsgLimit ''p'' (32 * 10 ^ 9), Ask ConnLimit ''a'' (61 * 10 ^ 9)]"

theorem memory_limiter_refines_log_witness:
  "limiter_run sorted_order sample_events (NewLimiter None 2 1) () =
     [((ConnLimit, ''a''), 0), ((MsgLimit, ''p''), 1), ((ConnLimit, ''a''), 3 * 10 ^ 9), ((MsgLimit, ''p''), 32 * 10 ^ 9),
      ((ConnLimit, ''a''), 61 * 10 ^ 9)]"
proof -
  have "limiter_run sorted_order sample_events (NewLimiter None 2 1) () = ideal_run (limit_for 2 1) [] sample_events"
    by (rule memory_limiter_refines_log) (simp_all add: range_order_sorted sample_events_def)
  then show ?thesis by (simp add: sample_events_def recent_def)
qed

text \<open>C22 Readings are taken before the lock, so they may go back from one holder of the lock to the next. If they go
  back by at most \<open>d\<close>, no stretch of time that is shorter by \<open>d\<close> than a minute, or a second, contains more
  admitted requests of one address, or one connection, than the limit.\<close>
theorem memory_window_bound:
  assumes "range_order order" "0 \<le> d" "sorted_wrt (\<lambda>t u. t \<le> u + d) (map event_time es)" "0 < limit_for cpm mps k"
  shows "int (length (in_window (k, key) (T - (span k - d)) T (limiter_run order es (NewLimiter None cpm mps) s))) \<le> limit_for cpm mps k"
proof -
  define t where "t = Min (insert 0 (set (map event_time es)))"
  have "t \<le> u + d" if "u \<in> set (map event_time es)" for u
  proof -
    have "t \<le> u" unfolding t_def by (rule Min_le) (use that in simp_all)
    with assms(2) show ?thesis by simp
  qed
  then have "sorted_wrt (\<lambda>t u. t \<le> u + d) (t # map event_time es)" using assms(3) by simp
  moreover have "limits_of (NewLimiter None cpm mps :: 'a limiter) = limit_for cpm mps" by (simp add: limits_of_def NewLimiter_def)
  ultimately show ?thesis
    using limiter_run_bound [OF assms(1,2) _ represents_new [of t], of cpm mps k key es T s] assms(4)
    by (simp add: in_window_def recent_def)
qed

theorem memory_window_bound_witness:
  "int (length (in_window (ConnLimit, ''a'') (61 * 10 ^ 9 - (60 * 10 ^ 9 - 5)) (61 * 10 ^ 9)
     (limiter_run sorted_order (Ask ConnLimit ''a'' 5 # sample_events) (NewLimiter None 2 1) ()))) \<le> 2"
  using memory_window_bound [of sorted_order 5 "Ask ConnLimit ''a'' 5 # sample_events" 2 1 ConnLimit "''a''" "61 * 10 ^ 9" "()"]
  by (simp add: range_order_sorted sample_events_def)

lemma redisAllow_lost:
  "fst (rd_net R s) = RequestLost \<Longrightarrow> run_state (redisAllow R key limit window now) s = (None, snd (rd_net R s))"
  by (cases "rd_net R s") (simp add: redisAllow_def round_trip_def Let_def)

text \<open>When Redis cannot be reached a message is judged by the in-memory window alone, and with no
  limit configured every message passes and nothing is recorded.\<close>
lemma message_limit_fallback:
  assumes "fst (rd_net R s) = RequestLost"
  shows "AllowMessage nowR nowM i (l\<lparr>rdb := Some R\<rparr>) s =
     (if msgPerSec l \<le> 0 then (True, l\<lparr>rdb := Some R\<rparr>, s)
      else case memAllow (msgWindows l) i (msgPerSec l) second nowM of
             (ok, w) \<Rightarrow> (ok, l\<lparr>rdb := Some R, msgWindows := w\<rparr>, snd (rd_net R s)))"
  using assms
  by (simp add: AllowMessage_def redisAllow_lost Let_def)

section \<open>The window in Redis, and what it misses\<close>

context redis_calm
begin

lemma redisAllow_window:
  assumes r: "run_state (redisAllow R key limit window now) s = (res, s')"
  defines "z \<equiv> (zset_trim (f64 (now - window)) (zsets (view s) key))(f64 now \<mapsto> f64 now)"
  shows "res = Some (int (card (dom z)) \<le> limit)"
    "zsets (view s') key = (if int (card (dom z)) \<le> limit then z else map_delete z (f64 now))"
proof -
  define body where "body = do {
       _ \<leftarrow> call R (ZREMRANGEBYSCORE key (f64 (now - window)));
       _ \<leftarrow> call R (ZADD key (f64 now) (f64 now));
       n \<leftarrow> call R (ZCARD key);
       _ \<leftarrow> call R (EXPIRE key (2 * window div second));
       State_Monad.return (case n of RInt i \<Rightarrow> i | _ \<Rightarrow> 0) }"
  obtain s1 where s1: "view s1 = view s"
      "run_state (round_trip R body) s = (Some (fst (run_state body s1)), snd (run_state body s1))"
    using round_trip_calm [of s body] by blast
  define s2 where "s2 = snd (run_state (call R (ZADD key (f64 now) (f64 now)))
      (snd (run_state (call R (ZREMRANGEBYSCORE key (f64 (now - window)))) s1)))"
  have z: "zsets (view s2) key = z" using s1(1) by (simp add: s2_def view_call z_def)
  have n: "fst (run_state (call R (ZCARD key)) s2) = RInt (int (card (dom z)))"
    using answer_call [of "ZCARD key" s2] z by simp
  have "fst (run_state body s1) = int (card (dom z))"
    using n by (simp add: body_def split_def s2_def [symmetric])
  moreover define s3 where "s3 = snd (run_state body s1)"
  have "zsets (view s3) key = z" using z by (simp add: s3_def body_def split_def s2_def [symmetric] view_call)
  moreover have "zsets (view (snd (run_state (round_trip R (call R (ZREM key (f64 now)))) s3))) key = map_delete (zsets (view s3) key) (f64 now)"
    using round_trip_calm [of s3 "call R (ZREM key (f64 now))"] by (auto simp: view_call)
  moreover have "run_state (redisAllow R key limit window now) s
      = (if int (card (dom z)) > limit then (Some False, snd (run_state (round_trip R (call R (ZREM key (f64 now)))) s3))
         else (Some True, s3))"
    using s1(2) calculation(1) by (simp add: redisAllow_def Let_def split_def body_def [symmetric] s3_def)
  ultimately show "res = Some (int (card (dom z)) \<le> limit)"
    "zsets (view s') key = (if int (card (dom z)) \<le> limit then z else map_delete z (f64 now))"
    using r by (auto split: if_splits)
qed

end

text \<open>C23 On a Redis service that completes its round trips and expires nothing in between, the Redis limiter admits a request exactly when the
  sorted set, with the entries before the cutoff removed and one for this clock tick added, has at
  most as many members as the limit; a request it refuses leaves no entry for its tick.\<close>
theorem redis_window:
  assumes "redis_calm R view" "run_state (redisAllow R key limit window now) s = (res, s')"
  shows "let z = (zset_trim (f64 (now - window)) (zsets (view s) key))(f64 now \<mapsto> f64 now);
             ok = (int (card (dom z)) \<le> limit)
         in res = Some ok \<and> zsets (view s') key = (if ok then z else map_delete z (f64 now))"
  using redis_calm.redisAllow_window [OF assms] unfolding Let_def by blast

theorem redis_window_witness:
  "fst (run_state (redisAllow ks_redis ''k'' 1 second 5) empty_keyspace) = Some True"
proof -
  obtain res s' where r: "run_state (redisAllow ks_redis ''k'' 1 second 5) empty_keyspace = (res, s')" by force
  show ?thesis using redis_window [OF ks.redis_calm_axioms r] r
    by (simp add: empty_keyspace_def zset_trim_def Let_def)
qed

section \<open>Ticks of the float's clock\<close>

lemma f64_shift_bounds: "2 ^ (53 + e) \<le> m \<Longrightarrow> m < 2 ^ (54 + e) \<Longrightarrow> f64_shift m = Suc e"
proof (induction e arbitrary: m)
  case 0
  then show ?case by (simp add: f64_shift.simps [of m] f64_shift.simps [of "m div 2"])
next
  case (Suc e)
  have "f64_shift (m div 2) = Suc e" by (rule Suc.IH) (use Suc.prems in \<open>simp_all add: power_add\<close>)
  moreover have "\<not> m < 2 ^ 53"
  proof -
    have "(2 ^ 53 :: int) \<le> 2 ^ (53 + Suc e)" by (intro power_increasing) simp_all
    then show ?thesis using Suc.prems(1) by simp
  qed
  ultimately show ?case by (subst f64_shift.simps) (simp del: One_nat_def)
qed

text \<open>From 2006 to 2043 a float holds the nanoseconds since the epoch in steps of 256.\<close>
lemma f64_tick:
  assumes "2 ^ 60 < 256 * n" "256 * n < 2 ^ 61" "\<bar>t - 256 * n\<bar> < 128"
  shows "f64 t = 256 * n"
proof (cases "2 ^ 60 \<le> t")
  case True
  have "f64_shift t = 8" using f64_shift_bounds [of 7 t] True assms by simp
  moreover have "t div 256 = n \<and> t mod 256 < 128 \<or> t div 256 = n - 1 \<and> t mod 256 > 128"
  proof (cases "256 * n \<le> t")
    case True
    then have "t div 256 = n" using assms(3) by linarith
    with True assms(3) show ?thesis using div_mult_mod_eq [of t 256] by linarith
  next
    case False
    then have "t div 256 = n - 1" using assms(3) by linarith
    with False assms(3) show ?thesis using div_mult_mod_eq [of t 256] by linarith
  qed
  ultimately show ?thesis using True by (auto simp: f64_def f64_abs_def Let_def)
next
  case False
  have "2 ^ 52 < n" using assms(1) by simp
  with False assms(3) have False by simp
  then show ?thesis ..
qed

text \<open>Requests of one key, one after the other.\<close>
primrec redis_asks :: "'r redis \<Rightarrow> string \<Rightarrow> int \<Rightarrow> int \<Rightarrow> int list \<Rightarrow> ('r, bool option list) state" where
  "redis_asks R key limit window [] = State_Monad.return []"
| "redis_asks R key limit window (t # ts) = do {
     a \<leftarrow> redisAllow R key limit window t;
     as \<leftarrow> redis_asks R key limit window ts;
     State_Monad.return (a # as)
   }"

lemma card_dom_trim: "finite (dom z) \<Longrightarrow> card (dom (zset_trim c z)) \<le> card (dom z)"
  by (rule card_mono) (auto simp: zset_trim_def split: option.splits if_splits)

context redis_calm
begin

text \<open>A member that is in the set already takes no room.\<close>
lemma redis_asks_tick:
  assumes "\<And>u. u \<in> set ts \<Longrightarrow> f64 u = x"
  shows "x \<in> dom (zsets (view s) key) \<Longrightarrow> finite (dom (zsets (view s) key)) \<Longrightarrow> int (card (dom (zsets (view s) key))) \<le> limit \<Longrightarrow>
    fst (run_state (redis_asks R key limit window ts) s) = replicate (length ts) (Some True)"
  using assms
proof (induction ts arbitrary: s)
  case (Cons u us)
  define z where "z = (zset_trim (f64 (u - window)) (zsets (view s) key))(x \<mapsto> x)"
  obtain r s1 where r: "run_state (redisAllow R key limit window u) s = (r, s1)" by force
  have sub: "dom z \<subseteq> dom (zsets (view s) key)"
    using Cons.prems(1) by (auto simp: z_def zset_trim_def split: option.splits if_splits)
  then have card: "int (card (dom z)) \<le> limit" using card_mono [OF Cons.prems(2) sub] Cons.prems(3) by linarith
  have s1: "r = Some True" "zsets (view s1) key = z"
    using redisAllow_window [OF r] card Cons.prems(4) [of u] by (simp_all add: z_def)
  have "fst (run_state (redis_asks R key limit window us) s1) = replicate (length us) (Some True)"
  proof (rule Cons.IH)
    show "x \<in> dom (zsets (view s1) key)" by (simp add: s1(2)) (simp add: z_def)
    show "finite (dom (zsets (view s1) key))" using finite_subset [OF sub Cons.prems(2)] by (simp add: s1(2))
    show "int (card (dom (zsets (view s1) key))) \<le> limit" using card by (simp add: s1(2))
  qed (use Cons.prems(4) in simp)
  with r s1(1) show ?case by (simp add: split_def)
qed simp

end

text \<open>C39 The sorted set's members are clock readings as floats, which stand 256 nanoseconds apart from 2006 to 2043.
  Once a request is admitted, every further one whose reading is rounded to the same float is admitted
  too, however many there are and whatever the limit.\<close>
theorem redis_limit_exceeded_in_a_tick:
  assumes "redis_calm R view" "2 ^ 60 < 256 * n" "256 * n < 2 ^ 61" "\<forall>u \<in> set (t # ts). \<bar>u - 256 * n\<bar> < 128"
    "finite (dom (zsets (view s) key))" "run_state (redisAllow R key limit window t) s = (Some True, s1)"
  shows "fst (run_state (redis_asks R key limit window ts) s1) = replicate (length ts) (Some True)"
proof -
  have f: "f64 u = 256 * n" if "u \<in> set (t # ts)" for u using f64_tick [OF assms(2,3)] assms(4) that by blast
  note w = redis_calm.redisAllow_window [OF assms(1,6)]
  define z where "z = (zset_trim (f64 (t - window)) (zsets (view s) key))(256 * n \<mapsto> 256 * n)"
  have z: "int (card (dom z)) \<le> limit" "zsets (view s1) key = z" using w f [of t] by (simp_all add: z_def)
  have "dom z \<subseteq> insert (256 * n) (dom (zsets (view s) key))" by (auto simp: z_def zset_trim_def split: option.splits if_splits)
  then have "finite (dom z)" by (rule finite_subset) (simp add: assms(5))
  then show ?thesis
    using redis_calm.redis_asks_tick [OF assms(1), of ts "256 * n"] f z by (simp add: z_def)
qed

theorem redis_limit_exceeded_in_a_tick_witness:
  "\<exists>s1. run_state (redisAllow ks_redis ''k'' 1 second 1700000000000000000) empty_keyspace = (Some True, s1)
     \<and> fst (run_state (redis_asks ks_redis ''k'' 1 second [1700000000000000050, 1700000000000000100]) s1) = [Some True, Some True]"
proof -
  obtain r s1 where a: "run_state (redisAllow ks_redis ''k'' 1 second 1700000000000000000) empty_keyspace = (r, s1)" by force
  then have t: "r = Some True" using ks.redisAllow_window(1) [OF a] by (simp add: empty_keyspace_def zset_trim_def)
  have "fst (run_state (redis_asks ks_redis ''k'' 1 second [1700000000000000050, 1700000000000000100]) s1) = replicate 2 (Some True)"
    using redis_limit_exceeded_in_a_tick [OF ks.redis_calm_axioms, of 6640625000000000 1700000000000000000
        "[1700000000000000050, 1700000000000000100]" empty_keyspace "''k''" 1 second s1] a t
    by (simp add: empty_keyspace_def numeral_2_eq_2 del: redis_asks.simps)
  with a t show ?thesis by (simp add: numeral_2_eq_2 del: redis_asks.simps)
qed

end
