(* ===== verification/Base64.thy ===== *)
theory Base64
  imports Relay_Prelude
begin

text \<open>
  \<open>base64.StdEncoding\<close> of Go's standard library, with which the message buffer writes frame
  payloads, and the decoding that a receiver applies: every payload comes back.
\<close>

definition b64_char :: "int \<Rightarrow> char" where
  "b64_char n =
     (if n < 26 then char_of (65 + n)
      else if n < 52 then char_of (71 + n)
      else if n < 62 then char_of (n - 4)
      else if n = 62 then CHR ''+'' else CHR ''/'')"

definition b64_val :: "char \<Rightarrow> int" where
  "b64_val c =
     (let n = of_char c in
      if 65 \<le> n \<and> n \<le> 90 then n - 65
      else if 97 \<le> n \<and> n \<le> 122 then n - 71
      else if 48 \<le> n \<and> n \<le> 57 then n + 4
      else if n = 43 then 62 else 63)"

fun b64_encode :: "bytes \<Rightarrow> string" where
  "b64_encode [] = []"
| "b64_encode [a] =
     (let x = of_char a in [b64_char (x div 4), b64_char (x mod 4 * 16), CHR ''='', CHR ''=''])"
| "b64_encode [a, b] =
     (let x = of_char a; y = of_char b
      in [b64_char (x div 4), b64_char (x mod 4 * 16 + y div 16), b64_char (y mod 16 * 4), CHR ''=''])"
| "b64_encode (a # b # c # r) =
     (let x = of_char a; y = of_char b; z = of_char c
      in [b64_char (x div 4), b64_char (x mod 4 * 16 + y div 16), b64_char (y mod 16 * 4 + z div 64),
          b64_char (z mod 64)] @ b64_encode r)"

fun b64_decode :: "string \<Rightarrow> bytes" where
  "b64_decode (p # q # r # s # t) =
     (let w = b64_val p; x = b64_val q; y = b64_val r; z = b64_val s
      in char_of (w * 4 + x div 16)
         # (if r = CHR ''='' then []
            else char_of (x mod 16 * 16 + y div 4)
              # (if s = CHR ''='' then [] else [char_of (y mod 4 * 64 + z)]))
         @ b64_decode t)"
| "b64_decode _ = []"

lemma of_char_bounds: "0 \<le> (of_char c :: int)" "(of_char c :: int) < 256"
  by (metis of_char_of of_nat_0_le_iff of_nat_of_char)
     (metis of_char_of of_nat_of_char of_nat_less_iff of_nat_numeral nat_of_char_less_256)

lemma b64_val_char:
  assumes "0 \<le> n" "n < 64"
  shows "b64_val (b64_char n) = n" "b64_char n \<noteq> CHR ''=''"
proof -
  have c: "(of_char (b64_char n) :: int) =
      (if n < 26 then 65 + n else if n < 52 then 71 + n else if n < 62 then n - 4 else if n = 62 then 43 else 47)"
    using assms by (auto simp: b64_char_def)
  show "b64_val (b64_char n) = n" using assms by (auto simp: b64_val_def c Let_def)
  show "b64_char n \<noteq> CHR ''=''"
  proof
    assume "b64_char n = CHR ''=''"
    then have "(of_char (b64_char n) :: int) = 61" by simp
    then show False using assms unfolding c by (auto split: if_splits)
  qed
qed

lemma sextet_split:
  "0 \<le> q \<Longrightarrow> q < 16 \<Longrightarrow> ((p::int) * 16 + q) div 16 = p"
  "0 \<le> q \<Longrightarrow> q < 16 \<Longrightarrow> ((p::int) * 16 + q) mod 16 = q"
  "0 \<le> q \<Longrightarrow> q < 4 \<Longrightarrow> ((p::int) * 4 + q) div 4 = p"
  "0 \<le> q \<Longrightarrow> q < 4 \<Longrightarrow> ((p::int) * 4 + q) mod 4 = q"
  by auto

lemma octet_bounds:
  assumes "0 \<le> (y::int)" "y < 256"
  shows "0 \<le> y div 16" "y div 16 < 16" "0 \<le> y div 64" "y div 64 < 4"
    "0 \<le> y div 4" "y div 4 < 64"
  using assms by auto

lemma sextet_bounds:
  shows "0 \<le> (q::int) \<Longrightarrow> q < 16 \<Longrightarrow> 0 \<le> x mod 4 * 16 + q"
    "0 \<le> (q::int) \<Longrightarrow> q < 16 \<Longrightarrow> x mod 4 * 16 + q < 64"
    "0 \<le> (r::int) \<Longrightarrow> r < 4 \<Longrightarrow> 0 \<le> x mod 16 * 4 + r"
    "0 \<le> (r::int) \<Longrightarrow> r < 4 \<Longrightarrow> x mod 16 * 4 + r < 64"
  using pos_mod_bound [of 4 x] pos_mod_bound [of 16 x] pos_mod_sign [of 4 x] pos_mod_sign [of 16 x]
  by auto

lemma char_of_of_char: "char_of (of_char c :: int) = c"
  by simp

lemma decode_quad:
  assumes "0 \<le> p" "p < 64" "0 \<le> q" "q < 64" "0 \<le> r" "r < 64" "0 \<le> s" "s < 64"
  shows "b64_decode (b64_char p # b64_char q # b64_char r # b64_char s # t)
      = char_of (p * 4 + q div 16) # char_of (q mod 16 * 16 + r div 4) # char_of (r mod 4 * 64 + s) # b64_decode t"
    "b64_decode [b64_char p, b64_char q, b64_char r, CHR ''='']
      = [char_of (p * 4 + q div 16), char_of (q mod 16 * 16 + r div 4)]"
    "b64_decode [b64_char p, b64_char q, CHR ''='', CHR ''=''] = [char_of (p * 4 + q div 16)]"
  using assms by (simp_all add: b64_val_char Let_def)

lemma b64_roundtrip: "b64_decode (b64_encode bs) = bs"
proof (induction bs rule: b64_encode.induct)
  case 1
  then show ?case by simp
next
  case (2 a)
  define x where "x = (of_char a :: int)"
  have bnd: "0 \<le> x div 4" "x div 4 < 64"
    using octet_bounds [OF of_char_bounds [of a]] by (simp_all add: x_def)
  have e: "x div 4 * 4 + x mod 4 * 16 div 16 = x" by simp
  have "b64_decode (b64_encode [a]) = [char_of x]"
    unfolding b64_encode.simps Let_def x_def [symmetric]
    using bnd sextet_bounds(1,2) [of 0 x]
    by (subst decode_quad(3) [of _ _ 0 0]) (simp_all add: e)
  then show ?case by (simp add: x_def)
next
  case (3 a b)
  define x where "x = (of_char a :: int)"
  define y where "y = (of_char b :: int)"
  have bnd: "0 \<le> x div 4" "x div 4 < 64" "0 \<le> y div 16" "y div 16 < 16"
    unfolding x_def y_def by (intro octet_bounds of_char_bounds)+
  have e: "x div 4 * 4 + (x mod 4 * 16 + y div 16) div 16 = x"
    "(x mod 4 * 16 + y div 16) mod 16 * 16 + y mod 16 * 4 div 4 = y"
    using bnd by (simp_all add: sextet_split)
  have "b64_decode (b64_encode [a, b]) = [char_of (x div 4 * 4 + (x mod 4 * 16 + y div 16) div 16),
      char_of ((x mod 4 * 16 + y div 16) mod 16 * 16 + y mod 16 * 4 div 4)]"
    unfolding b64_encode.simps Let_def x_def [symmetric] y_def [symmetric]
    by (rule decode_quad(2) [of _ _ _ 0])
       (use bnd sextet_bounds(1,2) [of "y div 16" x] sextet_bounds(3,4) [of 0 y] in simp_all)
  also have "\<dots> = [char_of x, char_of y]" by (simp only: e)
  finally show ?case by (simp add: x_def y_def)
next
  case (4 a b c r)
  define x where "x = (of_char a :: int)"
  define y where "y = (of_char b :: int)"
  define z where "z = (of_char c :: int)"
  have bnd: "0 \<le> x div 4" "x div 4 < 64" "0 \<le> y div 16" "y div 16 < 16" "0 \<le> z div 64" "z div 64 < 4"
    unfolding x_def y_def z_def by (intro octet_bounds of_char_bounds)+
  note splits = sextet_split(1,2) [OF bnd(3,4)] sextet_split(3,4) [OF bnd(5,6)]
  have e: "x div 4 * 4 + (x mod 4 * 16 + y div 16) div 16 = x"
    "(x mod 4 * 16 + y div 16) mod 16 * 16 + (y mod 16 * 4 + z div 64) div 4 = y"
    "(y mod 16 * 4 + z div 64) mod 4 * 64 + z mod 64 = z"
    unfolding splits by (rule div_mult_mod_eq)+
  have "b64_decode (b64_encode (a # b # c # r)) = char_of (x div 4 * 4 + (x mod 4 * 16 + y div 16) div 16)
      # char_of ((x mod 4 * 16 + y div 16) mod 16 * 16 + (y mod 16 * 4 + z div 64) div 4)
      # char_of ((y mod 16 * 4 + z div 64) mod 4 * 64 + z mod 64) # b64_decode (b64_encode r)"
    unfolding b64_encode.simps Let_def x_def [symmetric] y_def [symmetric] z_def [symmetric] append_Cons append_Nil
    by (rule decode_quad(1) [OF bnd(1,2) sextet_bounds(1,2) [OF bnd(3,4)] sextet_bounds(3,4) [OF bnd(5,6)]])
       simp_all
  also have "\<dots> = char_of x # char_of y # char_of z # b64_decode (b64_encode r)" by (simp only: e)
  finally show ?case using 4 by (simp add: x_def y_def z_def)
qed

text \<open>The output is ASCII.\<close>
lemma b64_char_ascii: "0 \<le> n \<Longrightarrow> n < 64 \<Longrightarrow> (of_char (b64_char n) :: int) < 128"
  by (auto simp: b64_char_def)

end
