(* ===== verification/Buffer.thy ===== *)
theory Buffer
  imports Redis Protocol Base64
begin

text \<open>
  \<open>internal/connections/buffer.go\<close>: a ring buffer of recent frames per username in a Redis
  list. A Go \<open>*Buffer\<close> may be \<open>nil\<close>, and so may the client inside it; every operation then
  does nothing. \<open>now\<close> is the reading of \<open>time.Now()\<close> in nanoseconds.
\<close>

section \<open>Operations\<close>

record 'r buffer =
  bu_rdb :: "'r redis option"
  bu_maxSize :: int
  bu_ttl :: int

definition bufferTTL :: int where
  "bufferTTL = 3600"

definition NewBuffer :: "'r redis option \<Rightarrow> int \<Rightarrow> 'r buffer option" where
  "NewBuffer rdb maxSize =
     (case rdb of
        None \<Rightarrow> None
      | Some R \<Rightarrow> Some \<lparr>bu_rdb = Some R, bu_maxSize = maxSize, bu_ttl = bufferTTL\<rparr>)"

definition bufferKey :: "string \<Rightarrow> string" where
  "bufferKey username = ''relay:buffer:'' @ username"

definition frame_of :: "int \<Rightarrow> string \<Rightarrow> int \<Rightarrow> bytes \<Rightarrow> BufferedFrame" where
  "frame_of now direction msgType data =
     \<lparr>bf_Timestamp = now div 1000000, bf_Direction = direction, bf_MsgType = msgType, bf_Data = b64_encode data\<rparr>"

definition Push ::
  "'r buffer option \<Rightarrow> int \<Rightarrow> string \<Rightarrow> string \<Rightarrow> int \<Rightarrow> bytes \<Rightarrow> ('r, unit) state" where
  "Push b now username direction msgType data =
     (case b of
        None \<Rightarrow> State_Monad.return ()
      | Some bu \<Rightarrow>
          (case bu_rdb bu of
             None \<Rightarrow> State_Monad.return ()
           | Some R \<Rightarrow> do {
               let encoded = json_render (json_of_BufferedFrame (frame_of now direction msgType data));
               let key = bufferKey username;
               _ \<leftarrow> round_trip R (do {
                 _ \<leftarrow> call R (RPUSH key encoded);
                 _ \<leftarrow> call R (LTRIM key (- bu_maxSize bu) (- 1));
                 call R (EXPIRE key (bu_ttl bu))
               });
               State_Monad.return ()
             }))"

text \<open>\<open>None\<close> is the error; entries that do not decode are skipped.\<close>
definition decode_frames :: "string list \<Rightarrow> BufferedFrame list" where
  "decode_frames vals = List.map_filter (unmarshal BufferedFrame_fields zero_BufferedFrame) vals"

definition GetFrames :: "'r buffer option \<Rightarrow> string \<Rightarrow> ('r, BufferedFrame list option) state" where
  "GetFrames b username =
     (case b of
        None \<Rightarrow> State_Monad.return (Some [])
      | Some bu \<Rightarrow>
          (case bu_rdb bu of
             None \<Rightarrow> State_Monad.return (Some [])
           | Some R \<Rightarrow> do {
               vals \<leftarrow> round_trip R (call R (LRANGE (bufferKey username) 0 (- 1)));
               State_Monad.return (case vals of
                   Some (RList vs) \<Rightarrow> Some (decode_frames vs)
                 | Some _ \<Rightarrow> Some []
                 | None \<Rightarrow> None)
             }))"

definition Clear :: "'r buffer option \<Rightarrow> string \<Rightarrow> ('r, unit) state" where
  "Clear b username =
     (case b of
        None \<Rightarrow> State_Monad.return ()
      | Some bu \<Rightarrow>
          (case bu_rdb bu of
             None \<Rightarrow> State_Monad.return ()
           | Some R \<Rightarrow> do {
               _ \<leftarrow> round_trip R (call R (DEL (bufferKey username)));
               State_Monad.return ()
             }))"

section \<open>Facts\<close>

lemma NewBuffer_nil: "NewBuffer None n = None"
  by (simp add: NewBuffer_def)

lemma nil_buffer [simp]:
  "Push None now u d t x = State_Monad.return ()" "GetFrames None u = State_Monad.return (Some [])"
  "Clear None u = State_Monad.return ()"
  by (simp_all add: Push_def GetFrames_def Clear_def)

lemma bufferKey_inj [simp]: "bufferKey u = bufferKey v \<longleftrightarrow> u = v"
  by (simp add: bufferKey_def)

text \<open>The last \<open>n\<close> elements of a list.\<close>
definition last_n :: "nat \<Rightarrow> 'a list \<Rightarrow> 'a list" where
  "last_n n xs = drop (length xs - n) xs"

lemma last_n_snoc:
  assumes "0 < n"
  shows "last_n n (last_n n xs @ [x]) = last_n n (xs @ [x])"
proof (cases "length xs \<le> n")
  case False
  then have "Suc (length xs) - n = Suc (length xs - n)" by simp
  with False assms show ?thesis by (simp add: last_n_def drop_append add.commute [of 1])
qed (simp add: last_n_def)

lemma length_last_n: "length (last_n n xs) = min n (length xs)"
  by (auto simp: last_n_def)

lemma list_range_last:
  assumes "0 < n"
  shows "list_range (- int n) (- 1) xs = last_n n xs"
proof (cases "length xs \<le> n")
  case True
  then show ?thesis using assms by (auto simp: list_range_def last_n_def Let_def)
next
  case False
  then have "nat (int (length xs) - int n) = length xs - n" by simp
  with False assms show ?thesis by (auto simp: list_range_def last_n_def Let_def max_def)
qed

lemma list_range_all: "list_range 0 (- 1) xs = xs"
  by (auto simp: list_range_def Let_def)

lemma b64_encode_ascii: "ascii (b64_encode bs)"
proof -
  have c: "is_ascii (CHR ''='')" by code_simp
  have "is_ascii (b64_char (x div 4))" "is_ascii (b64_char (x mod 4 * 16))" if "x = of_char a" for x :: int and a
    using octet_bounds [OF of_char_bounds [of a]] sextet_bounds(1,2) [of 0 x] that
    by (auto simp: is_ascii_def intro!: b64_char_ascii)
  show ?thesis
  proof (induction bs rule: b64_encode.induct)
    case (2 a)
    show ?case using c octet_bounds(5,6) [OF of_char_bounds [of a]] sextet_bounds(1,2) [of 0 "of_char a"]
      by (simp add: ascii_def is_ascii_def Let_def b64_char_ascii)
  next
    case (3 a b)
    note q = octet_bounds(1,2) [OF of_char_bounds [of b]]
    show ?case using c octet_bounds(5,6) [OF of_char_bounds [of a]] sextet_bounds(1,2) [OF q, of "of_char a"]
        sextet_bounds(3,4) [of 0 "of_char b"]
      by (simp add: ascii_def is_ascii_def Let_def b64_char_ascii)
  next
    case (4 a b c' r)
    note q = octet_bounds(1,2) [OF of_char_bounds [of b]] and z = octet_bounds(3,4) [OF of_char_bounds [of c']]
    have "is_ascii (b64_char (of_char c' mod 64))" by (simp add: is_ascii_def b64_char_ascii)
    with 4 show ?case
      using octet_bounds(5,6) [OF of_char_bounds [of a]] sextet_bounds(1,2) [OF q, of "of_char a"]
        sextet_bounds(3,4) [OF z, of "of_char b"]
      by (simp add: ascii_def is_ascii_def Let_def b64_char_ascii)
  qed (simp add: ascii_def)
qed

text \<open>A frame the buffer writes decodes to itself.\<close>
definition frame_ok :: "BufferedFrame \<Rightarrow> bool" where
  "frame_ok f \<longleftrightarrow> ascii (bf_Direction f) \<and> ascii (bf_Data f)
     \<and> - (2 ^ 63) \<le> bf_Timestamp f \<and> bf_Timestamp f < 2 ^ 63 \<and> - (2 ^ 63) \<le> bf_MsgType f \<and> bf_MsgType f < 2 ^ 63"

lemma decode_encoded:
  "list_all frame_ok fs \<Longrightarrow> decode_frames (map (\<lambda>f. json_render (json_of_BufferedFrame f)) fs) = fs"
proof (induction fs)
  case Nil
  then show ?case by (simp add: decode_frames_def List.map_filter_def)
next
  case (Cons f fs)
  then have "unmarshal BufferedFrame_fields zero_BufferedFrame (json_render (json_of_BufferedFrame f)) = Some f"
    by (intro unmarshal_BufferedFrame) (auto simp: frame_ok_def ascii_utf8_valid)
  with Cons show ?case by (simp add: decode_frames_def List.map_filter_def)
qed

text \<open>A sequence of pushes for one username.\<close>
type_synonym push = "int \<times> string \<times> int \<times> bytes"

fun push_all :: "'r buffer option \<Rightarrow> string \<Rightarrow> push list \<Rightarrow> 'r \<Rightarrow> 'r" where
  "push_all b u [] s = s"
| "push_all b u ((now, dir, t, data) # ps) s = push_all b u ps (snd (run_state (Push b now u dir t data) s))"

definition push_frame :: "push \<Rightarrow> BufferedFrame" where
  "push_frame p = (case p of (now, dir, t, data) \<Rightarrow> frame_of now dir t data)"

context redis_calm
begin

lemma Push_lists:
  assumes "b = Some bu" "bu_rdb bu = Some R" "bu_maxSize bu = int n" "0 < n"
  shows "lists (view (snd (run_state (Push b now u dir t data) s)))
    = (lists (view s))(bufferKey u :=
        last_n n (lists (view s) (bufferKey u) @ [json_render (json_of_BufferedFrame (frame_of now dir t data))]))"
proof -
  define body where "body = do {
       _ \<leftarrow> call R (RPUSH (bufferKey u) (json_render (json_of_BufferedFrame (frame_of now dir t data))));
       _ \<leftarrow> call R (LTRIM (bufferKey u) (- bu_maxSize bu) (- 1));
       call R (EXPIRE (bufferKey u) (bu_ttl bu)) }"
  obtain s1 where s1: "view s1 = view s"
      "run_state (round_trip R body) s = (Some (fst (run_state body s1)), snd (run_state body s1))"
    using round_trip_calm [of s body] by blast
  have "view (snd (run_state body s1)) = cmd_effect (EXPIRE (bufferKey u) (bu_ttl bu))
      (cmd_effect (LTRIM (bufferKey u) (- bu_maxSize bu) (- 1))
        (cmd_effect (RPUSH (bufferKey u) (json_render (json_of_BufferedFrame (frame_of now dir t data)))) (view s1)))"
    by (simp only: body_def run_state_bind split_def view_call)
  moreover have "snd (run_state (Push b now u dir t data) s) = snd (run_state body s1)"
    using s1(2) assms(1,2) by (simp add: Push_def Let_def body_def [symmetric])
  ultimately show ?thesis
    using s1(1) assms(3,4) by (simp add: list_range_last)
qed

lemma push_all_lists:
  assumes "b = Some bu" "bu_rdb bu = Some R" "bu_maxSize bu = int n" "0 < n"
  shows "last_n n (lists (view s) (bufferKey u)) = lists (view s) (bufferKey u) \<Longrightarrow>
    lists (view (push_all b u ps s)) (bufferKey u)
      = last_n n (lists (view s) (bufferKey u) @ map (\<lambda>p. json_render (json_of_BufferedFrame (push_frame p))) ps)"
proof (induction ps arbitrary: s)
  case Nil
  then show ?case by simp
next
  case (Cons p ps)
  obtain now dir t data where p: "p = (now, dir, t, data)" by (cases p)
  define s' where "s' = snd (run_state (Push b now u dir t data) s)"
  define e where "e = json_render (json_of_BufferedFrame (push_frame p))"
  have l: "lists (view s') (bufferKey u) = last_n n (lists (view s) (bufferKey u) @ [e])"
    using Push_lists [OF assms, of now u dir t data s] by (simp add: s'_def e_def p push_frame_def)
  have idem: "last_n n (last_n n xs) = last_n n xs" for xs :: "string list"
    by (simp add: last_n_def)
  have app: "last_n n (last_n n xs @ ys) = last_n n (xs @ ys)" for xs ys :: "string list"
  proof (induction ys rule: rev_induct)
    case Nil
    then show ?case by (simp add: idem)
  next
    case (snoc y ys)
    have "last_n n ((last_n n xs @ ys) @ [y]) = last_n n (last_n n (last_n n xs @ ys) @ [y])"
      using last_n_snoc [OF assms(4), of "last_n n xs @ ys" y] by simp
    also have "\<dots> = last_n n (last_n n (xs @ ys) @ [y])" using snoc by simp
    also have "\<dots> = last_n n ((xs @ ys) @ [y])" by (rule last_n_snoc [OF assms(4)])
    finally show ?case by simp
  qed
  have "lists (view (push_all b u ps s')) (bufferKey u)
      = last_n n (lists (view s') (bufferKey u) @ map (\<lambda>p. json_render (json_of_BufferedFrame (push_frame p))) ps)"
    by (rule Cons.IH) (simp add: l idem)
  moreover have "push_all b u (p # ps) s = push_all b u ps s'" by (simp add: p s'_def)
  ultimately show ?case by (simp only: l app) (simp add: e_def)
qed

lemma GetFrames_lists:
  assumes "b = Some bu" "bu_rdb bu = Some R"
  shows "fst (run_state (GetFrames b u) s) = Some (decode_frames (lists (view s) (bufferKey u)))"
proof -
  define body where "body = call R (LRANGE (bufferKey u) 0 (- 1))"
  obtain s1 where s1: "view s1 = view s"
      "run_state (round_trip R body) s = (Some (fst (run_state body s1)), snd (run_state body s1))"
    using round_trip_calm [of s body] by blast
  have "fst (run_state body s1) = RList (lists (view s) (bufferKey u))"
    using answer_call [of "LRANGE (bufferKey u) 0 (- 1)" s1] s1(1) by (simp add: body_def list_range_all)
  with s1(2) assms show ?thesis by (simp add: GetFrames_def body_def [symmetric])
qed

end

section \<open>Properties\<close>

lemma frame_ok_frame_of:
  assumes "- (2 ^ 63) \<le> now \<and> now < 2 ^ 63" "ascii dir" "- (2 ^ 63) \<le> t \<and> t < 2 ^ 63"
  shows "frame_ok (frame_of now dir t data)"
proof -
  have "- (2 ^ 63) \<le> now div 1000000" "now div 1000000 < 2 ^ 63" using assms(1) by auto
  with assms(2,3) show ?thesis by (simp add: frame_ok_def frame_of_def b64_encode_ascii)
qed

definition push_ok :: "push \<Rightarrow> bool" where
  "push_ok p = (case p of (now, dir, t, data) \<Rightarrow>
     - (2 ^ 63) \<le> now \<and> now < 2 ^ 63 \<and> ascii dir \<and> - (2 ^ 63) \<le> t \<and> t < 2 ^ 63)"

lemma frame_ok_push: "push_ok p \<Longrightarrow> frame_ok (push_frame p)"
  by (cases p) (auto simp: push_ok_def push_frame_def intro!: frame_ok_frame_of)

lemma last_n_map: "last_n n (map f xs) = map f (last_n n xs)"
  by (simp add: last_n_def drop_map)

text \<open>C28 The Redis list is a ring buffer on a service that completes its round trips and expires nothing in between: after any sequence of pushes for a username, reading gives
  the last \<open>maxSize\<close> frames pushed, oldest first, and each frame's data decodes to the bytes pushed.\<close>
theorem buffer_keeps_last_frames:
  assumes "redis_calm R view" "0 < n" "NewBuffer (Some R) (int n) = b" "lists (view s) (bufferKey u) = []"
    "list_all push_ok ps"
  shows "fst (run_state (GetFrames b u) (push_all b u ps s)) = Some (last_n n (map push_frame ps))
    \<and> map (b64_decode \<circ> bf_Data) (last_n n (map push_frame ps)) = last_n n (map (\<lambda>(now, dir, t, data). data) ps)"
proof -
  define bu where "bu = \<lparr>bu_rdb = Some R, bu_maxSize = int n, bu_ttl = bufferTTL\<rparr>"
  have b: "b = Some bu" "bu_rdb bu = Some R" "bu_maxSize bu = int n"
    using assms(3) by (auto simp: NewBuffer_def bu_def)
  define enc where "enc = (\<lambda>f. json_render (json_of_BufferedFrame f))"
  have "lists (view (push_all b u ps s)) (bufferKey u) = last_n n ([] @ map (\<lambda>p. enc (push_frame p)) ps)"
    using redis_calm.push_all_lists [OF assms(1) b assms(2), of s u ps] assms(4) by (simp add: last_n_def enc_def)
  also have "\<dots> = map enc (last_n n (map push_frame ps))" by (simp add: last_n_map [symmetric] comp_def)
  finally have l: "lists (view (push_all b u ps s)) (bufferKey u) = map enc (last_n n (map push_frame ps))" .
  have "list_all frame_ok (last_n n (map push_frame ps))"
    using assms(5) by (auto simp: list_all_iff last_n_def intro!: frame_ok_push dest!: in_set_dropD)
  then have "decode_frames (map enc (last_n n (map push_frame ps))) = last_n n (map push_frame ps)"
    unfolding enc_def by (rule decode_encoded)
  then have "fst (run_state (GetFrames b u) (push_all b u ps s)) = Some (last_n n (map push_frame ps))"
    using redis_calm.GetFrames_lists [OF assms(1) b(1,2), of u "push_all b u ps s"] l by simp
  moreover have "(b64_decode \<circ> bf_Data) (push_frame p) = (case p of (now, dir, t, data) \<Rightarrow> data)" for p
    by (cases p) (simp add: push_frame_def frame_of_def b64_roundtrip)
  then have "map (b64_decode \<circ> bf_Data) (last_n n (map push_frame ps)) = last_n n (map (\<lambda>(now, dir, t, data). data) ps)"
    by (simp add: last_n_map [symmetric] comp_def)
  ultimately show ?thesis by blast
qed

theorem buffer_keeps_last_frames_witness:
  "fst (run_state (GetFrames (NewBuffer (Some ks_redis) 2) ''ann'')
     (push_all (NewBuffer (Some ks_redis) 2) ''ann'' [(1000000, ''c2s'', 1, ''a''), (2000000, ''s2c'', 2, ''b''), (3000000, ''c2s'', 1, ''c'')] empty_keyspace))
   = Some [frame_of 2000000 ''s2c'' 2 ''b'', frame_of 3000000 ''c2s'' 1 ''c'']"
proof -
  have "list_all push_ok [(1000000, ''c2s'', 1, ''a''), (2000000, ''s2c'', 2, ''b''), (3000000, ''c2s'', 1, ''c'')]"
    by code_simp
  from buffer_keeps_last_frames [OF ks.redis_calm_axioms, of 2 "NewBuffer (Some ks_redis) 2" empty_keyspace "''ann''", OF _ _ _ this]
  show ?thesis by (simp add: empty_keyspace_def last_n_def push_frame_def)
qed

end
