(* ===== verification/Store.thy ===== *)
theory Store
  imports Relay_Prelude "HOL-Library.State_Monad"
begin

text \<open>
  \<open>internal/connections/store.go\<close>: the \<open>Store\<close> interface, which keeps the routing state (who waits
  for a client, who is paired with whom) apart from the websockets. The record \<open>store_ops\<close> is
  the Go interface; every method is an atomic step on the store's state \<open>'s\<close>. A result
  \<open>(value, ok)\<close> is an option. The locale \<open>store\<close> states the promises in the interface's comments,
  over two abstract views of the state: the map of waiting connections and the map of peers.
\<close>

section \<open>The interface\<close>

record 's store_ops =
  SetWaiting :: "string \<Rightarrow> string \<Rightarrow> ('s, string \<times> bool) state"
  GetWaiting :: "string \<Rightarrow> ('s, string option) state"
  RemoveWaiting :: "string \<Rightarrow> string \<Rightarrow> ('s, bool) state"
  CreatePair :: "string \<Rightarrow> string \<Rightarrow> string \<Rightarrow> string \<Rightarrow> ('s, string \<times> bool) state"
  GetPeer :: "string \<Rightarrow> ('s, string option) state"
  RemovePair :: "string \<Rightarrow> ('s, string option) state"
  Store_IsPaired :: "string \<Rightarrow> ('s, bool) state"
  Store_IsWaiting :: "string \<Rightarrow> ('s, bool) state"
  Stats :: "('s, int \<times> int) state"
  WaitingUsernames :: "('s, string list) state"

text \<open>The value and the state a method leaves.\<close>
abbreviation result :: "('s, 'a) state \<Rightarrow> 's \<Rightarrow> 'a" where
  "result m s \<equiv> fst (run_state m s)"

abbreviation after :: "('s, 'a) state \<Rightarrow> 's \<Rightarrow> 's" where
  "after m s \<equiv> snd (run_state m s)"

section \<open>The contract\<close>

text \<open>What evicting by \<open>SetWaiting\<close> returns: the previous connection, unless it is the same.\<close>
definition evicted_by :: "(string \<rightharpoonup> string) \<Rightarrow> string \<Rightarrow> string \<Rightarrow> string" where
  "evicted_by w u c = (if map_get_str w u = c then [] else map_get_str w u)"

text \<open>The peers left when the pair of a connection is removed.\<close>
definition unpair :: "(string \<rightharpoonup> string) \<Rightarrow> string \<Rightarrow> (string \<rightharpoonup> string)" where
  "unpair p c = (case p c of None \<Rightarrow> p | Some d \<Rightarrow> map_delete (map_delete p c) d)"

locale store =
  fixes S :: "'s store_ops"
    and waiting :: "'s \<Rightarrow> (string \<rightharpoonup> string)" and peers :: "'s \<Rightarrow> (string \<rightharpoonup> string)"
    and inv :: "'s \<Rightarrow> bool"
  assumes SetWaiting_law: "inv s \<Longrightarrow>
      result (SetWaiting S u c) s = (evicted_by (waiting s) u c, False)
      \<and> waiting (after (SetWaiting S u c) s) = (waiting s)(u \<mapsto> c)
      \<and> peers (after (SetWaiting S u c) s) = peers s \<and> inv (after (SetWaiting S u c) s)"
    and GetWaiting_law: "inv s \<Longrightarrow>
      result (GetWaiting S u) s = waiting s u
      \<and> waiting (after (GetWaiting S u) s) = waiting s
      \<and> peers (after (GetWaiting S u) s) = peers s \<and> inv (after (GetWaiting S u) s)"
    and RemoveWaiting_law: "inv s \<Longrightarrow> c \<noteq> [] \<Longrightarrow>
      result (RemoveWaiting S u c) s = (waiting s u = Some c)
      \<and> waiting (after (RemoveWaiting S u c) s) = (if waiting s u = Some c then map_delete (waiting s) u else waiting s)
      \<and> peers (after (RemoveWaiting S u c) s) = peers s \<and> inv (after (RemoveWaiting S u c) s)"
    and CreatePair_law: "inv s \<Longrightarrow>
      result (CreatePair S a b u pairID) s = (pairID, False)
      \<and> waiting (after (CreatePair S a b u pairID) s) = map_delete (waiting s) u
      \<and> peers (after (CreatePair S a b u pairID) s) = (peers s)(a \<mapsto> b, b \<mapsto> a)
      \<and> inv (after (CreatePair S a b u pairID) s)"
    and GetPeer_law: "inv s \<Longrightarrow>
      result (GetPeer S c) s = peers s c
      \<and> waiting (after (GetPeer S c) s) = waiting s
      \<and> peers (after (GetPeer S c) s) = peers s \<and> inv (after (GetPeer S c) s)"
    and RemovePair_law: "inv s \<Longrightarrow> peers s c \<noteq> Some [] \<Longrightarrow>
      result (RemovePair S c) s = peers s c
      \<and> waiting (after (RemovePair S c) s) = waiting s
      \<and> peers (after (RemovePair S c) s) = unpair (peers s) c \<and> inv (after (RemovePair S c) s)"
    and IsPaired_law: "inv s \<Longrightarrow>
      result (Store_IsPaired S c) s = (peers s c \<noteq> None)
      \<and> waiting (after (Store_IsPaired S c) s) = waiting s
      \<and> peers (after (Store_IsPaired S c) s) = peers s \<and> inv (after (Store_IsPaired S c) s)"
    and IsWaiting_law: "inv s \<Longrightarrow>
      result (Store_IsWaiting S u) s = (waiting s u \<noteq> None)
      \<and> waiting (after (Store_IsWaiting S u) s) = waiting s
      \<and> peers (after (Store_IsWaiting S u) s) = peers s \<and> inv (after (Store_IsWaiting S u) s)"
    and Stats_law: "inv s \<Longrightarrow>
      result (Stats S) s = (int (map_len (waiting s)), int (map_len (peers s)) div 2)
      \<and> waiting (after (Stats S) s) = waiting s
      \<and> peers (after (Stats S) s) = peers s \<and> inv (after (Stats S) s)"
    and WaitingUsernames_law: "inv s \<Longrightarrow>
      set (result (WaitingUsernames S) s) = dom (waiting s) \<and> distinct (result (WaitingUsernames S) s)
      \<and> waiting (after (WaitingUsernames S) s) = waiting s
      \<and> peers (after (WaitingUsernames S) s) = peers s \<and> inv (after (WaitingUsernames S) s)"

section \<open>Sequences of calls\<close>

text \<open>Any client of a store is a sequence of calls, each with the answer it got.\<close>
datatype store_call =
    CSetWaiting string string
  | CGetWaiting string
  | CRemoveWaiting string string
  | CCreatePair string string string string
  | CGetPeer string
  | CRemovePair string
  | CIsPaired string
  | CIsWaiting string
  | CStats
  | CWaitingUsernames

datatype store_reply =
    AText string bool
  | AFound "string option"
  | ABool bool
  | ACounts int int
  | ANames "string set"

fun exec_call :: "'s store_ops \<Rightarrow> store_call \<Rightarrow> ('s, store_reply) state" where
  "exec_call S (CSetWaiting u c) = do { (e, err) \<leftarrow> SetWaiting S u c; State_Monad.return (AText e err) }"
| "exec_call S (CGetWaiting u) = do { r \<leftarrow> GetWaiting S u; State_Monad.return (AFound r) }"
| "exec_call S (CRemoveWaiting u c) = do { r \<leftarrow> RemoveWaiting S u c; State_Monad.return (ABool r) }"
| "exec_call S (CCreatePair a b u p) = do { (e, err) \<leftarrow> CreatePair S a b u p; State_Monad.return (AText e err) }"
| "exec_call S (CGetPeer c) = do { r \<leftarrow> GetPeer S c; State_Monad.return (AFound r) }"
| "exec_call S (CRemovePair c) = do { r \<leftarrow> RemovePair S c; State_Monad.return (AFound r) }"
| "exec_call S (CIsPaired c) = do { r \<leftarrow> Store_IsPaired S c; State_Monad.return (ABool r) }"
| "exec_call S (CIsWaiting u) = do { r \<leftarrow> Store_IsWaiting S u; State_Monad.return (ABool r) }"
| "exec_call S CStats = do { (w, p) \<leftarrow> Stats S; State_Monad.return (ACounts w p) }"
| "exec_call S CWaitingUsernames = do { r \<leftarrow> WaitingUsernames S; State_Monad.return (ANames (set r)) }"

fun exec_calls :: "'s store_ops \<Rightarrow> store_call list \<Rightarrow> 's \<Rightarrow> store_reply list \<times> 's" where
  "exec_calls S [] s = ([], s)"
| "exec_calls S (c # cs) s =
     (case run_state (exec_call S c) s of (r, s1) \<Rightarrow>
      case exec_calls S cs s1 of (rs, s2) \<Rightarrow> (r # rs, s2))"

text \<open>Connection ids are generated and never empty; only such calls reach a store.\<close>
fun call_ok :: "store_call \<Rightarrow> bool" where
  "call_ok (CRemoveWaiting u c) = (c \<noteq> [])"
| "call_ok (CCreatePair a b u p) = (a \<noteq> [] \<and> b \<noteq> [])"
| "call_ok _ = True"

definition peers_ok :: "(string \<rightharpoonup> string) \<Rightarrow> bool" where
  "peers_ok p \<longleftrightarrow> [] \<notin> ran p"

lemma peers_ok_empty [simp]: "peers_ok Map.empty"
  by (simp add: peers_ok_def)

lemma peers_ok_pair: "peers_ok p \<Longrightarrow> a \<noteq> [] \<Longrightarrow> b \<noteq> [] \<Longrightarrow> peers_ok (p(a \<mapsto> b, b \<mapsto> a))"
  by (auto simp: peers_ok_def ran_def split: if_splits)

lemma ran_unpair: "ran (unpair p c) \<subseteq> ran p"
  by (auto simp: unpair_def ran_def split: option.splits if_splits)

lemma peers_ok_unpair: "peers_ok p \<Longrightarrow> peers_ok (unpair p c)"
  using ran_unpair [of p c] by (auto simp: peers_ok_def)

lemma peers_okD: "peers_ok p \<Longrightarrow> p c \<noteq> Some []"
  by (auto simp: peers_ok_def ran_def)

text \<open>Pairs are symmetric: the peer of my peer is me.\<close>
definition sym_peers :: "(string \<rightharpoonup> string) \<Rightarrow> bool" where
  "sym_peers p \<longleftrightarrow> (\<forall>a b. p a = Some b \<longrightarrow> p b = Some a)"

lemma sym_peersD: "sym_peers p \<Longrightarrow> p a = Some b \<Longrightarrow> p b = Some a"
  unfolding sym_peers_def by blast

lemma unpair_apply: "unpair p c x = (if p c \<noteq> None \<and> (x = c \<or> p c = Some x) then None else p x)"
  by (cases "p c") (auto simp: unpair_def)

lemma sym_peers_pair:
  assumes "sym_peers p" "p a = None" "p b = None"
  shows "sym_peers (p(a \<mapsto> b, b \<mapsto> a))"
  unfolding sym_peers_def
proof (intro allI impI)
  fix x y
  assume h: "(p(a \<mapsto> b, b \<mapsto> a)) x = Some y"
  show "(p(a \<mapsto> b, b \<mapsto> a)) y = Some x"
  proof (cases "x = a \<or> x = b")
    case True
    with h show ?thesis by (auto split: if_splits)
  next
    case False
    with h have "p x = Some y" by simp
    then have "p y = Some x" by (rule sym_peersD [OF assms(1)])
    with assms(2,3) have "y \<noteq> a \<and> y \<noteq> b" by auto
    with \<open>p y = Some x\<close> show ?thesis by simp
  qed
qed

lemma sym_peers_unpair:
  assumes "sym_peers p"
  shows "sym_peers (unpair p c)"
  unfolding sym_peers_def
proof (intro allI impI)
  fix x y
  assume h: "unpair p c x = Some y"
  then have xy: "p x = Some y" and n: "p c = None \<or> x \<noteq> c \<and> p c \<noteq> Some x"
    by (auto simp: unpair_apply split: if_splits)
  have yx: "p y = Some x" by (rule sym_peersD [OF assms xy])
  have "p c = None" if "\<not> (y \<noteq> c \<and> p c \<noteq> Some y)"
  proof -
    have "p c = Some x \<or> p y = Some c"
      using that yx sym_peersD [OF assms, of c y] by blast
    with n yx show ?thesis by auto
  qed
  then have "p c = None \<or> y \<noteq> c \<and> p c \<noteq> Some y" by blast
  with yx show "unpair p c y = Some x" by (auto simp: unpair_apply)
qed

lemma unpair_pair:
  assumes "p a = None" "p b = None"
  shows "unpair (p(a \<mapsto> b, b \<mapsto> a)) a = p" "unpair (p(a \<mapsto> b, b \<mapsto> a)) b = p"
  using assms by (auto simp: unpair_apply fun_eq_iff)

lemma unpair_sym:
  assumes "sym_peers p" "p a = Some b"
  shows "unpair p b = unpair p a"
  using assms(2) sym_peersD [OF assms] by (auto simp: unpair_apply fun_eq_iff)

text \<open>Two stores answer every sequence of calls alike.\<close>
locale store_pair =
  A: store S1 w1 p1 i1 + B: store S2 w2 p2 i2
  for S1 :: "'s store_ops" and w1 p1 i1 and S2 :: "'t store_ops" and w2 p2 i2
begin

definition agree :: "'s \<Rightarrow> 't \<Rightarrow> bool" where
  "agree s t \<longleftrightarrow> i1 s \<and> i2 t \<and> w1 s = w2 t \<and> p1 s = p2 t \<and> peers_ok (p2 t)"

lemma agree_call:
  assumes "agree s t" "call_ok c"
  shows "result (exec_call S1 c) s = result (exec_call S2 c) t
    \<and> agree (after (exec_call S1 c) s) (after (exec_call S2 c) t)"
proof (cases c)
  case (CSetWaiting u x)
  with assms show ?thesis using A.SetWaiting_law [of s u x] B.SetWaiting_law [of t u x]
    by (simp add: agree_def split_def)
next
  case (CGetWaiting u)
  with assms show ?thesis using A.GetWaiting_law [of s u] B.GetWaiting_law [of t u]
    by (simp add: agree_def split_def)
next
  case (CRemoveWaiting u x)
  with assms show ?thesis using A.RemoveWaiting_law [of s x u] B.RemoveWaiting_law [of t x u]
    by (simp add: agree_def split_def)
next
  case (CCreatePair a b u x)
  with assms show ?thesis using A.CreatePair_law [of s a b u x] B.CreatePair_law [of t a b u x]
    by (simp add: agree_def split_def peers_ok_pair)
next
  case (CGetPeer x)
  with assms show ?thesis using A.GetPeer_law [of s x] B.GetPeer_law [of t x]
    by (simp add: agree_def split_def)
next
  case (CRemovePair x)
  with assms have "p1 s x \<noteq> Some []" "p2 t x \<noteq> Some []" using peers_okD [of "p2 t" x] by (auto simp: agree_def)
  with CRemovePair assms show ?thesis using A.RemovePair_law [of s x] B.RemovePair_law [of t x]
    by (simp add: agree_def split_def peers_ok_unpair)
next
  case (CIsPaired x)
  with assms show ?thesis using A.IsPaired_law [of s x] B.IsPaired_law [of t x]
    by (simp add: agree_def split_def)
next
  case (CIsWaiting u)
  with assms show ?thesis using A.IsWaiting_law [of s u] B.IsWaiting_law [of t u]
    by (simp add: agree_def split_def)
next
  case CStats
  with assms show ?thesis using A.Stats_law [of s] B.Stats_law [of t]
    by (simp add: agree_def split_def)
next
  case CWaitingUsernames
  with assms show ?thesis using A.WaitingUsernames_law [of s] B.WaitingUsernames_law [of t]
    by (simp add: agree_def split_def)
qed

lemma agree_calls:
  "agree s t \<Longrightarrow> list_all call_ok cs \<Longrightarrow>
    fst (exec_calls S1 cs s) = fst (exec_calls S2 cs t) \<and> agree (snd (exec_calls S1 cs s)) (snd (exec_calls S2 cs t))"
proof (induction cs arbitrary: s t)
  case (Cons c cs)
  with agree_call [of s t c] show ?case by (simp add: split_def)
qed simp

end

section \<open>Consequences for a client\<close>

context store
begin

lemma waiting_found: "inv s \<Longrightarrow> result (GetWaiting S u) (after (SetWaiting S u c) s) = Some c"
  using SetWaiting_law [of s u c] GetWaiting_law [of "after (SetWaiting S u c) s" u] by simp

lemma removed_not_found:
  "inv s \<Longrightarrow> c \<noteq> [] \<Longrightarrow> waiting s u = Some c \<Longrightarrow> result (GetWaiting S u) (after (RemoveWaiting S u c) s) = None"
  using RemoveWaiting_law [of s c u] GetWaiting_law [of "after (RemoveWaiting S u c) s" u] by simp

lemma paired_found:
  "inv s \<Longrightarrow> result (GetPeer S b) (after (CreatePair S a b u p) s) = Some a"
  "inv s \<Longrightarrow> a \<noteq> b \<Longrightarrow> result (GetPeer S a) (after (CreatePair S a b u p) s) = Some b"
  using CreatePair_law [of s a b u p] GetPeer_law [of "after (CreatePair S a b u p) s"] by simp_all

end

end
