(* ===== verification/Frame.thy ===== *)
theory Frame
  imports Base64
begin

text \<open>
  The multi-client frames of \<open>internal/connections/connections.go\<close>: a marker byte, the 16 bytes of
  the client's UUID, the payload.

  The UUID library is a parameter: \<open>uu_parse s\<close> is the array \<open>uuid.Parse(s)\<close> leaves (the relay
  ignores its error), \<open>uu_string\<close> is \<open>UUID.String\<close>. What the relay relies on is the locale
  \<open>uuid_lib\<close>: arrays have 16 bytes, and printing a UUID and parsing it back is the identity.
\<close>

record uuids =
  uu_parse :: "string \<Rightarrow> bytes"
  uu_string :: "bytes \<Rightarrow> string"

definition MCHeaderText :: char where
  "MCHeaderText = CHR 0x01"

definition MCHeaderBinary :: char where
  "MCHeaderBinary = CHR 0x02"

definition MCHeaderSize :: nat where
  "MCHeaderSize = 1 + 16"

definition WrapMultiClientFrame :: "uuids \<Rightarrow> string \<Rightarrow> msg_type \<Rightarrow> bytes \<Rightarrow> bytes" where
  "WrapMultiClientFrame uu clientID msgType data =
     (let marker = (if msgType = MessageText then MCHeaderText else MCHeaderBinary)
      in marker # take 16 (uu_parse uu clientID) @ data)"

definition ParseMultiClientHeader :: "uuids \<Rightarrow> bytes \<Rightarrow> (string \<times> msg_type \<times> bytes) option" where
  "ParseMultiClientHeader uu data =
     (if length data < MCHeaderSize then None
      else let marker = data ! 0 in
        if marker \<noteq> MCHeaderText \<and> marker \<noteq> MCHeaderBinary then None
        else let clientID = uu_string uu (take 16 (drop 1 data));
                 origMsgType = (if marker = MCHeaderText then MessageText else MessageBinary)
             in Some (clientID, origMsgType, drop 17 data))"

locale uuid_lib =
  fixes uu :: uuids
  assumes parse_len: "length (uu_parse uu s) = 16"
    and parse_string: "length b = 16 \<Longrightarrow> uu_parse uu (uu_string uu b) = b"
begin

text \<open>The ids \<open>uuid.NewString()\<close> makes.\<close>
definition uuid_text :: "string \<Rightarrow> bool" where
  "uuid_text s \<longleftrightarrow> uu_string uu (uu_parse uu s) = s"

lemma uuid_text_string: "length b = 16 \<Longrightarrow> uuid_text (uu_string uu b)"
  by (simp add: uuid_text_def parse_string)

lemma parse_wrap: "ParseMultiClientHeader uu (WrapMultiClientFrame uu c t data) = Some (uu_string uu (uu_parse uu c), t, data)"
  using parse_len [of c]
  by (cases t) (simp_all add: ParseMultiClientHeader_def WrapMultiClientFrame_def Let_def MCHeaderSize_def
      MCHeaderText_def MCHeaderBinary_def)

lemma wrap_parse:
  assumes "ParseMultiClientHeader uu data = Some (c, t, payload)"
  shows "WrapMultiClientFrame uu c t payload = data"
proof -
  have l: "17 \<le> length data" and m: "data ! 0 = (if t = MessageText then MCHeaderText else MCHeaderBinary)"
    and c: "c = uu_string uu (take 16 (drop 1 data))" and p: "payload = drop 17 data"
    using assms by (auto simp: ParseMultiClientHeader_def MCHeaderSize_def Let_def split: if_splits)
  have "length (take 16 (drop 1 data)) = 16" using l by simp
  then have u: "uu_parse uu c = take 16 (drop 1 data)" by (simp add: c parse_string)
  have "data = data ! 0 # drop 1 data" using l by (cases data) auto
  also have "drop 1 data = take 16 (drop 1 data) @ drop 17 data"
    using append_take_drop_id [of 16 "drop 1 data"] by simp
  finally show ?thesis using m u p by (simp add: WrapMultiClientFrame_def)
qed

lemma length_wrap: "length (WrapMultiClientFrame uu c t data) = MCHeaderSize + length data"
  by (simp add: WrapMultiClientFrame_def parse_len MCHeaderSize_def Let_def)

end

section \<open>The canonical text of a UUID\<close>

definition nibble_char :: "int \<Rightarrow> char" where
  "nibble_char n = (if n < 10 then char_of (48 + n) else char_of (87 + n))"

definition nibble_val :: "char \<Rightarrow> int" where
  "nibble_val c = (let v = of_char c :: int in if 97 \<le> v then v - 87 else v - 48)"

fun hex_of :: "bytes \<Rightarrow> string" where
  "hex_of [] = []"
| "hex_of (b # bs) = nibble_char (of_char b div 16) # nibble_char (of_char b mod 16) # hex_of bs"

fun of_hex :: "string \<Rightarrow> bytes" where
  "of_hex (a # b # s) = char_of (nibble_val a * 16 + nibble_val b) # of_hex s"
| "of_hex _ = []"

text \<open>Groups of 8, 4, 4, 4 and 12 digits with dashes between them.\<close>
definition std_string :: "bytes \<Rightarrow> string" where
  "std_string b = hex_of (take 4 b) @ ''-'' @ hex_of (take 2 (drop 4 b)) @ ''-'' @ hex_of (take 2 (drop 6 b))
     @ ''-'' @ hex_of (take 2 (drop 8 b)) @ ''-'' @ hex_of (drop 10 b)"

definition std_parse :: "string \<Rightarrow> bytes" where
  "std_parse s =
     (let h = filter (\<lambda>c. c \<noteq> CHR ''-'') s
      in if length h = 32 then of_hex h else replicate 16 (CHR 0x00))"

definition std_uuids :: uuids where
  "std_uuids = \<lparr>uu_parse = std_parse, uu_string = std_string\<rparr>"

lemma octet_nibbles:
  fixes b :: char
  shows "0 \<le> (of_char b :: int) div 16" "(of_char b :: int) div 16 < 16" "0 \<le> (of_char b :: int) mod 16" "(of_char b :: int) mod 16 < 16"
  using of_char_bounds [of b] by simp_all

lemma nibble_val_char: "0 \<le> n \<Longrightarrow> n < 16 \<Longrightarrow> nibble_val (nibble_char n) = n \<and> nibble_char n \<noteq> CHR ''-''"
proof -
  assume a: "0 \<le> n" "n < 16"
  then have "n \<in> set [0, 1, 2, 3, 4, 5, 6, 7, 8, 9, 10, 11, 12, 13, 14, 15]" by (simp, arith)
  moreover have "list_all (\<lambda>n. nibble_val (nibble_char n) = n \<and> nibble_char n \<noteq> CHR ''-'')
      [0, 1, 2, 3, 4, 5, 6, 7, 8, 9, 10, 11, 12, 13, 14, 15]" by code_simp
  ultimately show ?thesis by (auto simp: list_all_iff)
qed

lemma of_hex_hex_of: "of_hex (hex_of bs) = bs"
  by (induction bs) (simp_all add: nibble_val_char octet_nibbles)

lemma hex_of_append: "hex_of (xs @ ys) = hex_of xs @ hex_of ys"
  by (induction xs) simp_all

lemma length_hex_of: "length (hex_of bs) = 2 * length bs"
  by (induction bs) simp_all

lemma length_of_hex: "length (of_hex s) = length s div 2"
  by (induction s rule: of_hex.induct) simp_all

lemma filter_hex_of: "filter (\<lambda>c. c \<noteq> CHR ''-'') (hex_of bs) = hex_of bs"
  by (induction bs) (simp_all add: nibble_val_char octet_nibbles)

lemma std_parse_string:
  assumes "length b = 16"
  shows "std_parse (std_string b) = b"
proof -
  have "hex_of b = hex_of (take 4 b) @ hex_of (drop 4 b)"
    by (simp only: hex_of_append [symmetric] append_take_drop_id)
  also have "hex_of (drop 4 b) = hex_of (take 2 (drop 4 b)) @ hex_of (drop 6 b)"
    using append_take_drop_id [of 2 "drop 4 b"] by (simp add: hex_of_append [symmetric])
  also have "hex_of (drop 6 b) = hex_of (take 2 (drop 6 b)) @ hex_of (drop 8 b)"
    using append_take_drop_id [of 2 "drop 6 b"] by (simp add: hex_of_append [symmetric])
  also have "hex_of (drop 8 b) = hex_of (take 2 (drop 8 b)) @ hex_of (drop 10 b)"
    using append_take_drop_id [of 2 "drop 8 b"] by (simp add: hex_of_append [symmetric])
  finally have "filter (\<lambda>c. c \<noteq> CHR ''-'') (std_string b) = hex_of b"
    by (simp add: std_string_def filter_hex_of)
  with assms show ?thesis by (simp add: std_parse_def length_hex_of of_hex_hex_of)
qed

lemma length_std_parse: "length (std_parse s) = 16"
  by (simp add: std_parse_def Let_def length_of_hex)

interpretation std: uuid_lib std_uuids
  by unfold_locales (simp_all add: std_uuids_def std_parse_string length_std_parse)

section \<open>Properties\<close>

text \<open>C25 The multi-client header is lossless: parsing what was wrapped for a client gives back that
  client, the frame's type and its bytes, the header adds seventeen bytes, and a frame whose header
  parses is exactly what wrapping its parts gives.\<close>
theorem multi_client_frames_roundtrip:
  assumes "uuid_lib uu" "uu_string uu (uu_parse uu clientID) = clientID"
  shows "ParseMultiClientHeader uu (WrapMultiClientFrame uu clientID t data) = Some (clientID, t, data)
    \<and> length (WrapMultiClientFrame uu clientID t data) = MCHeaderSize + length data
    \<and> (case ParseMultiClientHeader uu raw of None \<Rightarrow> True | Some (c, ty, payload) \<Rightarrow> WrapMultiClientFrame uu c ty payload = raw)"
  using uuid_lib.parse_wrap [OF assms(1), of clientID t data] uuid_lib.length_wrap [OF assms(1)]
    uuid_lib.wrap_parse [OF assms(1), of raw] assms(2) by (auto split: option.splits prod.splits)

theorem multi_client_frames_roundtrip_witness:
  "ParseMultiClientHeader std_uuids (WrapMultiClientFrame std_uuids ''00010203-0405-0607-0809-0a0b0c0d0eff'' MessageText ''hi'')
   = Some (''00010203-0405-0607-0809-0a0b0c0d0eff'', MessageText, ''hi'')"
proof -
  have "uu_string std_uuids (uu_parse std_uuids ''00010203-0405-0607-0809-0a0b0c0d0eff'') = ''00010203-0405-0607-0809-0a0b0c0d0eff''"
    by code_simp
  from multi_client_frames_roundtrip [OF std.uuid_lib_axioms this] show ?thesis by blast
qed

end
