(* ===== verification/Manager.thy ===== *)
theory Manager
  imports Registry Ratelimit Buffer Store Frame
begin

text \<open>
  \<open>internal/connections/connections.go\<close>: the manager that pairs websockets and relays frames
  between them. A \<open>*Conn\<close> is an address of an explicit heap, because connections are shared
  between the goroutine that serves them, the manager's map and the groups. Each method is a
  state transformer over the manager, its backends and the log of websocket calls \<open>m_out\<close>;
  a \<open>go\<close> statement that only writes or closes is logged where it is started.
\<close>

section \<open>State\<close>

record conn =
  c_ID :: string
  c_Username :: string
  c_IsServer :: bool
  c_MultiClient :: bool
  c_ClientID :: string
  c_PendingWrites :: int

definition maxPendingWrites :: int where
  "maxPendingWrites = 100"

text \<open>\<open>id\<close> is the result of \<open>uuid.NewString()\<close>.\<close>
definition NewConn :: "string \<Rightarrow> conn" where
  "NewConn uid = \<lparr>c_ID = uid, c_Username = [], c_IsServer = False, c_MultiClient = False,
     c_ClientID = [], c_PendingWrites = 0\<rparr>"

datatype RegistrationResult = Registered | UsernameTaken | InvalidUsername

primrec result_text :: "RegistrationResult \<Rightarrow> string" where
  "result_text Registered = ''registered''"
| "result_text UsernameTaken = ''username_taken''"
| "result_text InvalidUsername = ''invalid_username''"

record ConnectionResult =
  cr_Status :: string
  cr_ServerWS :: "cref option"
  cr_ClientID :: string

record mc_group =
  g_serverConn :: cref
  g_clients :: "string \<rightharpoonup> cref"

text \<open>The manager with the state of its backends, the heap and the log of websocket calls. The
  limiter's and the buffer's keys in Redis have prefixes of their own, so their Redis state is
  kept apart from the store's.\<close>
record ('s, 'd, 'r) manager =
  m_heap :: "cref \<Rightarrow> conn"
  m_store :: 's
  m_conns :: "string \<rightharpoonup> cref"
  m_multiGroups :: "string \<rightharpoonup> mc_group"
  m_db :: 'd
  m_limiter :: "'r limiter option"
  m_buffer :: "'r buffer option"
  m_redis :: 'r
  m_out :: "effect list"

text \<open>What the manager calls: a store, a database, the UUID library, the runtime's map order.\<close>
record ('s, 'd) backend =
  b_store :: "'s store_ops"
  b_sql :: "'d sql_exec"
  b_uuids :: uuids
  b_order :: "string set \<Rightarrow> string list"

text \<open>What one operation reads from its surroundings: the clock, for the registry, for the
  limiter's two paths, for the buffer and for tokens, and fresh UUIDs.\<close>
record readings =
  at_reg :: int
  at_redis :: int
  at_mem :: int
  at_buf :: int
  at_validate :: int
  at_issue :: int
  new_clientID :: string
  new_pairID :: string

type_synonym ('s, 'd, 'r, 'a) relay = "(('s, 'd, 'r) manager, 'a) state"

section \<open>Reading and writing the parts\<close>

definition fetch :: "(('s, 'd, 'r) manager \<Rightarrow> 'a) \<Rightarrow> ('s, 'd, 'r, 'a) relay" where
  "fetch f = State (\<lambda>m. (f m, m))"

definition modify :: "(('s, 'd, 'r) manager \<Rightarrow> ('s, 'd, 'r) manager) \<Rightarrow> ('s, 'd, 'r, unit) relay" where
  "modify f = State (\<lambda>m. ((), f m))"

definition on_store :: "('s, 'a) state \<Rightarrow> ('s, 'd, 'r, 'a) relay" where
  "on_store op = State (\<lambda>m. case run_state op (m_store m) of (r, s) \<Rightarrow> (r, m\<lparr>m_store := s\<rparr>))"

definition on_db :: "('d, 'a) state \<Rightarrow> ('s, 'd, 'r, 'a) relay" where
  "on_db op = State (\<lambda>m. case run_state op (m_db m) of (r, d) \<Rightarrow> (r, m\<lparr>m_db := d\<rparr>))"

definition on_redis :: "('r, 'a) state \<Rightarrow> ('s, 'd, 'r, 'a) relay" where
  "on_redis op = State (\<lambda>m. case run_state op (m_redis m) of (r, s) \<Rightarrow> (r, m\<lparr>m_redis := s\<rparr>))"

definition emit :: "effect \<Rightarrow> ('s, 'd, 'r, unit) relay" where
  "emit e = modify (\<lambda>m. m\<lparr>m_out := m_out m @ [e]\<rparr>)"

definition upd_conn :: "cref \<Rightarrow> (conn \<Rightarrow> conn) \<Rightarrow> ('s, 'd, 'r, unit) relay" where
  "upd_conn p f = modify (\<lambda>m. m\<lparr>m_heap := (m_heap m)(p := f (m_heap m p))\<rparr>)"

definition conns_put :: "string \<Rightarrow> cref \<Rightarrow> ('s, 'd, 'r, unit) relay" where
  "conns_put i p = modify (\<lambda>m. m\<lparr>m_conns := (m_conns m)(i \<mapsto> p)\<rparr>)"

definition conns_delete :: "string \<Rightarrow> ('s, 'd, 'r, unit) relay" where
  "conns_delete i = modify (\<lambda>m. m\<lparr>m_conns := map_delete (m_conns m) i\<rparr>)"

definition groups_put :: "string \<Rightarrow> mc_group \<Rightarrow> ('s, 'd, 'r, unit) relay" where
  "groups_put u g = modify (\<lambda>m. m\<lparr>m_multiGroups := (m_multiGroups m)(u \<mapsto> g)\<rparr>)"

definition groups_delete :: "string \<Rightarrow> ('s, 'd, 'r, unit) relay" where
  "groups_delete u = modify (\<lambda>m. m\<lparr>m_multiGroups := map_delete (m_multiGroups m) u\<rparr>)"

fun for_each :: "('a \<Rightarrow> ('s, 'd, 'r, unit) relay) \<Rightarrow> 'a list \<Rightarrow> ('s, 'd, 'r, unit) relay" where
  "for_each f [] = State_Monad.return ()"
| "for_each f (x # xs) = do { _ \<leftarrow> f x; for_each f xs }"

section \<open>Construction\<close>

text \<open>\<open>WithLimiter\<close> and \<open>WithBuffer\<close>.\<close>
datatype 'r manager_option = WithLimiter "'r limiter option" | WithBuffer "'r buffer option"

fun apply_option :: "'r manager_option \<Rightarrow> ('s, 'd, 'r) manager \<Rightarrow> ('s, 'd, 'r) manager" where
  "apply_option (WithLimiter l) m = m\<lparr>m_limiter := l\<rparr>"
| "apply_option (WithBuffer b) m = m\<lparr>m_buffer := b\<rparr>"

definition NewManager :: "'d \<Rightarrow> 's \<Rightarrow> 'r \<Rightarrow> (cref \<Rightarrow> conn) \<Rightarrow> 'r manager_option list \<Rightarrow> ('s, 'd, 'r) manager" where
  "NewManager db st rs heap opts =
     foldl (\<lambda>m opt. apply_option opt m)
       \<lparr>m_heap = heap, m_store = st, m_conns = Map.empty, m_multiGroups = Map.empty, m_db = db,
        m_limiter = None, m_buffer = None, m_redis = rs, m_out = []\<rparr> opts"

section \<open>Writing to a connection\<close>

definition sendControl :: "cref \<Rightarrow> json \<Rightarrow> ('s, 'd, 'r, unit) relay" where
  "sendControl p msg = emit (Write p MessageText (json_render msg))"

text \<open>\<open>writeToConn\<close> in two halves, because \<open>WS.Write\<close> may take long and other goroutines write to
  the same connection meanwhile: the first half counts the write and decides, the second is the
  deferred decrement once the write has returned. \<open>True\<close> means the write was issued. Only the writes of
  \<open>writeToConn\<close> are counted: \<open>sendControl\<close>, which also sends the backpressure message, and the handler's
  \<open>sendJSON\<close> write to connections without looking at the counter.\<close>
definition write_begin :: "cref \<Rightarrow> cref \<Rightarrow> msg_type \<Rightarrow> bytes \<Rightarrow> ('s, 'd, 'r, bool) relay" where
  "write_begin target sender msgType data = do {
     _ \<leftarrow> upd_conn target (\<lambda>c. c\<lparr>c_PendingWrites := c_PendingWrites c + 1\<rparr>);
     pending \<leftarrow> fetch (\<lambda>m. c_PendingWrites (m_heap m target));
     if pending > maxPendingWrites
     then do {
       _ \<leftarrow> sendControl sender (json_of_RelayBackpressure (NewRelayBackpressure ''slow_peer''));
       State_Monad.return False
     }
     else do {
       _ \<leftarrow> emit (Write target msgType data);
       State_Monad.return True
     }
   }"

definition write_end :: "cref \<Rightarrow> ('s, 'd, 'r, unit) relay" where
  "write_end target = upd_conn target (\<lambda>c. c\<lparr>c_PendingWrites := c_PendingWrites c + (- 1)\<rparr>)"

definition writeToConn :: "cref \<Rightarrow> cref \<Rightarrow> msg_type \<Rightarrow> bytes \<Rightarrow> ('s, 'd, 'r, unit) relay" where
  "writeToConn target sender msgType data = do {
     _ \<leftarrow> write_begin target sender msgType data;
     write_end target
   }"

section \<open>Registering and connecting\<close>

text \<open>The critical section of \<open>RegisterServer\<close>: the connection becomes the waiting one of the username, and
  the one it replaces is forgotten and handed back to be closed.\<close>
definition enter_waiting :: "('s, 'd) backend \<Rightarrow> cref \<Rightarrow> string \<Rightarrow> ('s, 'd, 'r, cref option) relay" where
  "enter_waiting B p username = do {
     connID \<leftarrow> fetch (\<lambda>m. c_ID (m_heap m p));
     _ \<leftarrow> conns_put connID p;
     (evictedID, _) \<leftarrow> on_store (SetWaiting (b_store B) username connID);
     if evictedID \<noteq> [] then do {
       c \<leftarrow> fetch (\<lambda>m. m_conns m evictedID);
       _ \<leftarrow> conns_delete evictedID;
       State_Monad.return c
     }
     else State_Monad.return None
   }"

text \<open>The calls made for an evicted connection, if there was one.\<close>
definition eviction :: "cref option \<Rightarrow> effect list" where
  "eviction evictedConn =
     (case evictedConn of None \<Rightarrow> [] | Some e \<Rightarrow> [Close e StatusNormalClosure ''Replaced by new connection''])"

definition RegisterServer ::
  "('s, 'd) backend \<Rightarrow> readings \<Rightarrow> cref \<Rightarrow> string \<Rightarrow> string \<Rightarrow> ('s, 'd, 'r, RegistrationResult) relay" where
  "RegisterServer B rd p username installID =
     (if \<not> IsValidUsername username then State_Monad.return InvalidUsername
      else do {
        can \<leftarrow> on_db (CanRegister (b_sql B) username installID);
        if \<not> can then State_Monad.return UsernameTaken
        else do {
          ok \<leftarrow> on_db (Register (b_sql B) (at_reg rd) username installID);
          if \<not> ok then State_Monad.return UsernameTaken
          else do {
            evictedConn \<leftarrow> enter_waiting B p username;
            _ \<leftarrow> for_each emit (eviction evictedConn);
            State_Monad.return Registered
          }
        }
      })"

definition join_group :: "string \<Rightarrow> cref \<Rightarrow> string \<Rightarrow> cref \<Rightarrow> ('s, 'd, 'r, unit) relay" where
  "join_group username serverConn clientID p = do {
     found \<leftarrow> fetch (\<lambda>m. m_multiGroups m username);
     let group = (case found of
         None \<Rightarrow> \<lparr>g_serverConn = serverConn, g_clients = Map.empty\<rparr>
       | Some g \<Rightarrow> g);
     groups_put username (group\<lparr>g_clients := (g_clients group)(clientID \<mapsto> p)\<rparr>)
   }"

definition refused :: "string \<Rightarrow> ConnectionResult" where
  "refused status = \<lparr>cr_Status = status, cr_ServerWS = None, cr_ClientID = []\<rparr>"

text \<open>The critical section of \<open>ConnectClient\<close> and what it comes to: no server, a place in the group of a
  multi-client server under a fresh client id, or a pair with the server that waited.\<close>
datatype attachment = NoServer | Joined cref string | Paired cref

definition attach :: "('s, 'd) backend \<Rightarrow> readings \<Rightarrow> cref \<Rightarrow> string \<Rightarrow> ('s, 'd, 'r, attachment) relay" where
  "attach B rd p username = do {
     w \<leftarrow> on_store (GetWaiting (b_store B) username);
     case w of
       None \<Rightarrow> State_Monad.return NoServer
     | Some serverConnID \<Rightarrow> do {
         sc \<leftarrow> fetch (\<lambda>m. m_conns m serverConnID);
         case sc of
           None \<Rightarrow> do {
             _ \<leftarrow> on_store (RemoveWaiting (b_store B) username serverConnID);
             State_Monad.return NoServer
           }
         | Some serverConn \<Rightarrow> do {
             multi \<leftarrow> fetch (\<lambda>m. c_MultiClient (m_heap m serverConn));
             connID \<leftarrow> fetch (\<lambda>m. c_ID (m_heap m p));
             if multi then do {
               let clientID = new_clientID rd;
               _ \<leftarrow> upd_conn p (\<lambda>c. c\<lparr>c_ClientID := clientID, c_Username := username\<rparr>);
               _ \<leftarrow> join_group username serverConn clientID p;
               _ \<leftarrow> conns_put connID p;
               State_Monad.return (Joined serverConn clientID)
             }
             else do {
               _ \<leftarrow> conns_put connID p;
               _ \<leftarrow> on_store (CreatePair (b_store B) serverConnID connID username (new_pairID rd));
               State_Monad.return (Paired serverConn)
             }
           }
       }
   }"

definition ConnectClient ::
  "('s, 'd) backend \<Rightarrow> readings \<Rightarrow> cref \<Rightarrow> string \<Rightarrow> string \<Rightarrow> ('s, 'd, 'r, ConnectionResult) relay" where
  "ConnectClient B rd p username clientID = do {
     known \<leftarrow> on_db (IsRegistered (b_sql B) username);
     if \<not> known then State_Monad.return (refused ''unknown_username'')
     else do {
       a \<leftarrow> attach B rd p username;
       case a of
         NoServer \<Rightarrow> State_Monad.return (refused ''server_offline'')
       | Joined serverConn clientID \<Rightarrow> do {
           _ \<leftarrow> sendControl serverConn (json_of_RelayClientJoined (NewRelayClientJoined clientID));
           _ \<leftarrow> on_db (UpdateLastSeen (b_sql B) (at_reg rd) username);
           State_Monad.return \<lparr>cr_Status = ''connected'', cr_ServerWS = Some serverConn, cr_ClientID = clientID\<rparr>
         }
       | Paired serverConn \<Rightarrow> do {
           _ \<leftarrow> on_db (UpdateLastSeen (b_sql B) (at_reg rd) username);
           State_Monad.return \<lparr>cr_Status = ''connected'', cr_ServerWS = Some serverConn, cr_ClientID = []\<rparr>
         }
     }
   }"

section \<open>Forwarding\<close>

definition forwardFromClient :: "('s, 'd) backend \<Rightarrow> cref \<Rightarrow> msg_type \<Rightarrow> bytes \<Rightarrow> ('s, 'd, 'r, unit) relay" where
  "forwardFromClient B client msgType data = do {
     c \<leftarrow> fetch (\<lambda>m. m_heap m client);
     group \<leftarrow> fetch (\<lambda>m. m_multiGroups m (c_Username c));
     case group of
       None \<Rightarrow> State_Monad.return ()
     | Some g \<Rightarrow>
         writeToConn (g_serverConn g) client MessageBinary
           (WrapMultiClientFrame (b_uuids B) (c_ClientID c) msgType data)
   }"

definition broadcast :: "('s, 'd) backend \<Rightarrow> cref \<Rightarrow> msg_type \<Rightarrow> bytes \<Rightarrow> ('s, 'd, 'r, unit) relay" where
  "broadcast B server msgType data = do {
     group \<leftarrow> fetch (\<lambda>m. m_multiGroups m (c_Username (m_heap m server)));
     case group of
       None \<Rightarrow> State_Monad.return ()
     | Some g \<Rightarrow>
         for_each (\<lambda>client. writeToConn client server msgType data)
           (map_values (g_clients g) (b_order B (dom (g_clients g))))
   }"

definition forwardFromServer :: "('s, 'd) backend \<Rightarrow> cref \<Rightarrow> msg_type \<Rightarrow> bytes \<Rightarrow> ('s, 'd, 'r, unit) relay" where
  "forwardFromServer B server msgType data =
     (case (if msgType = MessageBinary then ParseMultiClientHeader (b_uuids B) data else None) of
        Some (clientID, origType, payload) \<Rightarrow> do {
          group \<leftarrow> fetch (\<lambda>m. m_multiGroups m (c_Username (m_heap m server)));
          case group of
            None \<Rightarrow> State_Monad.return ()
          | Some g \<Rightarrow>
              (case g_clients g clientID of
                 None \<Rightarrow> State_Monad.return ()
               | Some client \<Rightarrow> writeToConn client server origType payload)
        }
      | None \<Rightarrow> broadcast B server msgType data)"

definition allow_message :: "readings \<Rightarrow> string \<Rightarrow> ('s, 'd, 'r, bool) relay" where
  "allow_message rd connID = State (\<lambda>m.
     case m_limiter m of
       None \<Rightarrow> (True, m)
     | Some l \<Rightarrow>
         (case AllowMessage (at_redis rd) (at_mem rd) connID l (m_redis m) of
            (ok, l', s) \<Rightarrow> (ok, m\<lparr>m_limiter := Some l', m_redis := s\<rparr>)))"

definition forwardPair :: "('s, 'd) backend \<Rightarrow> readings \<Rightarrow> cref \<Rightarrow> msg_type \<Rightarrow> bytes \<Rightarrow> ('s, 'd, 'r, unit) relay" where
  "forwardPair B rd sender msgType data = do {
     c \<leftarrow> fetch (\<lambda>m. m_heap m sender);
     peer \<leftarrow> on_store (GetPeer (b_store B) (c_ID c));
     case peer of
       None \<Rightarrow> State_Monad.return ()
     | Some peerID \<Rightarrow> do {
         target \<leftarrow> fetch (\<lambda>m. m_conns m peerID);
         case target of
           None \<Rightarrow> State_Monad.return ()
         | Some t \<Rightarrow> do {
             _ \<leftarrow> writeToConn t sender msgType data;
             let direction = (if c_IsServer c then ''s2c'' else ''c2s'');
             buf \<leftarrow> fetch m_buffer;
             on_redis (Push buf (at_buf rd) (c_Username c) direction (msg_type_int msgType) data)
           }
       }
   }"

definition Forward :: "('s, 'd) backend \<Rightarrow> readings \<Rightarrow> cref \<Rightarrow> msg_type \<Rightarrow> bytes \<Rightarrow> ('s, 'd, 'r, unit) relay" where
  "Forward B rd sender msgType data = do {
     c \<leftarrow> fetch (\<lambda>m. m_heap m sender);
     ok \<leftarrow> allow_message rd (c_ID c);
     if \<not> ok then State_Monad.return ()
     else if c_ClientID c \<noteq> [] then forwardFromClient B sender msgType data
     else if c_MultiClient c \<and> c_Username c \<noteq> [] then forwardFromServer B sender msgType data
     else forwardPair B rd sender msgType data
   }"

section \<open>Closing\<close>

text \<open>The critical section of \<open>HandleClose\<close> in three branches. Each answers what \<open>HandleClose\<close> returns and the
  websocket calls to make once the mutex is released. The two multi-client branches fall through when
  there is no group.\<close>
definition close_pair :: "('s, 'd) backend \<Rightarrow> cref \<Rightarrow> ('s, 'd, 'r, bool \<times> effect list) relay" where
  "close_pair B p = do {
     c \<leftarrow> fetch (\<lambda>m. m_heap m p);
     waitingGone \<leftarrow> (if c_Username c \<noteq> [] then on_store (RemoveWaiting (b_store B) (c_Username c) (c_ID c))
                     else State_Monad.return False);
     if waitingGone then do {
       _ \<leftarrow> conns_delete (c_ID c);
       State_Monad.return (False, [])
     }
     else do {
       peer \<leftarrow> on_store (RemovePair (b_store B) (c_ID c));
       _ \<leftarrow> conns_delete (c_ID c);
       case peer of
         None \<Rightarrow> State_Monad.return (False, [])
       | Some peerID \<Rightarrow> do {
           peerConn \<leftarrow> fetch (\<lambda>m. m_conns m peerID);
           _ \<leftarrow> conns_delete peerID;
           State_Monad.return (True, case peerConn of
               None \<Rightarrow> []
             | Some q \<Rightarrow> [Close q StatusNormalClosure ''Peer disconnected''])
         }
     }
   }"

definition close_group :: "('s, 'd) backend \<Rightarrow> cref \<Rightarrow> mc_group \<Rightarrow> ('s, 'd, 'r, bool \<times> effect list) relay" where
  "close_group B p g = do {
     c \<leftarrow> fetch (\<lambda>m. m_heap m p);
     let clients = map_values (g_clients g) (b_order B (dom (g_clients g)));
     _ \<leftarrow> for_each (\<lambda>q. do { i \<leftarrow> fetch (\<lambda>m. c_ID (m_heap m q)); conns_delete i }) clients;
     _ \<leftarrow> groups_delete (c_Username c);
     _ \<leftarrow> on_store (RemoveWaiting (b_store B) (c_Username c) (c_ID c));
     _ \<leftarrow> conns_delete (c_ID c);
     State_Monad.return (True, map (\<lambda>q. Close q StatusNormalClosure ''Server disconnected'') clients)
   }"

definition leave_group :: "cref \<Rightarrow> mc_group \<Rightarrow> ('s, 'd, 'r, bool \<times> effect list) relay" where
  "leave_group p g = do {
     c \<leftarrow> fetch (\<lambda>m. m_heap m p);
     let rest = map_delete (g_clients g) (c_ClientID c);
     _ \<leftarrow> groups_put (c_Username c) (g\<lparr>g_clients := rest\<rparr>);
     _ \<leftarrow> conns_delete (c_ID c);
     _ \<leftarrow> (if map_len rest = 0 then groups_delete (c_Username c) else State_Monad.return ());
     State_Monad.return (False,
       [Write (g_serverConn g) MessageText (json_render (json_of_RelayClientLeft (NewRelayClientLeft (c_ClientID c))))])
   }"

definition detach :: "('s, 'd) backend \<Rightarrow> cref \<Rightarrow> ('s, 'd, 'r, bool \<times> effect list) relay" where
  "detach B p = do {
     c \<leftarrow> fetch (\<lambda>m. m_heap m p);
     group \<leftarrow> fetch (\<lambda>m. m_multiGroups m (c_Username c));
     case group of
       Some g \<Rightarrow>
         if c_ClientID c \<noteq> [] then leave_group p g
         else if c_MultiClient c \<and> c_Username c \<noteq> [] then close_group B p g
         else close_pair B p
     | None \<Rightarrow> close_pair B p
   }"

definition HandleClose :: "('s, 'd) backend \<Rightarrow> cref \<Rightarrow> ('s, 'd, 'r, bool) relay" where
  "HandleClose B p = do {
     (pairBroken, calls) \<leftarrow> detach B p;
     _ \<leftarrow> for_each emit calls;
     State_Monad.return pairBroken
   }"

definition CloseAll :: "('s, 'd) backend \<Rightarrow> status_code \<Rightarrow> string \<Rightarrow> ('s, 'd, 'r, unit) relay" where
  "CloseAll B code reason = do {
     cs \<leftarrow> fetch m_conns;
     let conns = map_values cs (b_order B (dom cs));
     _ \<leftarrow> modify (\<lambda>m. m\<lparr>m_conns := Map.empty, m_multiGroups := Map.empty\<rparr>);
     for_each (\<lambda>c. emit (Close c code reason)) conns
   }"

section \<open>Queries\<close>

definition IsPaired :: "('s, 'd) backend \<Rightarrow> cref \<Rightarrow> ('s, 'd, 'r, bool) relay" where
  "IsPaired B p = do {
     c \<leftarrow> fetch (\<lambda>m. m_heap m p);
     group \<leftarrow> fetch (\<lambda>m. m_multiGroups m (c_Username c));
     if c_MultiClient c \<and> c_Username c \<noteq> []
        \<and> (case group of None \<Rightarrow> False | Some g \<Rightarrow> map_len (g_clients g) > 0)
     then State_Monad.return True
     else if c_ClientID c \<noteq> []
        \<and> (case group of None \<Rightarrow> False | Some g \<Rightarrow> g_clients g (c_ClientID c) \<noteq> None)
     then State_Monad.return True
     else on_store (Store_IsPaired (b_store B) (c_ID c))
   }"

definition IsWaiting :: "('s, 'd) backend \<Rightarrow> string \<Rightarrow> ('s, 'd, 'r, bool) relay" where
  "IsWaiting B username = on_store (Store_IsWaiting (b_store B) username)"

definition GetWaitingCount :: "('s, 'd) backend \<Rightarrow> ('s, 'd, 'r, int) relay" where
  "GetWaitingCount B = do {
     (w, _) \<leftarrow> on_store (Stats (b_store B));
     State_Monad.return w
   }"

definition GetPairCount :: "('s, 'd) backend \<Rightarrow> ('s, 'd, 'r, int) relay" where
  "GetPairCount B = do {
     groups \<leftarrow> fetch m_multiGroups;
     let multiPairs = foldl (\<lambda>n g. n + int (map_len (g_clients g))) 0
                        (map_values groups (b_order B (dom groups)));
     (_, storePairs) \<leftarrow> on_store (Stats (b_store B));
     State_Monad.return (storePairs + multiPairs)
   }"

definition GetWaitingUsernames :: "('s, 'd) backend \<Rightarrow> ('s, 'd, 'r, string list) relay" where
  "GetWaitingUsernames B = on_store (WaitingUsernames (b_store B))"

definition GetBufferedMessages :: "string \<Rightarrow> ('s, 'd, 'r, BufferedFrame list) relay" where
  "GetBufferedMessages username = do {
     buf \<leftarrow> fetch m_buffer;
     case buf of
       None \<Rightarrow> State_Monad.return []
     | Some b \<Rightarrow> do {
         frames \<leftarrow> on_redis (GetFrames (Some b) username);
         State_Monad.return (case frames of None \<Rightarrow> [] | Some fs \<Rightarrow> fs)
       }
   }"

definition ClearBuffer :: "string \<Rightarrow> ('s, 'd, 'r, unit) relay" where
  "ClearBuffer username = do {
     buf \<leftarrow> fetch m_buffer;
     case buf of
       None \<Rightarrow> State_Monad.return ()
     | Some b \<Rightarrow> on_redis (Clear (Some b) username)
   }"

end
