(* ===== verification/MemStore.thy ===== *)
theory MemStore
  imports Store
begin

text \<open>
  \<open>internal/connections/memstore.go\<close>: the in-memory store. Every method runs under the store's
  mutex, so each is one atomic step on the two maps. \<open>pairID\<close> is what \<open>uuid.NewString()\<close>
  returned; \<open>order\<close> is the iteration order of Go's map range.
\<close>

record mem_store =
  ms_waiting :: "string \<rightharpoonup> string"
  ms_peers :: "string \<rightharpoonup> string"

definition NewMemStore :: mem_store where
  "NewMemStore = \<lparr>ms_waiting = Map.empty, ms_peers = Map.empty\<rparr>"

definition mem_SetWaiting :: "string \<Rightarrow> string \<Rightarrow> (mem_store, string \<times> bool) state" where
  "mem_SetWaiting username connID = State (\<lambda>s.
     let evicted = map_get_str (ms_waiting s) username;
         s' = s\<lparr>ms_waiting := (ms_waiting s)(username \<mapsto> connID)\<rparr>
     in if evicted = connID then (([], False), s') else ((evicted, False), s'))"

definition mem_GetWaiting :: "string \<Rightarrow> (mem_store, string option) state" where
  "mem_GetWaiting username = State (\<lambda>s. (ms_waiting s username, s))"

definition mem_RemoveWaiting :: "string \<Rightarrow> string \<Rightarrow> (mem_store, bool) state" where
  "mem_RemoveWaiting username connID = State (\<lambda>s.
     if map_get_str (ms_waiting s) username = connID
     then (True, s\<lparr>ms_waiting := map_delete (ms_waiting s) username\<rparr>)
     else (False, s))"

definition mem_CreatePair :: "string \<Rightarrow> string \<Rightarrow> string \<Rightarrow> string \<Rightarrow> (mem_store, string \<times> bool) state" where
  "mem_CreatePair serverConnID clientConnID username pairID = State (\<lambda>s.
     ((pairID, False),
      s\<lparr>ms_waiting := map_delete (ms_waiting s) username,
        ms_peers := (ms_peers s)(serverConnID \<mapsto> clientConnID, clientConnID \<mapsto> serverConnID)\<rparr>))"

definition mem_GetPeer :: "string \<Rightarrow> (mem_store, string option) state" where
  "mem_GetPeer connID = State (\<lambda>s. (ms_peers s connID, s))"

definition mem_RemovePair :: "string \<Rightarrow> (mem_store, string option) state" where
  "mem_RemovePair connID = State (\<lambda>s.
     case ms_peers s connID of
       None \<Rightarrow> (None, s)
     | Some peer \<Rightarrow> (Some peer, s\<lparr>ms_peers := map_delete (map_delete (ms_peers s) connID) peer\<rparr>))"

definition mem_IsPaired :: "string \<Rightarrow> (mem_store, bool) state" where
  "mem_IsPaired connID = State (\<lambda>s. (ms_peers s connID \<noteq> None, s))"

definition mem_IsWaiting :: "string \<Rightarrow> (mem_store, bool) state" where
  "mem_IsWaiting username = State (\<lambda>s. (ms_waiting s username \<noteq> None, s))"

definition mem_Stats :: "(mem_store, int \<times> int) state" where
  "mem_Stats = State (\<lambda>s. ((int (map_len (ms_waiting s)), int (map_len (ms_peers s)) div 2), s))"

definition mem_GetWaitingUsernames :: "(string set \<Rightarrow> string list) \<Rightarrow> (mem_store, string list) state" where
  "mem_GetWaitingUsernames order = State (\<lambda>s. (order (dom (ms_waiting s)), s))"

definition memStore :: "(string set \<Rightarrow> string list) \<Rightarrow> mem_store store_ops" where
  "memStore order =
     \<lparr>SetWaiting = mem_SetWaiting, GetWaiting = mem_GetWaiting, RemoveWaiting = mem_RemoveWaiting,
      CreatePair = mem_CreatePair, GetPeer = mem_GetPeer, RemovePair = mem_RemovePair,
      Store_IsPaired = mem_IsPaired, Store_IsWaiting = mem_IsWaiting, Stats = mem_Stats,
      WaitingUsernames = mem_GetWaitingUsernames order\<rparr>"

lemmas memStore_defs = memStore_def mem_SetWaiting_def mem_GetWaiting_def mem_RemoveWaiting_def
  mem_CreatePair_def mem_GetPeer_def mem_RemovePair_def mem_IsPaired_def mem_IsWaiting_def mem_Stats_def
  mem_GetWaitingUsernames_def

text \<open>Go's maps are finite.\<close>
definition mem_finite :: "mem_store \<Rightarrow> bool" where
  "mem_finite s \<longleftrightarrow> finite (dom (ms_waiting s)) \<and> finite (dom (ms_peers s))"

lemma mem_finite_New [simp]: "mem_finite NewMemStore"
  by (simp add: mem_finite_def NewMemStore_def)

lemma memStore_store:
  assumes "range_order order"
  shows "store (memStore order) ms_waiting ms_peers mem_finite"
proof
  fix s u c
  assume f: "mem_finite s"
  show "result (SetWaiting (memStore order) u c) s = (evicted_by (ms_waiting s) u c, False)
      \<and> ms_waiting (after (SetWaiting (memStore order) u c) s) = (ms_waiting s)(u \<mapsto> c)
      \<and> ms_peers (after (SetWaiting (memStore order) u c) s) = ms_peers s
      \<and> mem_finite (after (SetWaiting (memStore order) u c) s)"
    using f by (simp add: memStore_defs evicted_by_def Let_def mem_finite_def)
next
  fix s :: mem_store and c u
  assume f: "mem_finite s" and c: "c \<noteq> ([] :: string)"
  have "map_get_str (ms_waiting s) u = c \<longleftrightarrow> ms_waiting s u = Some c"
    using c by (cases "ms_waiting s u") auto
  with f show "result (RemoveWaiting (memStore order) u c) s = (ms_waiting s u = Some c)
      \<and> ms_waiting (after (RemoveWaiting (memStore order) u c) s)
          = (if ms_waiting s u = Some c then map_delete (ms_waiting s) u else ms_waiting s)
      \<and> ms_peers (after (RemoveWaiting (memStore order) u c) s) = ms_peers s
      \<and> mem_finite (after (RemoveWaiting (memStore order) u c) s)"
    by (simp add: memStore_defs mem_finite_def)
next
  fix s
  assume f: "mem_finite s"
  then show "set (result (WaitingUsernames (memStore order)) s) = dom (ms_waiting s)
      \<and> distinct (result (WaitingUsernames (memStore order)) s)
      \<and> ms_waiting (after (WaitingUsernames (memStore order)) s) = ms_waiting s
      \<and> ms_peers (after (WaitingUsernames (memStore order)) s) = ms_peers s
      \<and> mem_finite (after (WaitingUsernames (memStore order)) s)"
    using range_orderD [OF assms] by (simp add: memStore_defs mem_finite_def)
qed (auto simp: memStore_defs mem_finite_def unpair_def split: option.splits)

interpretation mem: store "memStore sorted_order" ms_waiting ms_peers mem_finite
  by (rule memStore_store [OF range_order_sorted])

end
