(* ===== verification/RedisStore.thy ===== *)
theory RedisStore
  imports Redis MemStore
begin

text \<open>
  \<open>internal/connections/redisstore.go\<close>: the same interface on Redis. A Lua script is one atomic
  round trip whose body is its commands in order; a pipeline likewise (\<open>TxPipeline\<close>) or a list of
  commands. \<open>None\<close> of a round trip is the error of the client library; \<open>redis.Nil\<close> is the reply
  \<open>RNil\<close>. The interpretation at the end shows that on a service that completes its round trips
  and expires nothing in between, the store keeps the contract.
\<close>

section \<open>Keys\<close>

definition redisKeyPrefix :: string where
  "redisKeyPrefix = ''relay:''"

definition waitingPrefix :: string where
  "waitingPrefix = redisKeyPrefix @ ''waiting:''"

definition peerPrefix :: string where
  "peerPrefix = redisKeyPrefix @ ''peer:''"

definition waitingSetKey :: string where
  "waitingSetKey = redisKeyPrefix @ ''waiting_usernames''"

definition pairedSetKey :: string where
  "pairedSetKey = redisKeyPrefix @ ''paired_connids''"

text \<open>\<open>defaultRedisTTL\<close> (five minutes) in seconds.\<close>
definition defaultRedisTTL :: int where
  "defaultRedisTTL = 5 * 60"

lemmas redis_keys = redisKeyPrefix_def waitingPrefix_def peerPrefix_def waitingSetKey_def pairedSetKey_def

section \<open>Scripts\<close>

definition setWaitingScript :: "'r redis \<Rightarrow> string \<Rightarrow> string \<Rightarrow> string \<Rightarrow> int \<Rightarrow> string \<Rightarrow> ('r, string) state" where
  "setWaitingScript R key1 key2 connID ttl username = do {
     old \<leftarrow> call R (GET key1);
     _ \<leftarrow> call R (SETEX key1 connID ttl);
     _ \<leftarrow> call R (SADD key2 [username]);
     State_Monad.return (case old of
         RText v \<Rightarrow> if v = connID then [] else v
       | _ \<Rightarrow> [])
   }"

definition removeWaitingScript :: "'r redis \<Rightarrow> string \<Rightarrow> string \<Rightarrow> string \<Rightarrow> string \<Rightarrow> ('r, int) state" where
  "removeWaitingScript R key1 key2 connID username = do {
     cur \<leftarrow> call R (GET key1);
     if cur = RText connID
     then do {
       _ \<leftarrow> call R (DEL key1);
       _ \<leftarrow> call R (SREM key2 [username]);
       State_Monad.return 1
     }
     else State_Monad.return 0
   }"

definition removePairScript :: "'r redis \<Rightarrow> string \<Rightarrow> string \<Rightarrow> string \<Rightarrow> string \<Rightarrow> ('r, string) state" where
  "removePairScript R key1 key2 connID prefix = do {
     old \<leftarrow> call R (GET key1);
     (case old of
        RText peer \<Rightarrow> do {
          _ \<leftarrow> call R (DEL key1);
          _ \<leftarrow> call R (DEL (prefix @ peer));
          _ \<leftarrow> call R (SREM key2 [connID, peer]);
          State_Monad.return peer
        }
      | _ \<Rightarrow> State_Monad.return [])
   }"

section \<open>The methods\<close>

record 'r redis_store =
  rs_rdb :: "'r redis"
  rs_ttl :: int

definition NewRedisStore :: "'r redis \<Rightarrow> 'r redis_store" where
  "NewRedisStore rdb = \<lparr>rs_rdb = rdb, rs_ttl = defaultRedisTTL\<rparr>"

definition rds_SetWaiting :: "'r redis_store \<Rightarrow> string \<Rightarrow> string \<Rightarrow> ('r, string \<times> bool) state" where
  "rds_SetWaiting st username connID = do {
     r \<leftarrow> round_trip (rs_rdb st)
           (setWaitingScript (rs_rdb st) (waitingPrefix @ username) waitingSetKey connID (rs_ttl st) username);
     State_Monad.return (case r of None \<Rightarrow> ([], True) | Some old \<Rightarrow> (old, False))
   }"

definition rds_GetWaiting :: "'r redis_store \<Rightarrow> string \<Rightarrow> ('r, string option) state" where
  "rds_GetWaiting st username = do {
     r \<leftarrow> round_trip (rs_rdb st) (call (rs_rdb st) (GET (waitingPrefix @ username)));
     (case r of
        Some (RText val) \<Rightarrow> do {
          _ \<leftarrow> round_trip (rs_rdb st) (call (rs_rdb st) (EXPIRE (waitingPrefix @ username) (rs_ttl st)));
          State_Monad.return (Some val)
        }
      | _ \<Rightarrow> State_Monad.return None)
   }"

definition rds_RemoveWaiting :: "'r redis_store \<Rightarrow> string \<Rightarrow> string \<Rightarrow> ('r, bool) state" where
  "rds_RemoveWaiting st username connID = do {
     r \<leftarrow> round_trip (rs_rdb st)
           (removeWaitingScript (rs_rdb st) (waitingPrefix @ username) waitingSetKey connID username);
     State_Monad.return (r = Some 1)
   }"

definition rds_CreatePair :: "'r redis_store \<Rightarrow> string \<Rightarrow> string \<Rightarrow> string \<Rightarrow> string \<Rightarrow> ('r, string \<times> bool) state" where
  "rds_CreatePair st serverConnID clientConnID username pairID = do {
     r \<leftarrow> round_trip (rs_rdb st) (do {
       _ \<leftarrow> call (rs_rdb st) (DEL (waitingPrefix @ username));
       _ \<leftarrow> call (rs_rdb st) (SREM waitingSetKey [username]);
       _ \<leftarrow> call (rs_rdb st) (SETEX (peerPrefix @ serverConnID) clientConnID (rs_ttl st));
       _ \<leftarrow> call (rs_rdb st) (SETEX (peerPrefix @ clientConnID) serverConnID (rs_ttl st));
       call (rs_rdb st) (SADD pairedSetKey [serverConnID, clientConnID])
     });
     State_Monad.return (pairID, r = None)
   }"

definition rds_GetPeer :: "'r redis_store \<Rightarrow> string \<Rightarrow> ('r, string option) state" where
  "rds_GetPeer st connID = do {
     r \<leftarrow> round_trip (rs_rdb st) (call (rs_rdb st) (GET (peerPrefix @ connID)));
     (case r of
        Some (RText val) \<Rightarrow> do {
          _ \<leftarrow> round_trip (rs_rdb st) (do {
            _ \<leftarrow> call (rs_rdb st) (EXPIRE (peerPrefix @ connID) (rs_ttl st));
            call (rs_rdb st) (EXPIRE (peerPrefix @ val) (rs_ttl st))
          });
          State_Monad.return (Some val)
        }
      | _ \<Rightarrow> State_Monad.return None)
   }"

definition rds_RemovePair :: "'r redis_store \<Rightarrow> string \<Rightarrow> ('r, string option) state" where
  "rds_RemovePair st connID = do {
     r \<leftarrow> round_trip (rs_rdb st)
           (removePairScript (rs_rdb st) (peerPrefix @ connID) pairedSetKey connID peerPrefix);
     State_Monad.return (case r of
         None \<Rightarrow> None
       | Some peer \<Rightarrow> if peer = [] then None else Some peer)
   }"

definition exists_reply :: "redis_reply option \<Rightarrow> bool" where
  "exists_reply r = (case r of Some (RInt n) \<Rightarrow> n > 0 | _ \<Rightarrow> False)"

definition rds_IsPaired :: "'r redis_store \<Rightarrow> string \<Rightarrow> ('r, bool) state" where
  "rds_IsPaired st connID = do {
     r \<leftarrow> round_trip (rs_rdb st) (call (rs_rdb st) (EXISTS (peerPrefix @ connID)));
     State_Monad.return (exists_reply r)
   }"

definition rds_IsWaiting :: "'r redis_store \<Rightarrow> string \<Rightarrow> ('r, bool) state" where
  "rds_IsWaiting st username = do {
     r \<leftarrow> round_trip (rs_rdb st) (call (rs_rdb st) (EXISTS (waitingPrefix @ username)));
     State_Monad.return (exists_reply r)
   }"

definition count_reply :: "redis_reply option \<Rightarrow> int" where
  "count_reply r = (case r of Some (RInt n) \<Rightarrow> n | _ \<Rightarrow> 0)"

definition rds_Stats :: "'r redis_store \<Rightarrow> ('r, int \<times> int) state" where
  "rds_Stats st = do {
     w \<leftarrow> round_trip (rs_rdb st) (call (rs_rdb st) (SCARD waitingSetKey));
     p \<leftarrow> round_trip (rs_rdb st) (call (rs_rdb st) (SCARD pairedSetKey));
     State_Monad.return (count_reply w, count_reply p div 2)
   }"

definition rds_GetWaitingUsernames :: "'r redis_store \<Rightarrow> ('r, string list) state" where
  "rds_GetWaitingUsernames st = do {
     r \<leftarrow> round_trip (rs_rdb st) (call (rs_rdb st) (SMEMBERS waitingSetKey));
     State_Monad.return (case r of Some (RList names) \<Rightarrow> names | _ \<Rightarrow> [])
   }"

definition redisStore :: "'r redis_store \<Rightarrow> 'r store_ops" where
  "redisStore st =
     \<lparr>SetWaiting = rds_SetWaiting st, GetWaiting = rds_GetWaiting st, RemoveWaiting = rds_RemoveWaiting st,
      CreatePair = rds_CreatePair st, GetPeer = rds_GetPeer st, RemovePair = rds_RemovePair st,
      Store_IsPaired = rds_IsPaired st, Store_IsWaiting = rds_IsWaiting st, Stats = rds_Stats st,
      WaitingUsernames = rds_GetWaitingUsernames st\<rparr>"

section \<open>The contract on a calm service\<close>

lemma keys_inj [simp]:
  "waitingPrefix @ u = waitingPrefix @ v \<longleftrightarrow> u = v" "peerPrefix @ u = peerPrefix @ v \<longleftrightarrow> u = v"
  "waitingPrefix @ u \<noteq> peerPrefix @ v" "peerPrefix @ v \<noteq> waitingPrefix @ u"
  "waitingPrefix @ u \<noteq> waitingSetKey" "waitingPrefix @ u \<noteq> pairedSetKey"
  "peerPrefix @ u \<noteq> waitingSetKey" "peerPrefix @ u \<noteq> pairedSetKey"
  "waitingSetKey \<noteq> waitingPrefix @ u" "pairedSetKey \<noteq> waitingPrefix @ u"
  "waitingSetKey \<noteq> peerPrefix @ u" "pairedSetKey \<noteq> peerPrefix @ u"
  "waitingSetKey \<noteq> pairedSetKey" "pairedSetKey \<noteq> waitingSetKey"
  by (simp_all add: redis_keys)

text \<open>The routing state read off the key space.\<close>
definition ks_waiting :: "keyspace \<Rightarrow> (string \<rightharpoonup> string)" where
  "ks_waiting k = (\<lambda>u. strs k (waitingPrefix @ u))"

definition ks_peers :: "keyspace \<Rightarrow> (string \<rightharpoonup> string)" where
  "ks_peers k = (\<lambda>c. strs k (peerPrefix @ c))"

text \<open>The two sets of names are the domains of the two maps.\<close>
definition ks_inv :: "keyspace \<Rightarrow> bool" where
  "ks_inv k \<longleftrightarrow> fset (sets k waitingSetKey) = dom (ks_waiting k) \<and> fset (sets k pairedSetKey) = dom (ks_peers k)"

lemma ks_inv_empty [simp]: "ks_inv empty_keyspace"
  by (simp add: ks_inv_def ks_waiting_def ks_peers_def empty_keyspace_def)

context redis_calm
begin

definition skip where
  "skip s = snd (rd_net R s)"

lemma view_skip [simp]: "view (skip s) = view s"
  by (simp add: skip_def still)

lemma run_round_trip:
  "run_state (round_trip R body) s = (Some (result body (skip s)), after body (skip s))"
  using delivered [of s] by (cases "rd_net R s") (simp add: round_trip_def skip_def split_def)

lemma view_after_call: "view (after (call R c) s) = cmd_effect c (view s)"
  by (rule view_call)

lemma result_GET: "result (call R (GET k)) s = (case strs (view s) k of None \<Rightarrow> RNil | Some v \<Rightarrow> RText v)"
  using answer_call [of "GET k" s] by simp

lemma result_EXISTS: "result (call R (EXISTS k)) s = RInt (if strs (view s) k = None then 0 else 1)"
  using answer_call [of "EXISTS k" s] by simp

lemma result_SCARD: "result (call R (SCARD k)) s = RInt (int (fcard (sets (view s) k)))"
  using answer_call [of "SCARD k" s] by simp

lemma result_SMEMBERS:
  "\<exists>xs. result (call R (SMEMBERS k)) s = RList xs \<and> set xs = fset (sets (view s) k) \<and> distinct xs"
  using answer_call [of "SMEMBERS k" s] by (auto simp: fset_of_list.rep_eq [symmetric])

lemmas run_simps = redisStore_def run_round_trip split_def view_after_call result_GET result_EXISTS result_SCARD


lemma store_calm:
  assumes R: "rs_rdb st = R"
  shows "store (redisStore st) (\<lambda>s. ks_waiting (view s)) (\<lambda>s. ks_peers (view s)) (\<lambda>s. ks_inv (view s))"
proof
  fix s u c
  assume "ks_inv (view s)"
  then show "result (SetWaiting (redisStore st) u c) s = (evicted_by (ks_waiting (view s)) u c, False)
      \<and> ks_waiting (view (after (SetWaiting (redisStore st) u c) s)) = (ks_waiting (view s))(u \<mapsto> c)
      \<and> ks_peers (view (after (SetWaiting (redisStore st) u c) s)) = ks_peers (view s)
      \<and> ks_inv (view (after (SetWaiting (redisStore st) u c) s))"
    by (auto simp: run_simps R rds_SetWaiting_def setWaitingScript_def ks_inv_def ks_waiting_def ks_peers_def
        evicted_by_def map_get_str_def fun_eq_iff split: option.splits)
next
  fix s u
  assume "ks_inv (view s)"
  then show "result (GetWaiting (redisStore st) u) s = ks_waiting (view s) u
      \<and> ks_waiting (view (after (GetWaiting (redisStore st) u) s)) = ks_waiting (view s)
      \<and> ks_peers (view (after (GetWaiting (redisStore st) u) s)) = ks_peers (view s)
      \<and> ks_inv (view (after (GetWaiting (redisStore st) u) s))"
    by (auto simp: run_simps R rds_GetWaiting_def ks_waiting_def ks_peers_def split: option.splits)
next
  fix s u and c :: string
  assume "ks_inv (view s)" "c \<noteq> []"
  then show "result (RemoveWaiting (redisStore st) u c) s = (ks_waiting (view s) u = Some c)
      \<and> ks_waiting (view (after (RemoveWaiting (redisStore st) u c) s))
          = (if ks_waiting (view s) u = Some c then map_delete (ks_waiting (view s)) u else ks_waiting (view s))
      \<and> ks_peers (view (after (RemoveWaiting (redisStore st) u c) s)) = ks_peers (view s)
      \<and> ks_inv (view (after (RemoveWaiting (redisStore st) u c) s))"
    by (auto simp: run_simps R rds_RemoveWaiting_def removeWaitingScript_def ks_inv_def ks_waiting_def ks_peers_def
        fun_eq_iff split: option.splits if_splits)
next
  fix s a b u pairID
  assume "ks_inv (view s)"
  then show "result (CreatePair (redisStore st) a b u pairID) s = (pairID, False)
      \<and> ks_waiting (view (after (CreatePair (redisStore st) a b u pairID) s)) = map_delete (ks_waiting (view s)) u
      \<and> ks_peers (view (after (CreatePair (redisStore st) a b u pairID) s)) = (ks_peers (view s))(a \<mapsto> b, b \<mapsto> a)
      \<and> ks_inv (view (after (CreatePair (redisStore st) a b u pairID) s))"
    by (auto simp: run_simps R rds_CreatePair_def ks_inv_def ks_waiting_def ks_peers_def fun_eq_iff
        split: if_splits)
next
  fix s c
  assume "ks_inv (view s)"
  then show "result (GetPeer (redisStore st) c) s = ks_peers (view s) c
      \<and> ks_waiting (view (after (GetPeer (redisStore st) c) s)) = ks_waiting (view s)
      \<and> ks_peers (view (after (GetPeer (redisStore st) c) s)) = ks_peers (view s)
      \<and> ks_inv (view (after (GetPeer (redisStore st) c) s))"
    by (auto simp: run_simps R rds_GetPeer_def ks_waiting_def ks_peers_def split: option.splits)
next
  fix s c
  assume "ks_inv (view s)" "ks_peers (view s) c \<noteq> Some []"
  then show "result (RemovePair (redisStore st) c) s = ks_peers (view s) c
      \<and> ks_waiting (view (after (RemovePair (redisStore st) c) s)) = ks_waiting (view s)
      \<and> ks_peers (view (after (RemovePair (redisStore st) c) s)) = unpair (ks_peers (view s)) c
      \<and> ks_inv (view (after (RemovePair (redisStore st) c) s))"
    by (auto simp: run_simps R rds_RemovePair_def removePairScript_def ks_inv_def ks_waiting_def ks_peers_def
        unpair_apply fun_eq_iff split: option.splits if_splits)
next
  fix s c
  assume "ks_inv (view s)"
  then show "result (Store_IsPaired (redisStore st) c) s = (ks_peers (view s) c \<noteq> None)
      \<and> ks_waiting (view (after (Store_IsPaired (redisStore st) c) s)) = ks_waiting (view s)
      \<and> ks_peers (view (after (Store_IsPaired (redisStore st) c) s)) = ks_peers (view s)
      \<and> ks_inv (view (after (Store_IsPaired (redisStore st) c) s))"
    by (simp add: run_simps R rds_IsPaired_def exists_reply_def ks_peers_def)
next
  fix s u
  assume "ks_inv (view s)"
  then show "result (Store_IsWaiting (redisStore st) u) s = (ks_waiting (view s) u \<noteq> None)
      \<and> ks_waiting (view (after (Store_IsWaiting (redisStore st) u) s)) = ks_waiting (view s)
      \<and> ks_peers (view (after (Store_IsWaiting (redisStore st) u) s)) = ks_peers (view s)
      \<and> ks_inv (view (after (Store_IsWaiting (redisStore st) u) s))"
    by (simp add: run_simps R rds_IsWaiting_def exists_reply_def ks_waiting_def)
next
  fix s
  assume "ks_inv (view s)"
  then show "result (Stats (redisStore st)) s = (int (map_len (ks_waiting (view s))), int (map_len (ks_peers (view s))) div 2)
      \<and> ks_waiting (view (after (Stats (redisStore st)) s)) = ks_waiting (view s)
      \<and> ks_peers (view (after (Stats (redisStore st)) s)) = ks_peers (view s)
      \<and> ks_inv (view (after (Stats (redisStore st)) s))"
    by (simp add: run_simps R rds_Stats_def count_reply_def ks_inv_def map_len_def fcard.rep_eq)
next
  fix s
  assume i: "ks_inv (view s)"
  obtain xs where xs: "result (call R (SMEMBERS waitingSetKey)) (skip s) = RList xs"
      "set xs = fset (sets (view (skip s)) waitingSetKey)" "distinct xs"
    using result_SMEMBERS by blast
  then show "set (result (WaitingUsernames (redisStore st)) s) = dom (ks_waiting (view s))
      \<and> distinct (result (WaitingUsernames (redisStore st)) s)
      \<and> ks_waiting (view (after (WaitingUsernames (redisStore st)) s)) = ks_waiting (view s)
      \<and> ks_peers (view (after (WaitingUsernames (redisStore st)) s)) = ks_peers (view s)
      \<and> ks_inv (view (after (WaitingUsernames (redisStore st)) s))"
    using i by (simp add: run_simps R rds_GetWaitingUsernames_def ks_inv_def)
qed

end

text \<open>So a calm service gives the contract of a store, seen through its key space.\<close>
sublocale redis_calm \<subseteq> calm: store "redisStore (NewRedisStore R)" "\<lambda>s. ks_waiting (view s)" "\<lambda>s. ks_peers (view s)" "\<lambda>s. ks_inv (view s)"
  by (rule store_calm) (simp add: NewRedisStore_def)

interpretation rds: store "redisStore (NewRedisStore ks_redis)" ks_waiting ks_peers ks_inv
  using ks.calm.store_axioms by simp

interpretation redis_mem: store_pair
  "redisStore (NewRedisStore ks_redis)" ks_waiting ks_peers ks_inv
  "memStore sorted_order" ms_waiting ms_peers mem_finite
  by unfold_locales

section \<open>Under faults\<close>

text \<open>Round trips that fail and keys that expire can hide an entry, never invent or change one.\<close>

context redis_server
begin

lemma GET_round_trip:
  assumes "run_state (round_trip R (call R (GET k))) s = (Some (RText v), s')"
  shows "strs (view s) k = Some v \<and> strs (view s') k = Some v \<and> expired (view s) (view s')"
proof -
  obtain s1 where s1: "expired (view s) (view s1)" "RText v = result (call R (GET k)) s1" "s' = after (call R (GET k)) s1"
    using round_trip_cases [OF assms] by auto
  have "strs (view s1) k = Some v"
    using answer_call [of "GET k" s1] s1(2) by (auto split: option.splits)
  moreover have "view s' = view s1" using view_call [of "GET k" s1] s1(3) by simp
  moreover have "strs (view s1) k = strs (view s) k \<or> strs (view s1) k = None"
    using s1(1) by (simp add: expired_def)
  ultimately show ?thesis using s1(1) by auto
qed

lemma GetWaiting_sound:
  assumes "rs_rdb st = R" "result (rds_GetWaiting st u) s = Some c"
  shows "ks_waiting (view s) u = Some c"
proof -
  obtain r s' where r: "run_state (round_trip R (call R (GET (waitingPrefix @ u)))) s = (r, s')" by force
  with assms have "r = Some (RText c)"
    by (auto simp: rds_GetWaiting_def split_def split: option.splits redis_reply.splits)
  with r GET_round_trip show ?thesis by (auto simp: ks_waiting_def)
qed

lemma GetPeer_sound:
  assumes "rs_rdb st = R" "result (rds_GetPeer st u) s = Some c"
  shows "ks_peers (view s) u = Some c"
proof -
  obtain r s' where r: "run_state (round_trip R (call R (GET (peerPrefix @ u)))) s = (r, s')" by force
  with assms have "r = Some (RText c)"
    by (auto simp: rds_GetPeer_def split_def split: option.splits redis_reply.splits)
  with r GET_round_trip show ?thesis by (auto simp: ks_peers_def)
qed

end

section \<open>The time to live of the waiting entry\<close>

context redis_timed
begin

lemma entered:
  assumes "rs_rdb st = R" "rs_ttl st = ttl" "run_state (rds_SetWaiting st u c) s = (r, s1)"
  shows "strs (view s1) (waitingPrefix @ u) = Some c" "deadline s1 (waitingPrefix @ u) = Some (clock s1 + 1000 * ttl)"
    "sets (view s1) waitingSetKey = finsert u (sets (view s) waitingSetKey)"
proof -
  define s0 where "s0 = snd (rd_net R s)"
  have s1: "s1 = snd (run_state (setWaitingScript R (waitingPrefix @ u) waitingSetKey c ttl u) s0)"
    using assms by (simp add: rds_SetWaiting_def round_trip_arrives split_def s0_def)
  have "sets (view s0) = sets (view s)" using net_expires [of s] by (simp add: s0_def expired_def)
  then show "strs (view s1) (waitingPrefix @ u) = Some c" "deadline s1 (waitingPrefix @ u) = Some (clock s1 + 1000 * ttl)"
    "sets (view s1) waitingSetKey = finsert u (sets (view s) waitingSetKey)"
    by (simp_all add: s1 setWaitingScript_def split_def view_call timed_call)
qed

lemma GetWaiting_timed:
  assumes "rs_rdb st = R" "strs (view s) (waitingPrefix @ u) = Some c" "deadline s (waitingPrefix @ u) = Some d"
  shows "result (rds_GetWaiting st u) s = (if clock (snd (rd_net R s)) < d then Some c else None)"
proof -
  define s0 where "s0 = snd (rd_net R s)"
  have "strs (view s0) (waitingPrefix @ u) = (if clock s0 < d then Some c else None)"
    using net_strs [of s "waitingPrefix @ u"] assms(2,3) by (simp add: s0_def not_less)
  then have "fst (run_state (call R (GET (waitingPrefix @ u))) s0) = (if clock s0 < d then RText c else RNil)"
    using answer_call [of "GET (waitingPrefix @ u)" s0] by simp
  then show ?thesis using assms(1)
    by (simp add: rds_GetWaiting_def round_trip_arrives split_def flip: s0_def)
qed

lemma Stats_timed:
  assumes "rs_rdb st = R"
  shows "fst (fst (run_state (rds_Stats st) s)) = int (fcard (sets (view s) waitingSetKey))"
proof -
  define s0 where "s0 = snd (rd_net R s)"
  have "sets (view s0) = sets (view s)" using net_expires [of s] by (simp add: s0_def expired_def)
  then have "fst (run_state (call R (SCARD waitingSetKey)) s0) = RInt (int (fcard (sets (view s) waitingSetKey)))"
    using answer_call [of "SCARD waitingSetKey" s0] by simp
  then show ?thesis using assms
    by (simp add: rds_Stats_def round_trip_arrives split_def count_reply_def flip: s0_def)
qed

end

section \<open>Properties\<close>


definition sample_calls :: "store_call list" where
  "sample_calls = [CSetWaiting ''ann'' ''s1'', CSetWaiting ''ann'' ''s2'', CGetWaiting ''ann'', CStats,
     CCreatePair ''s2'' ''c1'' ''ann'' ''p1'', CIsWaiting ''ann'', CGetPeer ''c1'', CRemovePair ''s2'', CIsPaired ''c1'']"


text \<open>C20 Whatever round trips fail and whatever keys expire, the Redis store never reports a waiting
  connection or a peer that is not the recorded one.\<close>
theorem redisStore_never_invents:
  assumes "redis_server R view"
  shows "result (rds_GetWaiting (NewRedisStore R) u) s \<in> {None, ks_waiting (view s) u}
    \<and> result (rds_GetPeer (NewRedisStore R) c) s \<in> {None, ks_peers (view s) c}"
proof -
  have st: "rs_rdb (NewRedisStore R) = R" by (simp add: NewRedisStore_def)
  show ?thesis
    using redis_server.GetWaiting_sound [OF assms st, of u s] redis_server.GetPeer_sound [OF assms st, of c s]
    by (cases "result (rds_GetWaiting (NewRedisStore R) u) s"; cases "result (rds_GetPeer (NewRedisStore R) c) s") auto
qed

theorem redisStore_never_invents_witness:
  "result (rds_GetWaiting (NewRedisStore down_redis) ''ann'') empty_keyspace = None"
  using redisStore_never_invents [OF down.redis_server_axioms, of "''ann''" empty_keyspace]
  by (simp add: ks_waiting_def empty_keyspace_def)

text \<open>C38 The waiting entry is given a time to live of five minutes, and a server that keeps waiting does not renew
  it. On a service with a clock, a look-up of the username finds the server that entered it if it reaches
  the service less than five minutes later; after that it finds nobody, while the statistics go on
  counting the username.\<close>
theorem waiting_server_expires:
  assumes "redis_timed R view clock deadline" "run_state (rds_SetWaiting (NewRedisStore R) u c) s = (r, s1)"
  shows "result (rds_GetWaiting (NewRedisStore R) u) s1 = (if clock (snd (rd_net R s1)) < clock s1 + 5 * 60 * 1000 then Some c else None)
    \<and> fst (fst (run_state (rds_Stats (NewRedisStore R)) s1)) = int (fcard (finsert u (sets (view s) waitingSetKey)))"
proof -
  note e = redis_timed.entered [OF assms(1) _ _ assms(2)]
  have w: "strs (view s1) (waitingPrefix @ u) = Some c" "deadline s1 (waitingPrefix @ u) = Some (clock s1 + 300000)"
    "sets (view s1) waitingSetKey = finsert u (sets (view s) waitingSetKey)"
    using e by (simp_all add: NewRedisStore_def defaultRedisTTL_def)
  then show ?thesis
    using redis_timed.GetWaiting_timed [OF assms(1), of "NewRedisStore R" s1 u] redis_timed.Stats_timed [OF assms(1), of "NewRedisStore R" s1]
    by (simp add: NewRedisStore_def)
qed

theorem waiting_server_expires_witness:
  "\<exists>s1. snd (run_state (rds_SetWaiting (NewRedisStore td_redis) ''ann'' ''c1'')
         \<lparr>td_keys = empty_keyspace, td_now = 0, td_deadline = Map.empty, td_delays = [0, 300000]\<rparr>) = s1
     \<and> result (rds_GetWaiting (NewRedisStore td_redis) ''ann'') s1 = None
     \<and> fst (fst (run_state (rds_Stats (NewRedisStore td_redis)) s1)) = 1"
proof -
  define s where "s = \<lparr>td_keys = empty_keyspace, td_now = 0, td_deadline = Map.empty, td_delays = [0, 300000]\<rparr>"
  obtain r s1 where r: "run_state (rds_SetWaiting (NewRedisStore td_redis) ''ann'' ''c1'') s = (r, s1)"
    by (rule prod.exhaust)
  have now: "td_now s1 = 0" "td_now (snd (rd_net td_redis s1)) = 300000"
    using arg_cong [OF r, of "\<lambda>x. td_now (snd x)"] arg_cong [OF r, of "\<lambda>x. td_now (snd (rd_net td_redis (snd x)))"]
    by (simp_all add: rds_SetWaiting_def setWaitingScript_def round_trip_def call_def td_redis_def td_drop_def NewRedisStore_def
        s_def split_def)
  show ?thesis
    using waiting_server_expires [OF td.redis_timed_axioms r] now r
    by (simp add: s_def empty_keyspace_def fcard_finsert_disjoint)
qed

end
