(* ===== verification/Routing.thy ===== *)
theory Routing
  imports Manager RedisStore
begin

text \<open>
  What the operations of the manager do, branch by branch. The locale \<open>relay_backend\<close> collects
  the contracts the manager relies on: a store, a database, a UUID library, an iteration order.
\<close>

section \<open>Running the primitives\<close>

lemma run_fetch [relay_simps]: "run_state (fetch f) m = (f m, m)"
  by (simp add: fetch_def)

lemma run_modify [relay_simps]: "run_state (modify f) m = ((), f m)"
  by (simp add: modify_def)

lemma run_on_store [relay_simps]:
  "run_state (on_store op) m = (result op (m_store m), m\<lparr>m_store := after op (m_store m)\<rparr>)"
  by (simp add: on_store_def split_def)

lemma run_on_db [relay_simps]:
  "run_state (on_db op) m = (result op (m_db m), m\<lparr>m_db := after op (m_db m)\<rparr>)"
  by (simp add: on_db_def split_def)

lemma run_on_redis [relay_simps]:
  "run_state (on_redis op) m = (result op (m_redis m), m\<lparr>m_redis := after op (m_redis m)\<rparr>)"
  by (simp add: on_redis_def split_def)

lemma run_emit [relay_simps]: "run_state (emit e) m = ((), m\<lparr>m_out := m_out m @ [e]\<rparr>)"
  by (simp add: emit_def run_modify)

lemma run_upd_conn [relay_simps]:
  "run_state (upd_conn p f) m = ((), m\<lparr>m_heap := (m_heap m)(p := f (m_heap m p))\<rparr>)"
  by (simp add: upd_conn_def run_modify)

lemma run_conns_put [relay_simps]: "run_state (conns_put i p) m = ((), m\<lparr>m_conns := (m_conns m)(i \<mapsto> p)\<rparr>)"
  by (simp add: conns_put_def run_modify)

lemma run_conns_delete [relay_simps]:
  "run_state (conns_delete i) m = ((), m\<lparr>m_conns := map_delete (m_conns m) i\<rparr>)"
  by (simp add: conns_delete_def run_modify)

lemma run_groups_put [relay_simps]:
  "run_state (groups_put u g) m = ((), m\<lparr>m_multiGroups := (m_multiGroups m)(u \<mapsto> g)\<rparr>)"
  by (simp add: groups_put_def run_modify)

lemma run_groups_delete [relay_simps]:
  "run_state (groups_delete u) m = ((), m\<lparr>m_multiGroups := map_delete (m_multiGroups m) u\<rparr>)"
  by (simp add: groups_delete_def run_modify)

lemma run_sendControl [relay_simps]:
  "run_state (sendControl p msg) m = ((), m\<lparr>m_out := m_out m @ [Write p MessageText (json_render msg)]\<rparr>)"
  by (simp add: sendControl_def run_emit)

lemma for_each_emit [relay_simps]:
  "run_state (for_each (\<lambda>q. emit (f q)) xs) m = ((), m\<lparr>m_out := m_out m @ map f xs\<rparr>)"
  by (induction xs arbitrary: m) (simp_all add: run_emit)

lemma for_each_emits [relay_simps]: "run_state (for_each emit es) m = ((), m\<lparr>m_out := m_out m @ es\<rparr>)"
  using for_each_emit [of id es m] by simp

text \<open>Deleting the entries of a list of connections.\<close>
definition without :: "(string \<rightharpoonup> cref) \<Rightarrow> string set \<Rightarrow> (string \<rightharpoonup> cref)" where
  "without cs A = (\<lambda>i. if i \<in> A then None else cs i)"

lemma without_empty [simp]: "without cs {} = cs"
  by (simp add: without_def)

lemma map_delete_without: "map_delete (without cs A) i = without cs (insert i A)"
  by (auto simp: without_def fun_eq_iff)

lemma without_without: "without (map_delete cs i) A = without cs (insert i A)"
  by (auto simp: without_def fun_eq_iff)

lemma for_each_delete [relay_simps]:
  "run_state (for_each (\<lambda>q. do { i \<leftarrow> fetch (\<lambda>m. c_ID (m_heap m q)); conns_delete i }) xs) m
   = ((), m\<lparr>m_conns := without (m_conns m) ((\<lambda>q. c_ID (m_heap m q)) ` set xs)\<rparr>)"
  by (induction xs arbitrary: m) (simp_all add: run_fetch run_conns_delete without_without)

section \<open>One write\<close>

text \<open>What a write to \<open>target\<close> comes to: the frame itself, or a backpressure message to the
  sender when too many writes to the target are still under way.\<close>
definition delivery_of :: "(cref \<Rightarrow> conn) \<Rightarrow> cref \<Rightarrow> cref \<Rightarrow> msg_type \<Rightarrow> bytes \<Rightarrow> effect" where
  "delivery_of h target sender msgType data =
     (if c_PendingWrites (h target) \<ge> maxPendingWrites
      then Write sender MessageText (json_render (json_of_RelayBackpressure (NewRelayBackpressure ''slow_peer'')))
      else Write target msgType data)"

lemma pending_back: "c\<lparr>c_PendingWrites := c_PendingWrites c + 1 + (- 1)\<rparr> = (c :: conn)"
  by simp

lemma run_writeToConn [relay_simps]:
  "run_state (writeToConn target sender ty data) m
   = ((), m\<lparr>m_out := m_out m @ [delivery_of (m_heap m) target sender ty data]\<rparr>)"
  by (auto simp: writeToConn_def write_begin_def write_end_def relay_simps delivery_of_def split_def)

lemma for_each_write [relay_simps]:
  "run_state (for_each (\<lambda>q. writeToConn q sender ty data) xs) m
   = ((), m\<lparr>m_out := m_out m @ map (\<lambda>q. delivery_of (m_heap m) q sender ty data) xs\<rparr>)"
  by (induction xs arbitrary: m) (simp_all add: run_writeToConn)

section \<open>What the manager relies on\<close>

locale relay_backend =
  st: store "b_store B" waiting peers inv + sql: sql_engine "b_sql B" tbl + uu: uuid_lib "b_uuids B"
  for B :: "('s, 'd) backend" and waiting :: "'s \<Rightarrow> (string \<rightharpoonup> string)"
    and peers :: "'s \<Rightarrow> (string \<rightharpoonup> string)" and inv :: "'s \<Rightarrow> bool" and tbl :: "'d \<Rightarrow> utable" +
  assumes order: "range_order (b_order B)"

section \<open>Forwarding\<close>

text \<open>Where a frame goes, as a function of the routing state: the specification of \<open>Forward\<close>.\<close>
definition route ::
  "('s, 'd) backend \<Rightarrow> ('s, 'd, 'r) manager \<Rightarrow> (string \<rightharpoonup> string) \<Rightarrow> cref \<Rightarrow> msg_type \<Rightarrow> bytes
     \<Rightarrow> (cref \<times> msg_type \<times> bytes) list" where
  "route B m peer sender ty data =
     (let c = m_heap m sender; group = m_multiGroups m (c_Username c) in
      if c_ClientID c \<noteq> [] then
        (case group of
           None \<Rightarrow> []
         | Some g \<Rightarrow> [(g_serverConn g, MessageBinary, WrapMultiClientFrame (b_uuids B) (c_ClientID c) ty data)])
      else if c_MultiClient c \<and> c_Username c \<noteq> [] then
        (case group of
           None \<Rightarrow> []
         | Some g \<Rightarrow>
             (case (if ty = MessageBinary then ParseMultiClientHeader (b_uuids B) data else None) of
                Some (i, t, payload) \<Rightarrow> (case g_clients g i of None \<Rightarrow> [] | Some q \<Rightarrow> [(q, t, payload)])
              | None \<Rightarrow> map (\<lambda>q. (q, ty, data)) (map_values (g_clients g) (b_order B (dom (g_clients g))))))
      else
        (case peer (c_ID c) of
           None \<Rightarrow> []
         | Some i \<Rightarrow> (case m_conns m i of None \<Rightarrow> [] | Some q \<Rightarrow> [(q, ty, data)])))"

definition deliveries :: "(cref \<Rightarrow> conn) \<Rightarrow> cref \<Rightarrow> (cref \<times> msg_type \<times> bytes) list \<Rightarrow> effect list" where
  "deliveries h sender = map (\<lambda>(q, t, payload). delivery_of h q sender t payload)"

lemma deliveries_simps [simp]:
  "deliveries h s [] = []" "deliveries h s ((q, t, d) # xs) = delivery_of h q s t d # deliveries h s xs"
  by (simp_all add: deliveries_def)

text \<open>The parts of the manager that only \<open>RegisterServer\<close>, \<open>ConnectClient\<close>, \<open>HandleClose\<close> and
  \<open>CloseAll\<close> change.\<close>
definition routing_of :: "('s, 'd, 'r) manager \<Rightarrow> (cref \<Rightarrow> conn) \<times> (string \<rightharpoonup> cref) \<times> (string \<rightharpoonup> mc_group) \<times> 'd" where
  "routing_of m = (m_heap m, m_conns m, m_multiGroups m, m_db m)"

lemma allow_message_frame:
  "routing_of (after (allow_message rd i) m) = routing_of m" "m_store (after (allow_message rd i) m) = m_store m"
  "m_out (after (allow_message rd i) m) = m_out m" "m_buffer (after (allow_message rd i) m) = m_buffer m"
  by (simp_all add: allow_message_def routing_of_def split: option.splits prod.splits)

context relay_backend
begin

lemma forwardPair_spec:
  fixes p rd ty data
  assumes "inv (m_store m)" "c_ClientID (m_heap m p) = []" "\<not> (c_MultiClient (m_heap m p) \<and> c_Username (m_heap m p) \<noteq> [])"
  defines "m' \<equiv> after (forwardPair B rd p ty data) m"
  shows "m_out m' = m_out m @ deliveries (m_heap m) p (route B m (peers (m_store m)) p ty data)"
    "routing_of m' = routing_of m" "waiting (m_store m') = waiting (m_store m)" "peers (m_store m') = peers (m_store m)"
    "inv (m_store m')"
  using st.GetPeer_law [OF assms(1), of "c_ID (m_heap m p)"] assms(2,3) unfolding m'_def
  by (auto simp: forwardPair_def relay_simps route_def routing_of_def Let_def split: option.splits)

lemma forwardFromClient_spec:
  assumes "c_ClientID (m_heap m p) \<noteq> []"
  shows "run_state (forwardFromClient B p ty data) m
    = ((), m\<lparr>m_out := m_out m @ deliveries (m_heap m) p (route B m peer p ty data)\<rparr>)"
  using assms by (simp add: forwardFromClient_def relay_simps route_def Let_def split: option.splits)

lemma forwardFromServer_spec:
  assumes "c_ClientID (m_heap m p) = []" "c_MultiClient (m_heap m p)" "c_Username (m_heap m p) \<noteq> []"
  shows "run_state (forwardFromServer B p ty data) m
    = ((), m\<lparr>m_out := m_out m @ deliveries (m_heap m) p (route B m peer p ty data)\<rparr>)"
  using assms
  by (auto simp: forwardFromServer_def broadcast_def relay_simps route_def deliveries_def comp_def Let_def split: option.splits prod.splits)

lemma Forward_spec:
  fixes p rd ty data
  assumes "inv (m_store m)"
  defines "m' \<equiv> after (Forward B rd p ty data) m"
  shows "m_out m' = m_out m @ (if result (allow_message rd (c_ID (m_heap m p))) m
           then deliveries (m_heap m) p (route B m (peers (m_store m)) p ty data) else [])"
    "routing_of m' = routing_of m" "waiting (m_store m') = waiting (m_store m)" "peers (m_store m') = peers (m_store m)"
    "inv (m_store m')"
proof -
  define m1 where "m1 = after (allow_message rd (c_ID (m_heap m p))) m"
  have f: "m_heap m1 = m_heap m" "m_conns m1 = m_conns m" "m_multiGroups m1 = m_multiGroups m" "m_db m1 = m_db m"
    "m_store m1 = m_store m" "m_out m1 = m_out m"
    using allow_message_frame [of rd "c_ID (m_heap m p)" m] by (simp_all add: m1_def routing_of_def)
  have r: "route B m1 (peers (m_store m)) p ty data = route B m (peers (m_store m)) p ty data"
    by (simp add: route_def f Let_def cong: option.case_cong)
  have i1: "inv (m_store m1)" using assms(1) f by simp
  consider (no) "\<not> result (allow_message rd (c_ID (m_heap m p))) m" | (client) "c_ClientID (m_heap m p) \<noteq> []"
    | (server) "c_ClientID (m_heap m p) = []" "c_MultiClient (m_heap m p)" "c_Username (m_heap m p) \<noteq> []"
    | (pair) "c_ClientID (m_heap m p) = []" "\<not> (c_MultiClient (m_heap m p) \<and> c_Username (m_heap m p) \<noteq> [])"
    by blast
  note cases = this
  have "m_out m' = m_out m @ (if result (allow_message rd (c_ID (m_heap m p))) m
           then deliveries (m_heap m) p (route B m (peers (m_store m)) p ty data) else [])
    \<and> routing_of m' = routing_of m \<and> waiting (m_store m') = waiting (m_store m) \<and> peers (m_store m') = peers (m_store m)
    \<and> inv (m_store m')"
    using cases
  proof cases
    case no
    then show ?thesis using f assms(1)
      by (simp add: m'_def Forward_def relay_simps split_def m1_def [symmetric] routing_of_def)
  next
    case client
    with f assms(1) forwardFromClient_spec [of m1 p ty data "peers (m_store m)"] r show ?thesis
      by (simp add: m'_def Forward_def relay_simps split_def m1_def [symmetric] routing_of_def)
  next
    case server
    with f assms(1) forwardFromServer_spec [of m1 p ty data "peers (m_store m)"] r show ?thesis
      by (simp add: m'_def Forward_def relay_simps split_def m1_def [symmetric] routing_of_def)
  next
    case pair
    with f assms(1) forwardPair_spec [of m1 p rd ty data] r i1 show ?thesis
      by (auto simp add: m'_def Forward_def relay_simps split_def m1_def [symmetric] routing_of_def)
  qed
  then show "m_out m' = m_out m @ (if result (allow_message rd (c_ID (m_heap m p))) m
           then deliveries (m_heap m) p (route B m (peers (m_store m)) p ty data) else [])"
    "routing_of m' = routing_of m" "waiting (m_store m') = waiting (m_store m)" "peers (m_store m') = peers (m_store m)"
    "inv (m_store m')" by blast+
qed

end

section \<open>The routing machine\<close>

text \<open>
  The abstract specification of the manager: the routing state without its backends, and what
  registering, connecting and closing do to it. A step returns the new state and the websocket
  calls it makes. The lemmas below show that the manager's operations refine these steps on
  every store that keeps its contract.
\<close>

record routing =
  rt_heap :: "cref \<Rightarrow> conn"
  rt_conns :: "string \<rightharpoonup> cref"
  rt_groups :: "string \<rightharpoonup> mc_group"
  rt_waiting :: "string \<rightharpoonup> string"
  rt_peers :: "string \<rightharpoonup> string"

definition rt_register :: "cref \<Rightarrow> string \<Rightarrow> routing \<Rightarrow> routing \<times> effect list" where
  "rt_register p u R =
     (let c = c_ID (rt_heap R p); ev = evicted_by (rt_waiting R) u c; cs = (rt_conns R)(c \<mapsto> p)
      in (R\<lparr>rt_conns := (if ev = [] then cs else map_delete cs ev), rt_waiting := (rt_waiting R)(u \<mapsto> c)\<rparr>,
          if ev = [] then [] else
            (case cs ev of None \<Rightarrow> [] | Some e \<Rightarrow> [Close e StatusNormalClosure ''Replaced by new connection''])))"

definition rt_join :: "cref \<Rightarrow> string \<Rightarrow> cref \<Rightarrow> string \<Rightarrow> routing \<Rightarrow> routing" where
  "rt_join p u q i R =
     (let g = (case rt_groups R u of None \<Rightarrow> \<lparr>g_serverConn = q, g_clients = Map.empty\<rparr> | Some g \<Rightarrow> g)
      in R\<lparr>rt_heap := (rt_heap R)(p := (rt_heap R p)\<lparr>c_ClientID := i, c_Username := u\<rparr>),
           rt_groups := (rt_groups R)(u \<mapsto> g\<lparr>g_clients := (g_clients g)(i \<mapsto> p)\<rparr>),
           rt_conns := (rt_conns R)(c_ID (rt_heap R p) \<mapsto> p)\<rparr>)"

definition rt_pair :: "cref \<Rightarrow> string \<Rightarrow> string \<Rightarrow> routing \<Rightarrow> routing" where
  "rt_pair p u s R =
     (let c = c_ID (rt_heap R p)
      in R\<lparr>rt_conns := (rt_conns R)(c \<mapsto> p), rt_waiting := map_delete (rt_waiting R) u,
           rt_peers := (rt_peers R)(s \<mapsto> c, c \<mapsto> s)\<rparr>)"

definition rt_connect :: "cref \<Rightarrow> string \<Rightarrow> string \<Rightarrow> routing \<Rightarrow> ConnectionResult \<times> routing \<times> effect list" where
  "rt_connect p u i R =
     (case rt_waiting R u of
        None \<Rightarrow> (refused ''server_offline'', R, [])
      | Some s \<Rightarrow>
          (case rt_conns R s of
             None \<Rightarrow> (refused ''server_offline'', R\<lparr>rt_waiting := map_delete (rt_waiting R) u\<rparr>, [])
           | Some q \<Rightarrow>
               if c_MultiClient (rt_heap R q)
               then (\<lparr>cr_Status = ''connected'', cr_ServerWS = Some q, cr_ClientID = i\<rparr>, rt_join p u q i R,
                     [Write q MessageText (json_render (json_of_RelayClientJoined (NewRelayClientJoined i)))])
               else (\<lparr>cr_Status = ''connected'', cr_ServerWS = Some q, cr_ClientID = []\<rparr>, rt_pair p u s R, [])))"

definition rt_leave :: "cref \<Rightarrow> mc_group \<Rightarrow> routing \<Rightarrow> routing \<times> effect list" where
  "rt_leave p g R =
     (let c = rt_heap R p; rest = map_delete (g_clients g) (c_ClientID c)
      in (R\<lparr>rt_groups := (if map_len rest = 0 then map_delete (rt_groups R) (c_Username c)
                          else (rt_groups R)(c_Username c \<mapsto> g\<lparr>g_clients := rest\<rparr>)),
            rt_conns := map_delete (rt_conns R) (c_ID c)\<rparr>,
          [Write (g_serverConn g) MessageText (json_render (json_of_RelayClientLeft (NewRelayClientLeft (c_ClientID c))))]))"

text \<open>\<open>waiting\<close> without the entry of a username when it is this connection.\<close>
definition unwait :: "(string \<rightharpoonup> string) \<Rightarrow> string \<Rightarrow> string \<Rightarrow> (string \<rightharpoonup> string)" where
  "unwait w u c = (if w u = Some c then map_delete w u else w)"

definition rt_disband :: "(string set \<Rightarrow> string list) \<Rightarrow> cref \<Rightarrow> mc_group \<Rightarrow> routing \<Rightarrow> routing \<times> effect list" where
  "rt_disband order p g R =
     (let c = rt_heap R p; clients = map_values (g_clients g) (order (dom (g_clients g)))
      in (R\<lparr>rt_conns := without (rt_conns R) (insert (c_ID c) ((\<lambda>q. c_ID (rt_heap R q)) ` set clients)),
            rt_groups := map_delete (rt_groups R) (c_Username c),
            rt_waiting := unwait (rt_waiting R) (c_Username c) (c_ID c)\<rparr>,
          map (\<lambda>q. Close q StatusNormalClosure ''Server disconnected'') clients))"

definition rt_unpair :: "cref \<Rightarrow> routing \<Rightarrow> bool \<times> routing \<times> effect list" where
  "rt_unpair p R =
     (let c = rt_heap R p; cs = map_delete (rt_conns R) (c_ID c) in
      if c_Username c \<noteq> [] \<and> rt_waiting R (c_Username c) = Some (c_ID c)
      then (False, R\<lparr>rt_conns := cs, rt_waiting := map_delete (rt_waiting R) (c_Username c)\<rparr>, [])
      else (case rt_peers R (c_ID c) of
              None \<Rightarrow> (False, R\<lparr>rt_conns := cs\<rparr>, [])
            | Some i \<Rightarrow>
                (True, R\<lparr>rt_conns := map_delete cs i, rt_peers := unpair (rt_peers R) (c_ID c)\<rparr>,
                 (case cs i of None \<Rightarrow> [] | Some q \<Rightarrow> [Close q StatusNormalClosure ''Peer disconnected'']))))"

definition rt_close :: "(string set \<Rightarrow> string list) \<Rightarrow> cref \<Rightarrow> routing \<Rightarrow> bool \<times> routing \<times> effect list" where
  "rt_close order p R =
     (let c = rt_heap R p in
      case rt_groups R (c_Username c) of
        Some g \<Rightarrow>
          if c_ClientID c \<noteq> [] then (False, rt_leave p g R)
          else if c_MultiClient c \<and> c_Username c \<noteq> [] then (True, rt_disband order p g R)
          else rt_unpair p R
      | None \<Rightarrow> rt_unpair p R)"

section \<open>Refinement\<close>

definition abs_routing ::
  "('s \<Rightarrow> (string \<rightharpoonup> string)) \<Rightarrow> ('s \<Rightarrow> (string \<rightharpoonup> string)) \<Rightarrow> ('s, 'd, 'r) manager \<Rightarrow> routing" where
  "abs_routing waiting peers m = \<lparr>rt_heap = m_heap m, rt_conns = m_conns m, rt_groups = m_multiGroups m,
     rt_waiting = waiting (m_store m), rt_peers = peers (m_store m)\<rparr>"

text \<open>No id is the empty string.\<close>
definition waits_ok :: "(string \<rightharpoonup> string) \<Rightarrow> bool" where
  "waits_ok w \<longleftrightarrow> [] \<notin> ran w"

lemma unpair_None [simp]: "p c = None \<Longrightarrow> unpair p c = p"
  by (simp add: unpair_def)

lemma waits_okD: "waits_ok w \<Longrightarrow> w u = Some c \<Longrightarrow> c \<noteq> []"
  by (auto simp: waits_ok_def ran_def)

text \<open>What \<open>ConnectClient\<close> answers and announces for each attachment.\<close>
fun connection_result :: "attachment \<Rightarrow> ConnectionResult" where
  "connection_result NoServer = refused ''server_offline''"
| "connection_result (Joined q i) = \<lparr>cr_Status = ''connected'', cr_ServerWS = Some q, cr_ClientID = i\<rparr>"
| "connection_result (Paired q) = \<lparr>cr_Status = ''connected'', cr_ServerWS = Some q, cr_ClientID = []\<rparr>"

fun joined_notice :: "attachment \<Rightarrow> effect list" where
  "joined_notice (Joined q i) = [Write q MessageText (json_render (json_of_RelayClientJoined (NewRelayClientJoined i)))]"
| "joined_notice _ = []"

context relay_backend
begin

abbreviation abs where
  "abs \<equiv> abs_routing waiting peers"

lemmas abs_def = abs_routing_def

lemma IsRegistered_frame:
  "tbl (after (IsRegistered (b_sql B) u) d) = tbl d"
  "result (IsRegistered (b_sql B) u) d \<Longrightarrow> owner (tbl d) u \<noteq> None"
  using sql.IsRegistered_run [OF prod.collapse [symmetric]] by blast+

lemma enter_waiting_refines:
  assumes "inv (m_store m)" "run_state (enter_waiting B p u) m = (e, m')"
  shows "(abs m', eviction e) = rt_register p u (abs m) \<and> inv (m_store m')
    \<and> m_out m' = m_out m \<and> m_db m' = m_db m \<and> m_heap m' = m_heap m"
  using assms(2) st.SetWaiting_law [OF assms(1), of u "c_ID (m_heap m p)"]
  by (auto simp: enter_waiting_def eviction_def relay_simps rt_register_def abs_def Let_def evicted_by_def
      split: if_splits option.splits)

lemma RegisterServer_refines:
  assumes "inv (m_store m)" "run_state (RegisterServer B rd p u i) m = (r, m')"
  shows "r = Registered \<Longrightarrow> IsValidUsername u \<and> (owner (tbl (m_db m)) u = None \<or> owner (tbl (m_db m)) u = Some i)
      \<and> owner (tbl (m_db m')) = (owner (tbl (m_db m)))(u \<mapsto> i)
      \<and> (abs m', m_out m') = (fst (rt_register p u (abs m)), m_out m @ snd (rt_register p u (abs m)))
      \<and> inv (m_store m')"
    "r \<noteq> Registered \<Longrightarrow> tbl (m_db m') = tbl (m_db m) \<and> abs m' = abs m \<and> m_out m' = m_out m \<and> inv (m_store m')"
proof -
  obtain can d1 where can: "run_state (CanRegister (b_sql B) u i) (m_db m) = (can, d1)" by force
  obtain ok d2 where ok: "run_state (Register (b_sql B) (at_reg rd) u i) d1 = (ok, d2)" by force
  note c = sql.CanRegister_run [OF can] and k = sql.Register_run [OF ok]
  define m2 where "m2 = m\<lparr>m_db := d2\<rparr>"
  obtain e m3 where e: "run_state (enter_waiting B p u) m2 = (e, m3)" by force
  have m2: "inv (m_store m2)" "abs m2 = abs m" "m_out m2 = m_out m" "m_db m2 = d2"
    using assms(1) by (simp_all add: m2_def abs_def)
  note law = enter_waiting_refines [OF m2(1) e, unfolded m2]
  have o: "owner (tbl d1) = owner (tbl (m_db m))" using c(1) by simp
  show "r = Registered \<Longrightarrow> IsValidUsername u \<and> (owner (tbl (m_db m)) u = None \<or> owner (tbl (m_db m)) u = Some i)
      \<and> owner (tbl (m_db m')) = (owner (tbl (m_db m)))(u \<mapsto> i)
      \<and> (abs m', m_out m') = (fst (rt_register p u (abs m)), m_out m @ snd (rt_register p u (abs m)))
      \<and> inv (m_store m')"
  proof -
    assume r: "r = Registered"
    then have u: "IsValidUsername u" "can" "ok" and m': "m' = m3\<lparr>m_out := m_out m3 @ eviction e\<rparr>"
      using assms(2) can ok e by (auto simp: RegisterServer_def relay_simps m2_def split: if_splits)
    have am: "abs m' = abs m3" by (simp add: m' abs_def)
    have rr: "rt_register p u (abs m) = (abs m3, eviction e)" using law by simp
    have own: "(owner (tbl (m_db m)) u = None \<or> owner (tbl (m_db m)) u = Some i)
        \<and> owner (tbl d2) = (owner (tbl (m_db m)))(u \<mapsto> i)"
      using k(1) [OF u(3)] o by simp
    have "inv (m_store m') \<and> m_out m' = m_out m @ eviction e \<and> m_db m' = d2" using law by (simp add: m')
    with own u(1) show ?thesis by (simp add: am rr)
  qed
  show "r \<noteq> Registered \<Longrightarrow> tbl (m_db m') = tbl (m_db m) \<and> abs m' = abs m \<and> m_out m' = m_out m \<and> inv (m_store m')"
    using assms can ok k(2) c(1)
    by (auto simp: RegisterServer_def relay_simps abs_def split_def split: if_splits)
qed

lemma attach_refines:
  assumes "inv (m_store m)" "waits_ok (waiting (m_store m))" "run_state (attach B rd p u) m = (a, m')"
  shows "(connection_result a, abs m', joined_notice a) = rt_connect p u (new_clientID rd) (abs m) \<and> inv (m_store m')
    \<and> m_out m' = m_out m \<and> m_db m' = m_db m"
proof -
  define s1 where "s1 = after (GetWaiting (b_store B) u) (m_store m)"
  have s1: "inv s1" "waiting s1 = waiting (m_store m)" "peers s1 = peers (m_store m)"
    "result (GetWaiting (b_store B) u) (m_store m) = waiting (m_store m) u"
    using st.GetWaiting_law [OF assms(1), of u] by (simp_all add: s1_def)
  show ?thesis
  proof (cases "waiting (m_store m) u")
    case None
    then show ?thesis using assms s1
      by (auto simp: attach_def relay_simps abs_def rt_connect_def s1_def)
  next
    case w: (Some s)
    have ne: "s \<noteq> []" using waits_okD [OF assms(2) w] .
    show ?thesis
    proof (cases "m_conns m s")
      case None
      with w show ?thesis using assms s1 st.RemoveWaiting_law [OF s1(1) ne, of u]
        by (auto simp: attach_def relay_simps abs_def rt_connect_def s1_def)
    next
      case q: (Some q)
      show ?thesis
      proof (cases "c_MultiClient (m_heap m q)")
        case True
        with w q show ?thesis using assms s1
          by (auto simp: attach_def join_group_def relay_simps abs_def rt_connect_def rt_join_def s1_def Let_def)
      next
        case False
        with w q show ?thesis using assms s1 st.CreatePair_law [OF s1(1), of s "c_ID (m_heap m p)" u "new_pairID rd"]
          by (auto simp: attach_def relay_simps abs_def rt_connect_def rt_pair_def s1_def Let_def)
      qed
    qed
  qed
qed

lemma ConnectClient_refines:
  assumes "inv (m_store m)" "waits_ok (waiting (m_store m))" "run_state (ConnectClient B rd p u ci) m = (r, m')"
  shows "owner (tbl (m_db m')) = owner (tbl (m_db m)) \<and> inv (m_store m')
    \<and> (r = refused ''unknown_username'' \<and> abs m' = abs m \<and> m_out m' = m_out m
       \<or> owner (tbl (m_db m)) u \<noteq> None
         \<and> (r, abs m', m_out m') = (case rt_connect p u (new_clientID rd) (abs m) of (r', R', es) \<Rightarrow> (r', R', m_out m @ es)))"
proof -
  note reg = IsRegistered_frame [of u "m_db m"]
  have seen: "owner (tbl (after (UpdateLastSeen (b_sql B) t u) d)) = owner (tbl d)" for t d
    by (rule sql.UpdateLastSeen_run)
  define m1 where "m1 = m\<lparr>m_db := after (IsRegistered (b_sql B) u) (m_db m)\<rparr>"
  obtain a m2 where a: "run_state (attach B rd p u) m1 = (a, m2)" by force
  have m1: "inv (m_store m1)" "waits_ok (waiting (m_store m1))" "abs m1 = abs m" "m_out m1 = m_out m"
    using assms(1,2) by (simp_all add: m1_def abs_def)
  note f = attach_refines [OF m1(1,2) a, unfolded m1]
  show ?thesis
  proof (cases "result (IsRegistered (b_sql B) u) (m_db m)")
    case False
    then show ?thesis using assms reg(1)
      by (auto simp: ConnectClient_def relay_simps abs_def)
  next
    case True
    have "run_state (ConnectClient B rd p u ci) m = (connection_result a,
        m2\<lparr>m_out := m_out m2 @ joined_notice a,
            m_db := if a = NoServer then m_db m2 else after (UpdateLastSeen (b_sql B) (at_reg rd) u) (m_db m2)\<rparr>)"
      using True a by (cases a) (simp_all add: ConnectClient_def relay_simps m1_def)
    then have m': "r = connection_result a" "m' = m2\<lparr>m_out := m_out m2 @ joined_notice a,
            m_db := if a = NoServer then m_db m2 else after (UpdateLastSeen (b_sql B) (at_reg rd) u) (m_db m2)\<rparr>"
      using assms(3) by simp_all
    have rc: "rt_connect p u (new_clientID rd) (abs m) = (connection_result a, abs m2, joined_notice a)" using f by simp
    have "owner (tbl (m_db m2)) = owner (tbl (m_db m))" using f reg(1) by (simp add: m1_def)
    moreover have "abs m' = abs m2" by (simp add: m'(2) abs_def)
    ultimately show ?thesis using f reg(2) [OF True] by (simp add: m' seen rc)
  qed
qed

lemma Forward_refines:
  assumes "inv (m_store m)"
  shows "abs (after (Forward B rd p ty data) m) = abs m"
  using Forward_spec [OF assms, of rd p ty data] by (simp add: abs_def routing_of_def)

text \<open>The tail of \<open>HandleClose\<close>: a waiting connection, or one of a pair.\<close>
lemma close_pair_refines:
  assumes "inv (m_store m)" "peers_ok (peers (m_store m))" "c_ID (m_heap m p) \<noteq> []"
  shows "(\<lambda>((r, es), m'). (r, abs m', es, m_out m', m_db m', inv (m_store m'))) (run_state (close_pair B p) m)
    = (case rt_unpair p (abs m) of (r', R', es) \<Rightarrow> (r', R', es, m_out m, m_db m, True))"
proof -
  define c where "c = m_heap m p"
  define s1 where "s1 = after (RemoveWaiting (b_store B) (c_Username c) (c_ID c)) (m_store m)"
  define s2 where "s2 = (if c_Username c \<noteq> [] then s1 else m_store m)"
  have rw: "result (RemoveWaiting (b_store B) (c_Username c) (c_ID c)) (m_store m) = (waiting (m_store m) (c_Username c) = Some (c_ID c))"
    "inv s1" "peers s1 = peers (m_store m)"
    "waiting s1 = unwait (waiting (m_store m)) (c_Username c) (c_ID c)"
    using st.RemoveWaiting_law [OF assms(1), of "c_ID c" "c_Username c"] assms(3)
    by (simp_all add: s1_def c_def unwait_def)
  have s2: "inv s2" "peers s2 = peers (m_store m)" using rw assms(1) by (simp_all add: s2_def)
  have "peers s2 (c_ID c) \<noteq> Some []" using peers_okD [OF assms(2)] s2 by simp
  note rp = st.RemovePair_law [OF s2(1) this]
  consider (waiting) "c_Username c \<noteq> []" "waiting (m_store m) (c_Username c) = Some (c_ID c)"
    | (anon) "c_Username c = []" | (other) "c_Username c \<noteq> []" "waiting (m_store m) (c_Username c) \<noteq> Some (c_ID c)"
    by blast
  then show ?thesis
  proof cases
    case waiting
    with rw show ?thesis
      by (simp add: close_pair_def relay_simps abs_def rt_unpair_def c_def [symmetric] s1_def [symmetric] Let_def unwait_def)
  next
    case anon
    with rp assms(1) show ?thesis
      by (cases "peers (m_store m) (c_ID c)")
        (auto simp: close_pair_def relay_simps abs_def rt_unpair_def c_def [symmetric] s2_def Let_def split: option.splits)
  next
    case other
    with rp rw s2 show ?thesis
      by (cases "peers (m_store m) (c_ID c)")
        (auto simp: close_pair_def relay_simps abs_def rt_unpair_def c_def [symmetric] s1_def [symmetric] s2_def Let_def
          unwait_def split: option.splits)
  qed
qed

lemma detach_refines:
  assumes "inv (m_store m)" "peers_ok (peers (m_store m))" "c_ID (m_heap m p) \<noteq> []"
    "run_state (detach B p) m = ((r, es), m')"
  shows "(r, abs m', es) = rt_close (b_order B) p (abs m) \<and> m_out m' = m_out m \<and> m_db m' = m_db m \<and> inv (m_store m')"
proof -
  define c where "c = m_heap m p"
  have rw: "inv (after (RemoveWaiting (b_store B) (c_Username c) (c_ID c)) (m_store m))"
    "peers (after (RemoveWaiting (b_store B) (c_Username c) (c_ID c)) (m_store m)) = peers (m_store m)"
    "waiting (after (RemoveWaiting (b_store B) (c_Username c) (c_ID c)) (m_store m)) = unwait (waiting (m_store m)) (c_Username c) (c_ID c)"
    using st.RemoveWaiting_law [OF assms(1), of "c_ID c" "c_Username c"] assms(3)
    by (simp_all add: c_def unwait_def)
  note pair = close_pair_refines [OF assms(1-3)]
  show ?thesis
  proof (cases "m_multiGroups m (c_Username c)")
    case None
    then show ?thesis using assms(4) pair
      by (auto simp: detach_def relay_simps rt_close_def abs_def c_def Let_def split: prod.splits)
  next
    case (Some g)
    consider (leave) "c_ClientID c \<noteq> []" | (disband) "c_ClientID c = []" "c_MultiClient c \<and> c_Username c \<noteq> []"
      | (pair) "c_ClientID c = []" "\<not> (c_MultiClient c \<and> c_Username c \<noteq> [])" by blast
    then show ?thesis
    proof cases
      case leave
      with Some assms show ?thesis
        by (auto simp: detach_def leave_group_def relay_simps rt_close_def rt_leave_def abs_def c_def Let_def)
    next
      case disband
      with Some assms rw show ?thesis
        by (auto simp: detach_def close_group_def relay_simps rt_close_def rt_disband_def abs_def c_def Let_def
            map_delete_without)
    next
      case pair': pair
      with Some assms(4) pair show ?thesis
        by (auto simp: detach_def relay_simps rt_close_def abs_def c_def Let_def split: prod.splits)
    qed
  qed
qed

lemma HandleClose_refines:
  assumes "inv (m_store m)" "peers_ok (peers (m_store m))" "c_ID (m_heap m p) \<noteq> []"
    "run_state (HandleClose B p) m = (r, m')"
  shows "(r, abs m', m_out m') = (case rt_close (b_order B) p (abs m) of (r', R', es) \<Rightarrow> (r', R', m_out m @ es))
    \<and> m_db m' = m_db m \<and> inv (m_store m')"
proof -
  obtain r' es m1 where d: "run_state (detach B p) m = ((r', es), m1)" by (metis surj_pair)
  then have "r = r'" "m' = m1\<lparr>m_out := m_out m1 @ es\<rparr>" using assms(4) by (simp_all add: HandleClose_def relay_simps)
  moreover from this have "abs m' = abs m1" by (simp add: abs_def)
  moreover have "rt_close (b_order B) p (abs m) = (r', abs m1, es)" using detach_refines [OF assms(1-3) d] by simp
  moreover have "m_out m1 = m_out m" "m_db m1 = m_db m" "inv (m_store m1)" using detach_refines [OF assms(1-3) d] by simp_all
  ultimately show ?thesis by simp
qed

end

section \<open>The backends the relay comes with\<close>

definition mem_backend :: "(mem_store, utable) backend" where
  "mem_backend = \<lparr>b_store = memStore sorted_order, b_sql = table_exec, b_uuids = std_uuids, b_order = sorted_order\<rparr>"

definition redis_backend :: "(keyspace, utable) backend" where
  "redis_backend = \<lparr>b_store = redisStore (NewRedisStore ks_redis), b_sql = table_exec, b_uuids = std_uuids,
     b_order = sorted_order\<rparr>"

interpretation mem_relay: relay_backend mem_backend ms_waiting ms_peers mem_finite id
  by (intro relay_backend.intro relay_backend_axioms.intro)
    (simp_all add: mem_backend_def mem.store_axioms table_db.sql_engine_axioms std.uuid_lib_axioms range_order_sorted)

interpretation redis_relay: relay_backend redis_backend ks_waiting ks_peers ks_inv id
  by (intro relay_backend.intro relay_backend_axioms.intro)
    (simp_all add: redis_backend_def rds.store_axioms table_db.sql_engine_axioms std.uuid_lib_axioms range_order_sorted)

section \<open>Properties\<close>

text \<open>A small relay to evaluate the properties at: connections 1 and 2 are a pair of the username \<open>ann\<close>,
  3 serves the multi-client username \<open>bob\<close> and 4 is a client of it.\<close>

definition sample_conn :: "string \<Rightarrow> string \<Rightarrow> bool \<Rightarrow> bool \<Rightarrow> string \<Rightarrow> conn" where
  "sample_conn i u server multi client =
     \<lparr>c_ID = i, c_Username = u, c_IsServer = server, c_MultiClient = multi, c_ClientID = client, c_PendingWrites = 0\<rparr>"

definition sample_id :: string where
  "sample_id = ''00010203-0405-0607-0809-0a0b0c0d0eff''"

definition sample_rd :: readings where
  "sample_rd = \<lparr>at_reg = 0, at_redis = 0, at_mem = 0, at_buf = 0, at_validate = 0, at_issue = 0,
     new_clientID = sample_id, new_pairID = ''pair''\<rparr>"

definition sample_relay :: "(mem_store, utable, unit) manager" where
  "sample_relay = \<lparr>
     m_heap = (\<lambda>_. sample_conn ''x'' [] False False [])
       (1 := sample_conn ''s'' ''ann'' True False [], 2 := sample_conn ''c'' ''ann'' False False [],
        3 := sample_conn ''m'' ''bob'' True True [], 4 := sample_conn ''k'' ''bob'' False False sample_id),
     m_store = \<lparr>ms_waiting = [''bob'' \<mapsto> ''m''], ms_peers = [''s'' \<mapsto> ''c'', ''c'' \<mapsto> ''s'']\<rparr>,
     m_conns = [''s'' \<mapsto> 1, ''c'' \<mapsto> 2, ''m'' \<mapsto> 3, ''k'' \<mapsto> 4],
     m_multiGroups = [''bob'' \<mapsto> \<lparr>g_serverConn = 3, g_clients = [sample_id \<mapsto> 4]\<rparr>], m_db = fmap_of_list [(''bob'', \<lparr>ur_install_id = ''home'', ur_registered_at = [], ur_last_seen_at = []\<rparr>)],
     m_limiter = None, m_buffer = None, m_redis = (), m_out = []\<rparr>"

lemma sample_store_ok: "mem_finite (m_store sample_relay)"
  by (simp add: sample_relay_def mem_finite_def)

lemma sample_id_text: "uu_string std_uuids (uu_parse std_uuids sample_id) = sample_id"
  by code_simp

text \<open>C13 A frame is delivered exactly to the connections the routing state names for its sender, each
  as the frame itself or, when the receiver is too slow, as a backpressure message to the sender; a
  frame over the message limit goes nowhere. Forwarding never changes who is connected to whom.\<close>
theorem frames_go_where_routed:
  assumes "relay_backend B waiting peers store_ok tbl" "store_ok (m_store m)"
    "run_state (Forward B rd p ty data) m = (u, m')"
  shows "m_out m' = m_out m @ (if result (allow_message rd (c_ID (m_heap m p))) m
      then deliveries (m_heap m) p (route B m (peers (m_store m)) p ty data) else [])
    \<and> abs_routing waiting peers m' = abs_routing waiting peers m \<and> m_db m' = m_db m"
  using relay_backend.Forward_spec [OF assms(1,2), of rd p ty data] assms(3)
  by (simp add: abs_routing_def routing_of_def)

theorem frames_go_where_routed_witness:
  "m_out (after (Forward mem_backend sample_rd 2 MessageText ''hi'') sample_relay) = [Write 1 MessageText ''hi'']"
proof -
  note f = frames_go_where_routed [OF mem_relay.relay_backend_axioms sample_store_ok prod.collapse [symmetric], of sample_rd 2 MessageText "''hi''"]
  show ?thesis using conjunct1 [OF f]
    by (simp add: sample_relay_def allow_message_def route_def sample_conn_def deliveries_def delivery_of_def maxPendingWrites_def)
qed

text \<open>C14 Multi-client frames arrive whole, when the message limit admits them and the receiver has less than a
  hundred counted writes pending: what a client of a group sends reaches the group's server in one binary
  frame from whose header the server reads the client's id, the type and the bytes; and what the server
  wraps for that client reaches exactly that client, with the type and the bytes it wrapped.\<close>
theorem multi_client_end_to_end:
  assumes "relay_backend B waiting peers store_ok tbl" "store_ok (m_store m)"
    "result (allow_message rd (c_ID (m_heap m p))) m" "result (allow_message rd' (c_ID (m_heap m q))) m"
    "uu_string (b_uuids B) (uu_parse (b_uuids B) i) = i"
    "m_multiGroups m u = Some g" "g_clients g i = Some p" "u \<noteq> []" "i \<noteq> []"
    "c_ClientID (m_heap m p) = i" "c_Username (m_heap m p) = u" "c_PendingWrites (m_heap m p) < maxPendingWrites"
    "g_serverConn g = q" "c_ClientID (m_heap m q) = []" "c_Username (m_heap m q) = u" "c_MultiClient (m_heap m q)"
    "c_PendingWrites (m_heap m q) < maxPendingWrites"
  shows "(\<exists>frame. m_out (after (Forward B rd p ty data) m) = m_out m @ [Write q MessageBinary frame]
      \<and> ParseMultiClientHeader (b_uuids B) frame = Some (i, ty, data))
    \<and> m_out (after (Forward B rd' q MessageBinary (WrapMultiClientFrame (b_uuids B) i ty reply)) m)
      = m_out m @ [Write p ty reply]"
proof -
  note f = relay_backend.Forward_spec(1) [OF assms(1,2)]
  have uu: "uuid_lib (b_uuids B)" using assms(1) by (simp add: relay_backend_def)
  have rt: "ParseMultiClientHeader (b_uuids B) (WrapMultiClientFrame (b_uuids B) i t d) = Some (i, t, d)" for t d
    using uuid_lib.parse_wrap [OF uu] assms(5) by simp
  have "route B m (peers (m_store m)) p ty data = [(q, MessageBinary, WrapMultiClientFrame (b_uuids B) i ty data)]"
    using assms(6,9,10,11,13) by (simp add: route_def Let_def)
  then have up: "m_out (after (Forward B rd p ty data) m) = m_out m @ [Write q MessageBinary (WrapMultiClientFrame (b_uuids B) i ty data)]"
    using assms(3,17) by (simp add: f delivery_of_def)
  have "route B m (peers (m_store m)) q MessageBinary (WrapMultiClientFrame (b_uuids B) i ty reply) = [(p, ty, reply)]"
    using assms(6,7,8,14,15,16) rt by (simp add: route_def Let_def)
  then have "m_out (after (Forward B rd' q MessageBinary (WrapMultiClientFrame (b_uuids B) i ty reply)) m) = m_out m @ [Write p ty reply]"
    using assms(4,12) by (simp add: f delivery_of_def)
  with up rt show ?thesis by blast
qed

theorem multi_client_end_to_end_witness:
  "m_out (after (Forward mem_backend sample_rd 3 MessageBinary (WrapMultiClientFrame std_uuids sample_id MessageText ''pong''))
     (sample_relay\<lparr>m_limiter := Some (NewLimiter None 10 5)\<rparr>)) = [Write 4 MessageText ''pong'']"
proof -
  define m where "m = sample_relay\<lparr>m_limiter := Some (NewLimiter None 10 5)\<rparr>"
  have u: "uu_string (b_uuids mem_backend) (uu_parse (b_uuids mem_backend) sample_id) = sample_id"
    using sample_id_text by (simp add: mem_backend_def)
  have ok: "result (allow_message sample_rd i) m" for i
    by (simp add: m_def allow_message_def NewLimiter_def AllowMessage_def memAllow_spec entries_of_def split_def)
  have *: "mem_finite (m_store m)" "m_multiGroups m ''bob'' = Some \<lparr>g_serverConn = 3, g_clients = [sample_id \<mapsto> 4]\<rparr>"
    "m_out m = []" "m_heap m 4 = sample_conn ''k'' ''bob'' False False sample_id"
    "m_heap m 3 = sample_conn ''m'' ''bob'' True True []" "sample_id \<noteq> []" "b_uuids mem_backend = std_uuids"
    using sample_store_ok by (simp_all add: m_def sample_relay_def sample_id_def mem_backend_def)
  from multi_client_end_to_end [OF mem_relay.relay_backend_axioms *(1) ok ok u *(2), of 4 3 MessageText "''ping''" "''pong''"] *
  show ?thesis by (simp add: sample_conn_def maxPendingWrites_def flip: m_def)
qed

text \<open>C10 Registering a server is one atomic step on the routing state: when the username is valid and the
  installation may have it, it is bound to the installation and the connection waits for it, an
  earlier waiting connection of the name being dropped and closed; otherwise nothing changes at all,
  so a name in use can never be taken over or disturbed by another installation.\<close>
theorem register_server_refines:
  assumes "relay_backend B waiting peers store_ok tbl" "store_ok (m_store m)"
    "run_state (RegisterServer B rd p u i) m = (r, m')"
  shows "if r = Registered
    then IsValidUsername u \<and> owner (tbl (m_db m)) u \<in> {None, Some i}
      \<and> owner (tbl (m_db m')) = (owner (tbl (m_db m)))(u \<mapsto> i)
      \<and> abs_routing waiting peers m' = fst (rt_register p u (abs_routing waiting peers m))
      \<and> m_out m' = m_out m @ snd (rt_register p u (abs_routing waiting peers m))
    else tbl (m_db m') = tbl (m_db m) \<and> abs_routing waiting peers m' = abs_routing waiting peers m
      \<and> m_out m' = m_out m"
  using relay_backend.RegisterServer_refines [OF assms] by auto

theorem register_server_refines_witness:
  "m_out (after (RegisterServer mem_backend sample_rd 5 ''bob'' ''other'') sample_relay) = []"
proof -
  obtain r m' where r: "run_state (RegisterServer mem_backend sample_rd 5 ''bob'' ''other'') sample_relay = (r, m')" by force
  note f = register_server_refines [OF mem_relay.relay_backend_axioms sample_store_ok r]
  have "owner (m_db sample_relay) ''bob'' = Some ''home''" by (simp add: sample_relay_def owner_def)
  then have "m_out m' = []" using f by (auto simp: sample_relay_def split: if_splits)
  with r show ?thesis by simp
qed

text \<open>C11 Connecting a client is one atomic step on the routing state: an unregistered username changes
  nothing; otherwise the client joins the group of the waiting multi-client server, which is told, or
  becomes the peer of the waiting server, which then no longer waits; with no server it is refused.\<close>
theorem connect_client_refines:
  assumes "relay_backend B waiting peers store_ok tbl" "store_ok (m_store m)" "waits_ok (waiting (m_store m))"
    "run_state (ConnectClient B rd p u ci) m = (r, m')"
  shows "owner (tbl (m_db m')) = owner (tbl (m_db m))
    \<and> (r = refused ''unknown_username'' \<and> abs_routing waiting peers m' = abs_routing waiting peers m \<and> m_out m' = m_out m
       \<or> owner (tbl (m_db m)) u \<noteq> None
         \<and> (r, abs_routing waiting peers m', m_out m')
           = (case rt_connect p u (new_clientID rd) (abs_routing waiting peers m) of (r', R', es) \<Rightarrow> (r', R', m_out m @ es)))"
  using relay_backend.ConnectClient_refines [OF assms] by blast

theorem connect_client_refines_witness:
  "cr_Status (result (ConnectClient mem_backend sample_rd 5 ''ann'' []) sample_relay) = ''unknown_username''"
proof -
  obtain r m' where r: "run_state (ConnectClient mem_backend sample_rd 5 ''ann'' []) sample_relay = (r, m')" by force
  have w: "waits_ok (ms_waiting (m_store sample_relay))" by (simp add: waits_ok_def sample_relay_def ran_def)
  note f = connect_client_refines [OF mem_relay.relay_backend_axioms sample_store_ok w r]
  have "owner (m_db sample_relay) ''ann'' = None" by (simp add: sample_relay_def owner_def)
  then have "r = refused ''unknown_username''" using f by auto
  with r show ?thesis by (simp add: refused_def)
qed

text \<open>C12 Closing is one atomic step on the routing state: a client leaves its group and the server is
  told, a multi-client server takes its whole group with it, a waiting server stops waiting, and a
  paired connection takes its peer with it.\<close>
theorem handle_close_refines:
  assumes "relay_backend B waiting peers store_ok tbl" "store_ok (m_store m)" "peers_ok (peers (m_store m))"
    "c_ID (m_heap m p) \<noteq> []" "run_state (HandleClose B p) m = (r, m')"
  shows "(r, abs_routing waiting peers m', m_out m')
      = (case rt_close (b_order B) p (abs_routing waiting peers m) of (r', R', es) \<Rightarrow> (r', R', m_out m @ es))
    \<and> m_db m' = m_db m"
  using relay_backend.HandleClose_refines [OF assms] by blast

theorem handle_close_refines_witness:
  "m_out (after (HandleClose mem_backend 4) sample_relay)
   = [Write 3 MessageText (json_render (json_of_RelayClientLeft (NewRelayClientLeft sample_id)))]"
proof -
  obtain r m' where r: "run_state (HandleClose mem_backend 4) sample_relay = (r, m')" by force
  have "peers_ok (ms_peers (m_store sample_relay))" "c_ID (m_heap sample_relay 4) \<noteq> []"
    by (simp_all add: peers_ok_def sample_relay_def ran_def sample_conn_def)
  note f = handle_close_refines [OF mem_relay.relay_backend_axioms sample_store_ok this r]
  have "m_out m' = [Write 3 MessageText (json_render (json_of_RelayClientLeft (NewRelayClientLeft sample_id)))]"
    using f by (simp add: rt_close_def rt_leave_def abs_routing_def sample_relay_def sample_conn_def sample_id_def Let_def)
  with r show ?thesis by simp
qed

lemma RegisterServer_accepts:
  assumes sql: "sql_reliable (b_sql B) tbl" and v: "IsValidUsername u" and o: "owner (tbl (m_db m)) u \<in> {None, Some i}"
  shows "result (RegisterServer B rd p u i) m = Registered"
proof -
  obtain d1 where c: "run_state (CanRegister (b_sql B) u i) (m_db m) = (True, d1)" "tbl d1 = tbl (m_db m)"
    using sql_reliable.CanRegister_reliable [OF sql, of u i "m_db m"] v o by auto
  obtain ok d2 where r: "run_state (Register (b_sql B) (at_reg rd) u i) d1 = (ok, d2)" by force
  have "ok" using sql_reliable.Register_refines [OF sql, of "at_reg rd" u i d1] r c o v by (auto simp: register_spec_def split: if_splits)
  then show ?thesis using c r v by (simp add: RegisterServer_def relay_simps split_def)
qed

lemma ConnectClient_waiting:
  assumes R: "relay_backend B waiting peers store_ok tbl" and sql: "sql_reliable (b_sql B) tbl"
    and o: "owner (tbl (m_db m)) u \<noteq> None" and s: "store_ok (m_store m)" "waits_ok (waiting (m_store m))"
    and r: "run_state (ConnectClient B rd p u ci) m = (r, m')"
  shows "(r, abs_routing waiting peers m', m_out m')
    = (case rt_connect p u (new_clientID rd) (abs_routing waiting peers m) of (r', R', es) \<Rightarrow> (r', R', m_out m @ es))"
proof -
  have "result (IsRegistered (b_sql B) u) (m_db m)"
    using sql_reliable.IsRegistered_reliable [OF sql, of u "m_db m"] o by auto
  then have "r \<noteq> refused ''unknown_username''"
    using r by (auto simp: ConnectClient_def relay_simps refused_def split: prod.splits attachment.splits)
  then show ?thesis using relay_backend.ConnectClient_refines [OF R s r] by blast
qed

lemma section_limiter [simp]:
  "m_limiter (after (enter_waiting B p u) m) = m_limiter m"
  "m_limiter (after (attach B rd p u) m) = m_limiter m"
  by (auto simp: enter_waiting_def attach_def join_group_def relay_simps split_def Let_def split: option.splits)

lemma handshake_limiter [simp]:
  "m_limiter (after (RegisterServer B rd p u i) m) = m_limiter m"
  "m_limiter (after (ConnectClient B rd p u ci) m) = m_limiter m"
  by (auto simp: RegisterServer_def ConnectClient_def relay_simps split_def split: attachment.splits)

lemma register_unowned:
  assumes "IsValidUsername u" "u \<noteq> ''bob''"
  shows "result (RegisterServer mem_backend rd p u i) sample_relay = Registered"
proof (rule RegisterServer_accepts [OF _ assms(1)])
  show "sql_reliable (b_sql mem_backend) id" by (simp add: mem_backend_def table_db.sql_reliable_axioms)
  show "owner (id (m_db sample_relay)) u \<in> {None, Some i}" using assms(2) by (simp add: sample_relay_def owner_def)
qed

section \<open>Concurrent writes\<close>

text \<open>Goroutines inside \<open>writeToConn\<close> for one target: each entry tells whether its call issued the write.
  A goroutine enters, or the one at a position returns.\<close>
datatype write_event = Enter cref msg_type bytes | Leave nat

fun write_run :: "cref \<Rightarrow> write_event list \<Rightarrow> bool list \<times> ('s, 'd, 'r) manager \<Rightarrow> bool list \<times> ('s, 'd, 'r) manager" where
  "write_run target [] s = s"
| "write_run target (Enter sender ty data # es) (calls, m) =
     (case run_state (write_begin target sender ty data) m of (issued, m') \<Rightarrow> write_run target es (calls @ [issued], m'))"
| "write_run target (Leave k # es) (calls, m) =
     (if k < length calls
      then write_run target es (take k calls @ drop (Suc k) calls, after (write_end target) m)
      else write_run target es (calls, m))"

lemma write_begin_run:
  assumes "run_state (write_begin target sender ty data) m = (issued, m')"
  shows "c_PendingWrites (m_heap m' target) = c_PendingWrites (m_heap m target) + 1"
    "issued = (c_PendingWrites (m_heap m target) < maxPendingWrites)"
  using assms by (auto simp: write_begin_def relay_simps split: if_splits)

lemma write_end_run:
  "c_PendingWrites (m_heap (after (write_end target) m) target) = c_PendingWrites (m_heap m target) - 1"
  by (simp add: write_end_def relay_simps)

lemma write_run_bound:
  assumes "write_run target es (calls, m) = (calls', m')"
    "c_PendingWrites (m_heap m target) = int (length calls)" "int (length (filter id calls)) \<le> maxPendingWrites"
  shows "c_PendingWrites (m_heap m' target) = int (length calls') \<and> int (length (filter id calls')) \<le> maxPendingWrites"
  using assms
proof (induction target es "(calls, m)" arbitrary: calls m rule: write_run.induct)
  case (2 target sender ty data es calls m)
  obtain i m1 where b: "run_state (write_begin target sender ty data) m = (i, m1)" by force
  note w = write_begin_run [OF b]
  have "int (length (filter id (calls @ [i]))) \<le> maxPendingWrites"
    using w(2) 2(3,4) zero_le [of "length calls"] length_filter_le [of id calls] by (cases i; simp; linarith)
  then show ?case using 2(1) [OF b [symmetric]] 2(2,3) w(1) b by simp
next
  case (3 target k es calls m)
  show ?case
  proof (cases "k < length calls")
    case True
    have split: "calls = take k calls @ calls ! k # drop (Suc k) calls" by (rule id_take_nth_drop [OF True])
    have "length (filter id calls) = length (filter id (take k calls)) + length (filter id (calls ! k # drop (Suc k) calls))"
      by (subst split) (simp only: filter_append length_append)
    then have "length (filter id (take k calls @ drop (Suc k) calls)) \<le> length (filter id calls)" by simp
    then show ?thesis using 3 True write_end_run [of target m] by simp
  next
    case False
    then show ?thesis using 3 by simp
  qed
qed auto

text \<open>C24 However the goroutines inside \<open>writeToConn\<close> for one connection interleave, never more than a hundred of the
  writes they issue to it are under way at once, and the counter is the number of goroutines inside. Control
  messages and the answers to handshakes are written without the counter and are not bounded by it.\<close>
theorem writes_in_flight_bounded:
  assumes "c_PendingWrites (m_heap m target) = 0" "write_run target es ([], m) = (calls, m')"
  shows "length (filter id calls) \<le> 100 \<and> c_PendingWrites (m_heap m' target) = int (length calls)"
  using write_run_bound [OF assms(2)] assms(1) by (auto simp: maxPendingWrites_def)

theorem writes_in_flight_bounded_witness:
  "fst (write_run 1 [Enter 2 MessageText ''a'', Enter 2 MessageText ''b'', Leave 0] ([], sample_relay)) = [True]"
proof -
  obtain cs m' where r: "write_run 1 [Enter 2 MessageText ''a'', Enter 2 MessageText ''b'', Leave 0] ([], sample_relay) = (cs, m')"
    by force
  have "c_PendingWrites (m_heap sample_relay 1) = 0" by (simp add: sample_relay_def sample_conn_def)
  from writes_in_flight_bounded [OF this r] have "length cs = 1"
    using r by (auto simp: write_begin_def write_end_def relay_simps sample_relay_def sample_conn_def maxPendingWrites_def)
  then show ?thesis using r
    by (auto simp: write_begin_def write_end_def relay_simps sample_relay_def sample_conn_def maxPendingWrites_def)
qed

section \<open>Where the manager goes wrong\<close>

text \<open>C34 A client that connects while a group for the username is left from an earlier server joins that
  group: it is told it is connected to the waiting server, but its frames go to the connection the
  group was made for, even when that one has been replaced.\<close>
theorem join_keeps_old_server:
  assumes "relay_backend B waiting peers store_ok tbl" "sql_reliable (b_sql B) tbl" "owner (tbl (m_db m)) u \<noteq> None"
    "store_ok (m_store m)" "waits_ok (waiting (m_store m))" "waiting (m_store m) u = Some s" "m_conns m s = Some q"
    "c_MultiClient (m_heap m q)" "m_multiGroups m u = Some g" "run_state (ConnectClient B rd p u ci) m = (r, m')"
  shows "cr_ServerWS r = Some q
    \<and> m_multiGroups m' u = Some (g\<lparr>g_clients := (g_clients g)(new_clientID rd \<mapsto> p)\<rparr>)"
proof -
  define R where "R = abs_routing waiting peers m"
  have "(r, abs_routing waiting peers m', m_out m')
      = (\<lparr>cr_Status = ''connected'', cr_ServerWS = Some q, cr_ClientID = new_clientID rd\<rparr>, rt_join p u q (new_clientID rd) R,
         m_out m @ [Write q MessageText (json_render (json_of_RelayClientJoined (NewRelayClientJoined (new_clientID rd))))])"
    using ConnectClient_waiting [OF assms(1,2,3,4,5,10)] assms(6,7,8) by (simp add: rt_connect_def R_def abs_routing_def)
  moreover from this have "rt_groups (abs_routing waiting peers m') = rt_groups (rt_join p u q (new_clientID rd) R)" by simp
  ultimately show ?thesis using assms(9) by (simp add: rt_join_def Let_def R_def abs_routing_def)
qed

theorem join_keeps_old_server_witness:
  "\<exists>(m :: (mem_store, utable, unit) manager) r m'. run_state (ConnectClient mem_backend sample_rd 5 ''bob'' []) m = (r, m') \<and> cr_ServerWS r = Some 6
     \<and> map_option g_serverConn (m_multiGroups m' ''bob'') = Some 3"
proof -
  define m where "m = sample_relay\<lparr>m_heap := (m_heap sample_relay)(6 := sample_conn ''n'' ''bob'' True True []),
    m_conns := [''k'' \<mapsto> 4, ''n'' \<mapsto> 6], m_store := \<lparr>ms_waiting = [''bob'' \<mapsto> ''n''], ms_peers = Map.empty\<rparr>\<rparr>"
  obtain r m' where run: "run_state (ConnectClient mem_backend sample_rd 5 ''bob'' []) m = (r, m')" by force
  have m: "owner (id (m_db m)) ''bob'' \<noteq> None" "mem_finite (m_store m)" "waits_ok (ms_waiting (m_store m))"
    "ms_waiting (m_store m) ''bob'' = Some ''n''" "m_conns m ''n'' = Some 6" "c_MultiClient (m_heap m 6)"
    "m_multiGroups m ''bob'' = Some \<lparr>g_serverConn = 3, g_clients = [sample_id \<mapsto> 4]\<rparr>"
    by (simp_all add: m_def sample_relay_def sample_conn_def owner_def mem_finite_def waits_ok_def)
  have sql: "sql_reliable (b_sql mem_backend) id" by (simp add: mem_backend_def table_db.sql_reliable_axioms)
  show ?thesis using join_keeps_old_server [OF mem_relay.relay_backend_axioms sql m run] run
    by (intro exI [of _ m] exI [of _ r] exI [of _ m']) simp
qed

end
