(* ===== verification/Auth.thy ===== *)
theory Auth
  imports Ratelimit Json_Render
begin

text \<open>
  \<open>internal/auth/jwt.go\<close>: tokens that bind a username to an installation for thirty days.

  The JWT library is a parameter: \<open>jl_sign key claims\<close> is \<open>SignedString\<close> with HS256,
  \<open>jl_parse keyfunc now token\<close> is \<open>ParseWithClaims\<close>, which asks \<open>keyfunc\<close> for the key once it
  has read the signing method in the token's header. What the relay relies on are the locales
  \<open>jwt_sound\<close> (whatever is accepted is signed and in date) and \<open>jwt_correct\<close> (and what the relay issues is
  accepted until it expires). Times are nanoseconds; the dates in claims are whole seconds.
\<close>

section \<open>Tokens\<close>

datatype signing_method = HMAC string | OtherMethod string

text \<open>\<open>jwt.RegisteredClaims\<close>, which \<open>RelayClaims\<close> embeds; an absent field has its zero value.\<close>
record RegisteredClaims =
  rg_Issuer :: string
  rg_Subject :: string
  rg_Audience :: "string list"
  rg_ExpiresAt :: "int option"
  rg_NotBefore :: "int option"
  rg_IssuedAt :: "int option"
  rg_ID :: string

record RelayClaims = RegisteredClaims +
  rc_Username :: string
  rc_InstallID :: string

type_synonym keyfunc = "signing_method \<Rightarrow> bytes option"

record jwt_lib =
  jl_parse :: "keyfunc \<Rightarrow> int \<Rightarrow> string \<Rightarrow> RelayClaims option"
  jl_sign :: "bytes \<Rightarrow> RelayClaims \<Rightarrow> string option"

definition tokenExpiry :: int where
  "tokenExpiry = 30 * 24 * (3600 * second)"

text \<open>\<open>jwt.NewNumericDate\<close> drops the fraction of the second.\<close>
definition NewNumericDate :: "int \<Rightarrow> int option" where
  "NewNumericDate t = Some (t div second)"

definition IssueToken :: "jwt_lib \<Rightarrow> int \<Rightarrow> string \<Rightarrow> string \<Rightarrow> string \<Rightarrow> string option" where
  "IssueToken J now secret username installID =
     jl_sign J secret
       \<lparr>rg_Issuer = [], rg_Subject = [], rg_Audience = [], rg_ExpiresAt = NewNumericDate (now + tokenExpiry),
        rg_NotBefore = None, rg_IssuedAt = NewNumericDate now, rg_ID = [],
        rc_Username = username, rc_InstallID = installID\<rparr>"

definition hmac_key :: "string \<Rightarrow> keyfunc" where
  "hmac_key secret m = (case m of HMAC alg \<Rightarrow> Some secret | OtherMethod alg \<Rightarrow> None)"

definition ValidateToken :: "jwt_lib \<Rightarrow> int \<Rightarrow> string \<Rightarrow> string \<Rightarrow> RelayClaims option" where
  "ValidateToken J now secret tokenString = jl_parse J (hmac_key secret) now tokenString"

text \<open>The clock is read once to validate and once to issue.\<close>
definition RefreshToken :: "jwt_lib \<Rightarrow> int \<Rightarrow> int \<Rightarrow> string \<Rightarrow> string \<Rightarrow> string option" where
  "RefreshToken J now1 now2 secret tokenString =
     (case ValidateToken J now1 secret tokenString of
        None \<Rightarrow> None
      | Some claims \<Rightarrow> IssueToken J now2 secret (rc_Username claims) (rc_InstallID claims))"

section \<open>What the relay relies on\<close>

text \<open>A claim set has not expired: it has no expiry date, or the date lies ahead. It may be used: it names no
  date before which it may not, or the date has come.\<close>
definition unexpired :: "int \<Rightarrow> RelayClaims \<Rightarrow> bool" where
  "unexpired now c = (case rg_ExpiresAt c of None \<Rightarrow> True | Some e \<Rightarrow> now < e * second)"

definition usable :: "int \<Rightarrow> RelayClaims \<Rightarrow> bool" where
  "usable now c = (case rg_NotBefore c of None \<Rightarrow> True | Some b \<Rightarrow> b * second \<le> now)"

text \<open>\<open>payload tok\<close> are the claims a token carries, \<open>signed m key tok\<close> says that its signature verifies. A token
  is only accepted with its own claims, inside their dates, and with a signature under a key \<open>keyfunc\<close> gave.\<close>
locale jwt_sound =
  fixes J :: jwt_lib and payload :: "string \<Rightarrow> RelayClaims option" and signed :: "signing_method \<Rightarrow> bytes \<Rightarrow> string \<Rightarrow> bool"
  assumes parse_sound: "jl_parse J kf now tok = Some c \<Longrightarrow>
    payload tok = Some c \<and> unexpired now c \<and> usable now c \<and> (\<exists>m key. kf m = Some key \<and> signed m key tok)"
begin

lemma validate_sound:
  "ValidateToken J now secret tok = Some c \<Longrightarrow>
     payload tok = Some c \<and> unexpired now c \<and> usable now c \<and> (\<exists>alg. signed (HMAC alg) secret tok)"
proof -
  assume "ValidateToken J now secret tok = Some c"
  then obtain m key where m: "payload tok = Some c" "unexpired now c" "usable now c"
      "hmac_key secret m = Some key" "signed m key tok"
    using parse_sound [of "hmac_key secret" now tok c] by (auto simp: ValidateToken_def)
  then show ?thesis by (cases m) (auto simp: hmac_key_def)
qed

end

text \<open>Claims as the relay issues them: no registered claim but the dates of issue and expiry, whole seconds a
  JSON number carries exactly, and names that JSON carries unchanged.\<close>
definition date_ok :: "int option \<Rightarrow> bool" where
  "date_ok x = (case x of None \<Rightarrow> True | Some i \<Rightarrow> 0 \<le> i \<and> i < 2 ^ 53)"

definition relay_claims :: "RelayClaims \<Rightarrow> bool" where
  "relay_claims c \<longleftrightarrow> rg_Issuer c = [] \<and> rg_Subject c = [] \<and> rg_Audience c = [] \<and> rg_NotBefore c = None \<and> rg_ID c = []
     \<and> date_ok (rg_IssuedAt c) \<and> date_ok (rg_ExpiresAt c) \<and> utf8_valid (rc_Username c) \<and> utf8_valid (rc_InstallID c)"

text \<open>Such claims, signed with HS256, are read back under the same key until they expire.\<close>
locale jwt_correct = jwt_sound +
  assumes fresh_accepted: "jl_sign J key c = Some tok \<Longrightarrow> relay_claims c \<Longrightarrow> kf (HMAC ''HS256'') = Some key \<Longrightarrow>
    unexpired now c \<Longrightarrow> jl_parse J kf now tok = Some c"
begin

lemma issued_until:
  assumes issue: "IssueToken J issued secret u i = Some tok" and dates: "0 \<le> issued" "issued < 2 ^ 63"
    and names: "utf8_valid u" "utf8_valid i"
  shows "map_option (\<lambda>c. (rc_Username c, rc_InstallID c)) (ValidateToken J now secret tok)
    = (if now < (issued + tokenExpiry) div second * second then Some (u, i) else None)"
proof -
  define c where "c = \<lparr>rg_Issuer = [], rg_Subject = [], rg_Audience = [], rg_ExpiresAt = NewNumericDate (issued + tokenExpiry),
        rg_NotBefore = None, rg_IssuedAt = NewNumericDate issued, rg_ID = [], rc_Username = u, rc_InstallID = i\<rparr>"
  have "relay_claims c"
    using dates names
    by (simp add: relay_claims_def c_def date_ok_def NewNumericDate_def second_def tokenExpiry_def)
      (intro conjI; linarith)
  then have ok: "ValidateToken J t secret tok = Some c" if "unexpired t c" for t
    using fresh_accepted [of secret c tok "hmac_key secret" t] issue that
    by (simp add: IssueToken_def c_def ValidateToken_def hmac_key_def)
  have e: "unexpired t c \<longleftrightarrow> t < (issued + tokenExpiry) div second * second" for t
    by (simp add: unexpired_def c_def NewNumericDate_def)
  have "unexpired ((issued + tokenExpiry) div second * second - 1) c" by (simp add: e)
  then have p: "payload tok = Some c" using validate_sound ok by blast
  show ?thesis
  proof (cases "unexpired now c")
    case False
    then have "ValidateToken J now secret tok = None" using validate_sound [of now secret tok] p
      by (cases "ValidateToken J now secret tok") auto
    with False show ?thesis by (simp add: e)
  qed (use ok e in \<open>simp add: c_def\<close>)
qed

text \<open>A name that does not survive the round trip through JSON is left out: the claims of an accepted token have been
  read from JSON, so they are valid UTF-8; the law does not say so, and the premise stands in for it.\<close>
lemma refresh_validate:
  assumes "RefreshToken J now1 now2 secret tok = Some tok'" "0 \<le> now2" "now2 < 2 ^ 63"
    "now < (now2 + tokenExpiry) div second * second"
    "\<And>c. payload tok = Some c \<Longrightarrow> utf8_valid (rc_Username c) \<and> utf8_valid (rc_InstallID c)"
  shows "\<exists>c. ValidateToken J now1 secret tok = Some c
    \<and> map_option (\<lambda>c. (rc_Username c, rc_InstallID c)) (ValidateToken J now secret tok') = Some (rc_Username c, rc_InstallID c)"
proof -
  obtain c where c: "ValidateToken J now1 secret tok = Some c"
      "IssueToken J now2 secret (rc_Username c) (rc_InstallID c) = Some tok'"
    using assms(1) by (auto simp: RefreshToken_def split: option.splits)
  have "utf8_valid (rc_Username c) \<and> utf8_valid (rc_InstallID c)" using assms(5) validate_sound [OF c(1)] by blast
  with issued_until [OF c(2) assms(2,3)] c(1) assms(4) show ?thesis by simp
qed

end

section \<open>A library that keeps the promise\<close>

text \<open>Claims in the clear next to the key that signed them; it only shows that the assumptions
  can hold, and serves to evaluate concrete runs.\<close>
definition json_opt :: "int option \<Rightarrow> json" where
  "json_opt x = (case x of None \<Rightarrow> JNull | Some i \<Rightarrow> JNum (show_int i))"

definition opt_json :: "json \<Rightarrow> int option" where
  "opt_json j = (case j of JNum t \<Rightarrow> atoi t | _ \<Rightarrow> None)"

definition open_json :: "string \<Rightarrow> bytes \<Rightarrow> RelayClaims \<Rightarrow> json" where
  "open_json alg key c = JArr [JStr alg, JStr key, json_opt (rg_IssuedAt c), json_opt (rg_ExpiresAt c),
     JStr (rc_Username c), JStr (rc_InstallID c)]"

definition open_ok :: "bytes \<Rightarrow> RelayClaims \<Rightarrow> bool" where
  "open_ok key c \<longleftrightarrow> utf8_valid key \<and> relay_claims c"

definition open_sign :: "bytes \<Rightarrow> RelayClaims \<Rightarrow> string option" where
  "open_sign key c = (if open_ok key c then Some (json_render (open_json ''HS256'' key c)) else None)"

fun open_read :: "json \<Rightarrow> (string \<times> bytes \<times> RelayClaims) option" where
  "open_read (JArr [JStr alg, JStr key, iat, e, JStr u, JStr i]) =
     Some (alg, key, \<lparr>rg_Issuer = [], rg_Subject = [], rg_Audience = [], rg_ExpiresAt = opt_json e,
       rg_NotBefore = None, rg_IssuedAt = opt_json iat, rg_ID = [], rc_Username = u, rc_InstallID = i\<rparr>)"
| "open_read _ = None"

definition open_token :: "string \<Rightarrow> (string \<times> bytes \<times> RelayClaims) option" where
  "open_token tok = Option.bind (parse_json tok) open_read"

definition open_parse :: "keyfunc \<Rightarrow> int \<Rightarrow> string \<Rightarrow> RelayClaims option" where
  "open_parse kf now tok =
     (case open_token tok of
        None \<Rightarrow> None
      | Some (alg, key, c) \<Rightarrow>
          if kf (HMAC alg) = Some key \<and> unexpired now c \<and> usable now c then Some c else None)"

definition open_jwt :: jwt_lib where
  "open_jwt = \<lparr>jl_parse = open_parse, jl_sign = open_sign\<rparr>"

definition open_payload :: "string \<Rightarrow> RelayClaims option" where
  "open_payload tok = map_option (\<lambda>(alg, key, c). c) (open_token tok)"

definition open_signed :: "signing_method \<Rightarrow> bytes \<Rightarrow> string \<Rightarrow> bool" where
  "open_signed m key tok = (\<exists>alg c. m = HMAC alg \<and> open_token tok = Some (alg, key, c))"

lemma opt_json_opt: "date_ok x \<Longrightarrow> opt_json (json_opt x) = x"
  by (cases x) (simp_all add: opt_json_def json_opt_def date_ok_def atoi_show_int)

lemma open_read_json: "relay_claims c \<Longrightarrow> open_read (open_json alg key c) = Some (alg, key, c)"
  by (simp add: open_json_def opt_json_opt relay_claims_def)

lemma wf_open_json:
  assumes "open_ok key c"
  shows "wf_json max_nesting (open_json ''HS256'' key c)"
proof -
  have "utf8_valid ''HS256''" by code_simp
  with assms show ?thesis
    by (auto simp: open_json_def open_ok_def relay_claims_def json_opt_def int_literal_show_int max_nesting_def
        simp del: utf8_valid.simps split: option.splits)
qed

interpretation open_jwt: jwt_correct open_jwt open_payload open_signed
proof
  fix kf now tok c
  assume "jl_parse open_jwt kf now tok = Some c"
  then obtain alg key where "open_token tok = Some (alg, key, c)" "kf (HMAC alg) = Some key" "unexpired now c" "usable now c"
    by (auto simp: open_jwt_def open_parse_def split: option.splits prod.splits if_splits)
  then show "open_payload tok = Some c \<and> unexpired now c \<and> usable now c \<and> (\<exists>m key. kf m = Some key \<and> open_signed m key tok)"
    by (auto simp: open_payload_def open_signed_def)
next
  fix key c tok kf now
  assume sign: "jl_sign open_jwt key c = Some tok" and c: "relay_claims c" "kf (HMAC ''HS256'') = Some key" "unexpired now c"
  then have "open_ok key c" "tok = json_render (open_json ''HS256'' key c)"
    by (auto simp: open_jwt_def open_sign_def split: if_splits)
  then have "open_token tok = Some (''HS256'', key, c)"
    using parse_json_render [OF wf_open_json] c(1) by (simp add: open_token_def open_read_json)
  moreover have "usable now c" using c(1) by (simp add: usable_def relay_claims_def)
  ultimately show "jl_parse open_jwt kf now tok = Some c"
    using c by (simp add: open_jwt_def open_parse_def)
qed

section \<open>Properties\<close>

text \<open>C27 A token the relay issues is accepted with the username and the installation it was issued for, until
  the whole second that contains the moment thirty days after its issue begins, and refused from then on;
  both names are valid UTF-8, and the time of issue is a 64-bit count of nanoseconds.\<close>
theorem issued_token_validates:
  assumes "jwt_correct J payload sig" "IssueToken J issued secret u i = Some tok" "0 \<le> issued" "issued < 2 ^ 63"
    "utf8_valid u" "utf8_valid i"
  shows "map_option (\<lambda>c. (rc_Username c, rc_InstallID c)) (ValidateToken J now secret tok)
    = (if now < (issued + 30 * 24 * 3600 * 10 ^ 9) div 10 ^ 9 * 10 ^ 9 then Some (u, i) else None)"
  using jwt_correct.issued_until [OF assms, of now] by (simp add: tokenExpiry_def second_def)

definition sample_token :: string where
  "sample_token = (case IssueToken open_jwt 0 ''key'' ''ann'' ''i1'' of Some t \<Rightarrow> t | None \<Rightarrow> [])"

lemma sample_token_issued: "IssueToken open_jwt 0 ''key'' ''ann'' ''i1'' = Some sample_token"
proof -
  have "IssueToken open_jwt 0 ''key'' ''ann'' ''i1'' \<noteq> None" by code_simp
  then show ?thesis by (auto simp: sample_token_def)
qed

theorem issued_token_validates_witness:
  "map_option (\<lambda>c. (rc_Username c, rc_InstallID c)) (ValidateToken open_jwt 1000 ''key'' sample_token) = Some (''ann'', ''i1'')
   \<and> ValidateToken open_jwt (30 * 24 * 3600 * 10 ^ 9) ''key'' sample_token = None"
proof -
  have u: "utf8_valid ''ann''" "utf8_valid ''i1''" by code_simp+
  show ?thesis
    using issued_token_validates [OF open_jwt.jwt_correct_axioms sample_token_issued _ _ u, of 1000]
      issued_token_validates [OF open_jwt.jwt_correct_axioms sample_token_issued _ _ u, of "30 * 24 * 3600 * 10 ^ 9"]
    by simp
qed

text \<open>Refreshing a token that is still valid yields a token for the same username and installation
  with a fresh thirty days; an invalid or expired token is not refreshed.\<close>
lemma refreshed_token_keeps_identity:
  assumes "jwt_correct J payload sig" "RefreshToken J now1 now2 secret tok = Some tok'" "0 \<le> now2" "now2 < 2 ^ 63"
    "now < (now2 + tokenExpiry) div second * second"
    "\<And>c. payload tok = Some c \<Longrightarrow> utf8_valid (rc_Username c) \<and> utf8_valid (rc_InstallID c)"
  shows "ValidateToken J now1 secret tok \<noteq> None
    \<and> map_option (\<lambda>c. (rc_Username c, rc_InstallID c)) (ValidateToken J now secret tok')
      = map_option (\<lambda>c. (rc_Username c, rc_InstallID c)) (ValidateToken J now1 secret tok)"
  using jwt_correct.refresh_validate [OF assms] by auto

end
