(* ===== verification/Handler.thy ===== *)
theory Handler
  imports Routing Auth
begin

text \<open>
  \<open>internal/handler/handler.go\<close>: the life of one websocket. \<open>handle_message\<close> is the body of the
  read loop for one frame, with every early return; \<open>deferred\<close> is what the \<open>defer\<close> runs when the
  loop is left; \<open>serve\<close> runs the loop on the frames read before a read fails; \<open>ping_tick\<close> is one
  tick of the keepalive goroutine, \<open>pingLoop\<close> all of it.
\<close>

section \<open>Configuration\<close>

record handler_config =
  hc_PingInterval :: int
  hc_PongTimeout :: int
  hc_ServerAuthToken :: string
  hc_JWTSecret :: string

text \<open>How the loop goes on: with the next frame, with the next frame after starting the keepalive
  goroutine, or not at all.\<close>
datatype loop = Continue | ContinuePing | Return

section \<open>One frame\<close>

definition sendJSON :: "cref \<Rightarrow> json \<Rightarrow> ('s, 'd, 'r, unit) relay" where
  "sendJSON p v = emit (Write p MessageText (json_render v))"

text \<open>The username, the installation and whether a token vouched for them.\<close>
definition jwt_identity :: "jwt_lib \<Rightarrow> readings \<Rightarrow> handler_config \<Rightarrow> ServerRegister \<Rightarrow> string \<times> string \<times> bool" where
  "jwt_identity J rd cfg m =
     (if hc_JWTSecret cfg \<noteq> [] \<and> sr_JWT m \<noteq> [] then
        (case ValidateToken J (at_validate rd) (hc_JWTSecret cfg) (sr_JWT m) of
           Some claims \<Rightarrow> (rc_Username claims, rc_InstallID claims, True)
         | None \<Rightarrow> (sr_Username m, sr_InstallID m, False))
      else (sr_Username m, sr_InstallID m, False))"

definition handle_register ::
  "('s, 'd) backend \<Rightarrow> jwt_lib \<Rightarrow> handler_config \<Rightarrow> string \<Rightarrow> readings \<Rightarrow> cref \<Rightarrow> ServerRegister
     \<Rightarrow> ('s, 'd, 'r, loop) relay" where
  "handle_register B J cfg bearerToken rd p m =
     (case jwt_identity J rd cfg m of (username, installID, jwtAuthenticated) \<Rightarrow>
        if \<not> jwtAuthenticated \<and> hc_ServerAuthToken cfg \<noteq> [] \<and> sr_AuthToken m \<noteq> hc_ServerAuthToken cfg
           \<and> bearerToken \<noteq> hc_ServerAuthToken cfg
        then do {
          _ \<leftarrow> sendJSON p (json_of_ServerRejected (NewServerRejected ''unauthorized''));
          _ \<leftarrow> emit (Close p StatusPolicyViolation ''Registration rejected: unauthorized'');
          State_Monad.return Return
        }
        else do {
          result \<leftarrow> RegisterServer B rd p username installID;
          if result = Registered then do {
            _ \<leftarrow> upd_conn p (\<lambda>c. c\<lparr>c_Username := username, c_IsServer := True, c_MultiClient := sr_MultiClient m\<rparr>);
            let jwtToken = (if hc_JWTSecret cfg \<noteq> []
                then (case IssueToken J (at_issue rd) (hc_JWTSecret cfg) username installID of None \<Rightarrow> [] | Some t \<Rightarrow> t)
                else []);
            _ \<leftarrow> sendJSON p (json_of_ServerRegistered (NewServerRegistered jwtToken (sr_MultiClient m)));
            State_Monad.return ContinuePing
          }
          else do {
            _ \<leftarrow> sendJSON p (json_of_ServerRejected (NewServerRejected (result_text result)));
            _ \<leftarrow> emit (Close p StatusNormalClosure (''Registration rejected: '' @ result_text result));
            State_Monad.return Return
          }
        })"

definition replay_buffer :: "cref \<Rightarrow> string \<Rightarrow> ('s, 'd, 'r, unit) relay" where
  "replay_buffer p username = do {
     frames \<leftarrow> GetBufferedMessages username;
     if length frames > 0 then do {
       _ \<leftarrow> sendJSON p (json_of_BufferedMessages (NewBufferedMessages frames));
       ClearBuffer username
     }
     else State_Monad.return ()
   }"

definition handle_connect ::
  "('s, 'd) backend \<Rightarrow> readings \<Rightarrow> cref \<Rightarrow> ClientConnect \<Rightarrow> ('s, 'd, 'r, loop) relay" where
  "handle_connect B rd p m = do {
     connResult \<leftarrow> ConnectClient B rd p (cc_Username m) (cc_ClientID m);
     if cr_Status connResult = ''connected'' then do {
       _ \<leftarrow> upd_conn p (\<lambda>c. c\<lparr>c_Username := cc_Username m, c_IsServer := False, c_ClientID := cr_ClientID connResult\<rparr>);
       _ \<leftarrow> sendJSON p (json_of_ClientConnected (NewClientConnected (cr_ClientID connResult)));
       _ \<leftarrow> replay_buffer p (cc_Username m);
       State_Monad.return Continue
     }
     else do {
       _ \<leftarrow> sendJSON p (json_of_ClientError (NewClientError (cr_Status connResult)));
       _ \<leftarrow> emit (Close p StatusNormalClosure (''Connection failed: '' @ cr_Status connResult));
       State_Monad.return Return
     }
   }"

definition handle_message ::
  "('s, 'd) backend \<Rightarrow> jwt_lib \<Rightarrow> handler_config \<Rightarrow> string \<Rightarrow> readings \<Rightarrow> cref \<Rightarrow> msg_type \<Rightarrow> bytes
     \<Rightarrow> ('s, 'd, 'r, loop) relay" where
  "handle_message B J cfg bearerToken rd p msgType data = do {
     paired \<leftarrow> IsPaired B p;
     if paired then do {
       _ \<leftarrow> Forward B rd p msgType data;
       State_Monad.return Continue
     }
     else if msgType \<noteq> MessageText then State_Monad.return Continue
     else (case ParseMessage data of
         None \<Rightarrow> State_Monad.return Continue
       | Some (MServerRegister m) \<Rightarrow> handle_register B J cfg bearerToken rd p m
       | Some (MClientConnect m) \<Rightarrow> handle_connect B rd p m)
   }"

text \<open>The \<open>defer\<close>; \<open>pingStop\<close> cancels a context and leaves no trace here.\<close>
definition deferred :: "('s, 'd) backend \<Rightarrow> cref \<Rightarrow> ('s, 'd, 'r, unit) relay" where
  "deferred B p = do {
     _ \<leftarrow> HandleClose B p;
     emit (CloseNow p)
   }"

section \<open>The whole connection\<close>

text \<open>The frames that arrive, with the readings each is handled at, until a read fails.\<close>
type_synonym frames = "(readings \<times> msg_type \<times> bytes) list"

fun read_loop ::
  "('s, 'd) backend \<Rightarrow> jwt_lib \<Rightarrow> handler_config \<Rightarrow> string \<Rightarrow> cref \<Rightarrow> frames \<Rightarrow> ('s, 'd, 'r, unit) relay" where
  "read_loop B J cfg bearerToken p [] = State_Monad.return ()"
| "read_loop B J cfg bearerToken p ((rd, msgType, data) # fs) = do {
     next \<leftarrow> handle_message B J cfg bearerToken rd p msgType data;
     if next = Return then State_Monad.return () else read_loop B J cfg bearerToken p fs
   }"

definition ServeWS ::
  "('s, 'd) backend \<Rightarrow> jwt_lib \<Rightarrow> handler_config \<Rightarrow> string \<Rightarrow> string \<Rightarrow> cref \<Rightarrow> frames \<Rightarrow> ('s, 'd, 'r, unit) relay" where
  "ServeWS B J cfg bearerToken uid p fs = do {
     _ \<leftarrow> upd_conn p (\<lambda>_. NewConn uid);
     _ \<leftarrow> read_loop B J cfg bearerToken p fs;
     deferred B p
   }"

section \<open>Keepalive\<close>

text \<open>\<open>time.NewTicker\<close> panics on an interval that is not positive.\<close>
definition ping_starts :: "handler_config \<Rightarrow> bool" where
  "ping_starts cfg \<longleftrightarrow> hc_PingInterval cfg > 0"

text \<open>One tick; \<open>pong\<close> tells whether the ping was answered in time. \<open>True\<close>: the loop goes on.\<close>
definition ping_tick :: "('s, 'd) backend \<Rightarrow> bool \<Rightarrow> cref \<Rightarrow> ('s, 'd, 'r, bool) relay" where
  "ping_tick B pong p = do {
     paired \<leftarrow> IsPaired B p;
     if paired then State_Monad.return False
     else do {
       _ \<leftarrow> emit (Ping p);
       if pong then State_Monad.return True
       else do {
         _ \<leftarrow> emit (Close p StatusNormalClosure ''Pong timeout'');
         State_Monad.return False
       }
     }
   }"

text \<open>What wakes the keepalive goroutine: its context is done, or its ticker fires, with the fate of the ping
  should one be sent. The list is what happens from here on; it is left when the loop returns.\<close>
datatype wake = CtxDone | TickerFires bool

fun pingLoop :: "('s, 'd) backend \<Rightarrow> cref \<Rightarrow> wake list \<Rightarrow> ('s, 'd, 'r, unit) relay" where
  "pingLoop B p [] = State_Monad.return ()"
| "pingLoop B p (CtxDone # ws) = State_Monad.return ()"
| "pingLoop B p (TickerFires pong # ws) = do {
     goesOn \<leftarrow> ping_tick B pong p;
     if goesOn then pingLoop B p ws else State_Monad.return ()
   }"

end
