(* ===== verification/Config.thy ===== *)
theory Config
  imports Go_Strings
begin

text \<open>
  \<open>internal/config/config.go\<close>: the configuration read from the process environment. The
  environment is a function from variable names to values, with the empty string for an unset
  variable, as \<open>os.Getenv\<close> reports it. Durations are nanoseconds.
\<close>

section \<open>Reading single variables\<close>

type_synonym environ = "string \<Rightarrow> string"

definition envString :: "environ \<Rightarrow> string \<Rightarrow> string \<Rightarrow> string" where
  "envString env key fallback = (if env key \<noteq> [] then env key else fallback)"

definition envInt :: "environ \<Rightarrow> string \<Rightarrow> int \<Rightarrow> int" where
  "envInt env key fallback =
     (let v = env key
      in if v = [] then fallback
         else (case atoi v of None \<Rightarrow> fallback | Some n \<Rightarrow> n))"

text \<open>The loop over the parts: each is trimmed and kept when something is left.\<close>
fun csv_values :: "string list \<Rightarrow> string list \<Rightarrow> string list" where
  "csv_values values [] = values"
| "csv_values values (part # parts) =
     (let p = trim_space part
      in csv_values (if p \<noteq> [] then values @ [p] else values) parts)"

definition envCSV :: "environ \<Rightarrow> string \<Rightarrow> string list \<Rightarrow> string list" where
  "envCSV env key fallback =
     (let v = env key
      in if v = [] then fallback
         else let values = csv_values [] (split_on (CHR '','') v)
              in if values = [] then fallback else values)"

section \<open>The configuration\<close>

record config =
  Port :: int
  PortFile :: string
  DataDir :: string
  PingInterval :: int
  PongTimeout :: int
  ReclaimDays :: int
  LogLevel :: string
  LogJSON :: bool
  AdminToken :: string
  ServerAuthToken :: string
  AllowedOrigins :: "string list"
  WSOriginPatterns :: "string list"
  RedisURL :: string
  RedisPassword :: string
  RedisDB :: int
  JWTSecret :: string
  RateLimitConnectionsPerMin :: int
  RateLimitMessagesPerSec :: int
  BufferSize :: int

text \<open>\<open>time.Duration(n) * time.Millisecond\<close>: a 64-bit product.\<close>
definition duration_ms :: "int \<Rightarrow> int" where
  "duration_ms n = wrap64 (n * 1000000)"

text \<open>\<open>Load\<close>; \<open>home\<close> is what \<open>os.UserHomeDir\<close> reports, empty when it fails.\<close>
definition Load :: "environ \<Rightarrow> string \<Rightarrow> config" where
  "Load env home =
     \<lparr> Port = envInt env ''RELAY_PORT'' 4400,
       PortFile = envString env ''RELAY_PORT_FILE'' [],
       DataDir = envString env ''RELAY_DATA_DIR'' (join_path home ''.uvame-relay''),
       PingInterval = duration_ms (envInt env ''RELAY_PING_INTERVAL_MS'' 60000),
       PongTimeout = duration_ms (envInt env ''RELAY_PONG_TIMEOUT_MS'' 30000),
       ReclaimDays = envInt env ''RELAY_RECLAIM_DAYS'' 90,
       LogLevel = envString env ''RELAY_LOG_LEVEL'' ''info'',
       LogJSON = (envString env ''RELAY_LOG_FORMAT'' ''text'' = ''json''),
       AdminToken = envString env ''RELAY_ADMIN_TOKEN'' [],
       ServerAuthToken = envString env ''RELAY_SERVER_AUTH_TOKEN'' [],
       AllowedOrigins = envCSV env ''RELAY_ALLOWED_ORIGINS'' [''*''],
       WSOriginPatterns = envCSV env ''RELAY_WS_ORIGIN_PATTERNS'' [''*''],
       RedisURL = envString env ''RELAY_REDIS_URL'' [],
       RedisPassword = envString env ''RELAY_REDIS_PASSWORD'' [],
       RedisDB = envInt env ''RELAY_REDIS_DB'' 0,
       JWTSecret = envString env ''RELAY_JWT_SECRET'' [],
       RateLimitConnectionsPerMin = envInt env ''RELAY_RATE_LIMIT_CONNECTIONS_PER_MIN'' 30,
       RateLimitMessagesPerSec = envInt env ''RELAY_RATE_LIMIT_MESSAGES_PER_SEC'' 1000,
       BufferSize = envInt env ''RELAY_BUFFER_SIZE'' 100 \<rparr>"

section \<open>Facts\<close>

lemma envString_unset [simp]: "env key = [] \<Longrightarrow> envString env key d = d"
  by (simp add: envString_def)

lemma envInt_unset [simp]: "env key = [] \<Longrightarrow> envInt env key d = d"
  by (simp add: envInt_def)

lemma envCSV_unset [simp]: "env key = [] \<Longrightarrow> envCSV env key d = d"
  by (simp add: envCSV_def)

text \<open>The loop is a filter over the trimmed parts.\<close>
lemma csv_values_eq:
  "csv_values acc parts = acc @ filter (\<lambda>p. p \<noteq> []) (map trim_space parts)"
  by (induction acc parts rule: csv_values.induct) (auto simp: Let_def)

lemma envCSV_values:
  "envCSV env key d =
     (let vs = filter (\<lambda>p. p \<noteq> []) (map trim_space (split_on (CHR '','') (env key)))
      in if env key = [] \<or> vs = [] then d else vs)"
  by (simp add: envCSV_def csv_values_eq Let_def)

lemma trim_space_Nil [simp]: "trim_space [] = []"
  by (simp add: trim_space_def trim_left_def)

lemma envInt_range:
  "- (2 ^ 63) \<le> d \<Longrightarrow> d < 2 ^ 63 \<Longrightarrow> - (2 ^ 63) \<le> envInt env key d \<and> envInt env key d < 2 ^ 63"
  by (auto simp: envInt_def Let_def dest: atoi_range split: option.split)

lemma duration_ms_exact: "\<bar>n\<bar> \<le> 9223372036854 \<Longrightarrow> duration_ms n = n * 1000000"
  by (simp add: duration_ms_def wrap64_id)

section \<open>Properties\<close>

text \<open>A comma-separated variable yields its parts trimmed, the blank ones dropped, in order; the
  fallback is used exactly when nothing is left.\<close>
lemma csv_variable:
  "envCSV env key fallback =
     (let vs = filter (\<lambda>p. p \<noteq> []) (map trim_space (split_on (CHR '','') (env key)))
      in if vs = [] then fallback else vs)"
proof -
  have "split_on (CHR '','') [] = [[]]" by code_simp
  then show ?thesis by (auto simp: envCSV_values Let_def)
qed

text \<open>With no variable set the relay gets the documented defaults.\<close>
lemma default_configuration:
  "Load (\<lambda>_. []) ''/root'' =
     \<lparr> Port = 4400, PortFile = [], DataDir = ''/root/.uvame-relay'', PingInterval = 60 * 1000000000,
       PongTimeout = 30 * 1000000000, ReclaimDays = 90, LogLevel = ''info'', LogJSON = False, AdminToken = [],
       ServerAuthToken = [], AllowedOrigins = [''*''], WSOriginPatterns = [''*''], RedisURL = [], RedisPassword = [],
       RedisDB = 0, JWTSecret = [], RateLimitConnectionsPerMin = 30, RateLimitMessagesPerSec = 1000, BufferSize = 100 \<rparr>"
proof -
  have p: "join_path ''/root'' ''.uvame-relay'' = ''/root/.uvame-relay''" by code_simp
  have d: "duration_ms 60000 = 60 * 1000000000" "duration_ms 30000 = 30 * 1000000000"
    by (simp_all add: duration_ms_exact)
  show ?thesis by (simp add: Load_def p d)
qed

end
