(* ===== verification/Http_Server.thy ===== *)
theory Http_Server
  imports Handler Config
begin

text \<open>
  \<open>internal/server/server.go\<close>: the options, the wiring of the components, the HTTP handlers and
  the guards in front of them. An HTTP request is a record with the headers the server reads (a
  missing header reads as the empty string); a handler returns the response. The listener, the
  server's timeouts and logging are outside the model.
\<close>

section \<open>Requests and responses\<close>

text \<open>\<open>rq_Path\<close> is a clean path without percent escapes: the redirects of the mux from other paths are not modelled.\<close>

record request =
  rq_Method :: string
  rq_Path :: string
  rq_RemoteAddr :: string
  rq_Origin :: string
  rq_Authorization :: string
  rq_AdminToken :: string

text \<open>The status code, the CORS headers and the body: an error text or a JSON value. A websocket
  request that is accepted ends as \<open>Upgraded\<close> and is served by the handler.\<close>
datatype body = NoBody | ErrorText string | JsonBody json | Upgraded | RejectedUpgrade

record response =
  rs_Code :: int
  rs_Headers :: "(string \<times> string) list"
  rs_Body :: body

definition json_response :: "json \<Rightarrow> response" where
  "json_response v = \<lparr>rs_Code = 200, rs_Headers = [(''Content-Type'', ''application/json'')], rs_Body = JsonBody v\<rparr>"

definition error_headers :: "(string \<times> string) list" where
  "error_headers = [(''Content-Type'', ''text/plain; charset=utf-8''), (''X-Content-Type-Options'', ''nosniff'')]"

text \<open>\<open>http.Error\<close> ends the text with a newline.\<close>
definition http_error :: "string \<Rightarrow> int \<Rightarrow> response" where
  "http_error msg code = \<lparr>rs_Code = code, rs_Headers = error_headers, rs_Body = ErrorText (msg @ [CHR 0x0A])\<rparr>"

section \<open>Headers\<close>

definition bearerToken :: "string \<Rightarrow> string" where
  "bearerToken header = (if header = [] then [] else trim_prefix header ''Bearer '')"

definition allowedOrigin :: "string \<Rightarrow> string list \<Rightarrow> string" where
  "allowedOrigin requestOrigin configured =
     (if length configured = 0 then ''*''
      else if length configured = 1 \<and> configured ! 0 = ''*'' then ''*''
      else (case find (\<lambda>origin. origin = requestOrigin) configured of
              Some origin \<Rightarrow> origin
            | None \<Rightarrow> configured ! 0))"

datatype log_level = LevelDebug | LevelInfo | LevelWarn | LevelError

text \<open>\<open>slog.Level\<close> is ordered by severity: a record is written when its level is at least the handler's.\<close>
instantiation log_level :: linorder
begin

definition log_rank :: "log_level \<Rightarrow> int" where
  "log_rank l = (case l of LevelDebug \<Rightarrow> - 4 | LevelInfo \<Rightarrow> 0 | LevelWarn \<Rightarrow> 4 | LevelError \<Rightarrow> 8)"

definition less_eq_log_level :: "log_level \<Rightarrow> log_level \<Rightarrow> bool" where
  "less_eq_log_level a b \<longleftrightarrow> log_rank a \<le> log_rank b"

definition less_log_level :: "log_level \<Rightarrow> log_level \<Rightarrow> bool" where
  "less_log_level a b \<longleftrightarrow> log_rank a < log_rank b"

instance
  by standard (auto simp: less_eq_log_level_def less_log_level_def log_rank_def split: log_level.splits)

end

text \<open>The \<open>Level\<close> of a name.\<close>
definition parseLogLevel :: "string \<Rightarrow> log_level" where
  "parseLogLevel s =
     (let l = to_lower s in
      if l = ''debug'' \<or> l = ''trace'' then LevelDebug
      else if l = ''warn'' then LevelWarn
      else if l = ''error'' \<or> l = ''fatal'' then LevelError
      else LevelInfo)"

section \<open>Options and wiring\<close>

record options =
  op_Port :: int
  op_DataDir :: string
  op_InMemoryDB :: bool
  op_PingInterval :: int
  op_PongTimeout :: int
  op_ReclaimDays :: int
  op_LogLevel :: string
  op_LogJSON :: bool
  op_AdminToken :: string
  op_ServerAuthToken :: string
  op_AllowedOrigins :: "string list"
  op_WSOriginPatterns :: "string list"
  op_RedisURL :: string
  op_RedisPassword :: string
  op_RedisDB :: int
  op_JWTSecret :: string
  op_RateLimitConnectionsPerMin :: int
  op_RateLimitMessagesPerSec :: int
  op_BufferSize :: int

text \<open>The logger: its format, and the least level it writes.\<close>
datatype log_format = JsonLog | TextLog

definition logger_of :: "options \<Rightarrow> log_format \<times> log_level" where
  "logger_of opts = (if op_LogJSON opts then JsonLog else TextLog, parseLogLevel (op_LogLevel opts))"

definition log_writes :: "log_format \<times> log_level \<Rightarrow> log_level \<Rightarrow> bool" where
  "log_writes logger level \<longleftrightarrow> snd logger \<le> level"

text \<open>The part of \<open>config.Config\<close> that \<open>New\<close> fills, with its defaults.\<close>
record server_config =
  sc_PingInterval :: int
  sc_PongTimeout :: int
  sc_AdminToken :: string
  sc_ServerAuthToken :: string
  sc_WSOriginPatterns :: "string list"
  sc_JWTSecret :: string
  sc_AllowedOrigins :: "string list"

definition server_config_of :: "options \<Rightarrow> server_config" where
  "server_config_of opts =
     \<lparr>sc_PingInterval = (if op_PingInterval opts = 0 then 60 * second else op_PingInterval opts),
      sc_PongTimeout = (if op_PongTimeout opts = 0 then 30 * second else op_PongTimeout opts),
      sc_AdminToken = op_AdminToken opts,
      sc_ServerAuthToken = op_ServerAuthToken opts,
      sc_WSOriginPatterns = (if length (op_WSOriginPatterns opts) = 0 then [''*''] else op_WSOriginPatterns opts),
      sc_JWTSecret = op_JWTSecret opts,
      sc_AllowedOrigins = op_AllowedOrigins opts\<rparr>"

text \<open>Which store the relay runs on: Redis when a URL is given and the service answers.\<close>
datatype 'r store_choice = UseMemory | UseRedis "'r redis"

definition choose_store :: "options \<Rightarrow> (redis_error + 'r redis) \<Rightarrow> 'r store_choice" where
  "choose_store opts dialled =
     (if op_RedisURL opts \<noteq> []
      then (case dialled of Inl e \<Rightarrow> UseMemory | Inr client \<Rightarrow> UseRedis client)
      else UseMemory)"

definition reclaim_days :: "options \<Rightarrow> int" where
  "reclaim_days opts = (if op_ReclaimDays opts = 0 then 90 else op_ReclaimDays opts)"

definition redis_of :: "'r store_choice \<Rightarrow> 'r redis option" where
  "redis_of ch = (case ch of UseMemory \<Rightarrow> None | UseRedis client \<Rightarrow> Some client)"

definition limiter_of :: "options \<Rightarrow> 'r store_choice \<Rightarrow> 'r limiter" where
  "limiter_of opts ch = NewLimiter (redis_of ch) (op_RateLimitConnectionsPerMin opts) (op_RateLimitMessagesPerSec opts)"

definition buffer_of :: "options \<Rightarrow> 'r store_choice \<Rightarrow> 'r buffer option" where
  "buffer_of opts ch =
     (if redis_of ch \<noteq> None \<and> op_BufferSize opts > 0 then NewBuffer (redis_of ch) (op_BufferSize opts) else None)"

definition manager_options :: "options \<Rightarrow> 'r store_choice \<Rightarrow> 'r manager_option list" where
  "manager_options opts ch =
     WithLimiter (Some (limiter_of opts ch)) # (if buffer_of opts ch = None then [] else [WithBuffer (buffer_of opts ch)])"

text \<open>\<open>server.New\<close> once the registry is open: reclaim, then build the manager. The store's state
  and the backend's are those \<open>choose_store\<close> picked.\<close>
definition server_New ::
  "'d sql_exec \<Rightarrow> options \<Rightarrow> int \<Rightarrow> 'r store_choice \<Rightarrow> 'd \<Rightarrow> 's \<Rightarrow> 'r \<Rightarrow> (cref \<Rightarrow> conn) \<Rightarrow> ('s, 'd, 'r) manager" where
  "server_New exec opts now ch db st rs heap =
     NewManager (snd (run_state (ReclaimInactive exec now (reclaim_days opts)) db)) st rs heap (manager_options opts ch)"

section \<open>Guards\<close>

definition withAdminAuth :: "server_config \<Rightarrow> (request \<Rightarrow> ('s, response) state) \<Rightarrow> request \<Rightarrow> ('s, response) state" where
  "withAdminAuth cfg next r =
     (if sc_AdminToken cfg = [] then next r
      else let token = (if rq_AdminToken r = [] then trim_prefix (rq_Authorization r) ''Bearer '' else rq_AdminToken r)
        in if token \<noteq> sc_AdminToken cfg then State_Monad.return (http_error ''unauthorized'' 401)
           else next r)"

definition cors_headers :: "server_config \<Rightarrow> request \<Rightarrow> (string \<times> string) list" where
  "cors_headers cfg r =
     [(''Access-Control-Allow-Origin'', allowedOrigin (rq_Origin r) (sc_AllowedOrigins cfg)),
      (''Access-Control-Allow-Methods'', ''GET, POST, OPTIONS''),
      (''Access-Control-Allow-Headers'', ''Content-Type'')]"

definition corsHandler :: "server_config \<Rightarrow> (request \<Rightarrow> ('s, response) state) \<Rightarrow> request \<Rightarrow> ('s, response) state" where
  "corsHandler cfg next r =
     (if rq_Method r = ''OPTIONS''
      then State_Monad.return \<lparr>rs_Code = 200, rs_Headers = cors_headers cfg r, rs_Body = NoBody\<rparr>
      else do {
        resp \<leftarrow> next r;
        State_Monad.return (resp\<lparr>rs_Headers := cors_headers cfg r @ rs_Headers resp\<rparr>)
      })"

section \<open>Handlers\<close>

text \<open>\<open>uptime\<close> and the four figures of \<open>runtime.MemStats\<close> are readings; \<open>json.Encoder\<close> writes the
  members of a map in the order of their names.\<close>
definition handleHealth :: "('s, 'd) backend \<Rightarrow> json \<Rightarrow> request \<Rightarrow> ('s, 'd, 'r, response) relay" where
  "handleHealth B uptime r = do {
     w \<leftarrow> GetWaitingCount B;
     p \<leftarrow> GetPairCount B;
     State_Monad.return (json_response (JObj [(''pairs'', JNum (show_int p)), (''status'', JStr ''ok''),
       (''uptime'', uptime), (''waiting'', JNum (show_int w))]))
   }"

definition handleReady :: "('s, 'd) backend \<Rightarrow> 'r redis option \<Rightarrow> request \<Rightarrow> ('s, 'd, 'r, response) relay" where
  "handleReady B client r = do {
     ok \<leftarrow> on_db (registry_Ping (b_sql B));
     if \<not> ok then State_Monad.return (http_error ''registry unavailable'' 503)
     else do {
       alive \<leftarrow> (case client of None \<Rightarrow> State_Monad.return True | Some R \<Rightarrow> on_redis (redis_Ping R));
       State_Monad.return (if alive then json_response (JObj [(''status'', JStr ''ready'')])
                           else http_error ''redis unavailable'' 503)
     }
   }"

definition handleStatus ::
  "('s, 'd) backend \<Rightarrow> 'r redis option \<Rightarrow> json \<Rightarrow> json \<Rightarrow> request \<Rightarrow> ('s, 'd, 'r, response) relay" where
  "handleStatus B client uptime mem r = do {
     w \<leftarrow> GetWaitingCount B;
     p \<leftarrow> GetPairCount B;
     n \<leftarrow> on_db (Count (b_sql B));
     State_Monad.return (json_response (JObj
       ([(''memory'', mem), (''pairs'', JNum (show_int p))]
        @ (case client of None \<Rightarrow> [] | Some _ \<Rightarrow> [(''redis'', JStr ''connected'')])
        @ [(''registered'', JNum (show_int n)), (''status'', JStr ''ok''), (''uptime'', uptime),
           (''waiting'', JNum (show_int w))])))
   }"

text \<open>\<open>r.PathValue("username")\<close>: what follows \<open>/online/\<close>.\<close>
definition rq_PathUsername :: "request \<Rightarrow> string" where
  "rq_PathUsername r = drop 8 (rq_Path r)"

definition handleOnline :: "('s, 'd) backend \<Rightarrow> request \<Rightarrow> ('s, 'd, 'r, response) relay" where
  "handleOnline B r = do {
     online \<leftarrow> IsWaiting B (rq_PathUsername r);
     State_Monad.return (json_response (JObj [(''online'', JBool online)]))
   }"

definition handleAuthRefresh :: "jwt_lib \<Rightarrow> readings \<Rightarrow> server_config \<Rightarrow> request \<Rightarrow> response" where
  "handleAuthRefresh J rd cfg r =
     (if sc_JWTSecret cfg = [] then http_error ''jwt not configured'' 501
      else let token = bearerToken (rq_Authorization r) in
        if token = [] then http_error ''missing authorization header'' 401
        else (case RefreshToken J (at_validate rd) (at_issue rd) (sc_JWTSecret cfg) token of
                None \<Rightarrow> http_error ''invalid token'' 401
              | Some refreshed \<Rightarrow> json_response (JObj [(''jwt'', JStr refreshed)])))"

definition client_ip :: "string \<Rightarrow> string" where
  "client_ip remoteAddr =
     (let ip = (case split_host_port remoteAddr of None \<Rightarrow> [] | Some (h, p) \<Rightarrow> h)
      in if ip = [] then remoteAddr else ip)"

definition handler_config_of :: "server_config \<Rightarrow> handler_config" where
  "handler_config_of cfg =
     \<lparr>hc_PingInterval = sc_PingInterval cfg, hc_PongTimeout = sc_PongTimeout cfg,
      hc_ServerAuthToken = sc_ServerAuthToken cfg, hc_JWTSecret = sc_JWTSecret cfg\<rparr>"

text \<open>The frames \<open>Read\<close> returns once a limit on their size is set; it fails at the first frame over the limit.\<close>
definition readLimit :: nat where
  "readLimit = 16 * 2 ^ 20"

definition frames_read :: "frames \<Rightarrow> frames" where
  "frames_read fs = takeWhile (\<lambda>(rd, msgType, data). length data \<le> readLimit) fs"

text \<open>The server and the manager share one limiter. \<open>accept\<close> is what \<open>websocket.Accept\<close> decides
  from the request and the origin patterns.\<close>
definition handleWS ::
  "('s, 'd) backend \<Rightarrow> jwt_lib \<Rightarrow> (string list \<Rightarrow> request \<Rightarrow> bool) \<Rightarrow> server_config \<Rightarrow> readings \<Rightarrow> string \<Rightarrow> cref
     \<Rightarrow> frames \<Rightarrow> request \<Rightarrow> ('s, 'd, 'r, response) relay" where
  "handleWS B J accept cfg rd uid p fs r = do {
     let ip = client_ip (rq_RemoteAddr r);
     allowed \<leftarrow> State (\<lambda>m. case m_limiter m of
         None \<Rightarrow> (True, m)
       | Some l \<Rightarrow> (case AllowConnection (at_redis rd) (at_mem rd) ip l (m_redis m) of
                      (ok, l', s) \<Rightarrow> (ok, m\<lparr>m_limiter := Some l', m_redis := s\<rparr>)));
     if \<not> allowed then State_Monad.return (http_error ''rate limit exceeded'' 429)
     else if \<not> accept (sc_WSOriginPatterns cfg) r
     then State_Monad.return \<lparr>rs_Code = 403, rs_Headers = [], rs_Body = RejectedUpgrade\<rparr>
     else do {
       _ \<leftarrow> ServeWS B J (handler_config_of cfg) (bearerToken (rq_Authorization r)) uid p (frames_read fs);
       State_Monad.return \<lparr>rs_Code = 101, rs_Headers = [], rs_Body = Upgraded\<rparr>
     }
   }"

section \<open>Routing requests\<close>

text \<open>The patterns of the mux. A path that matches with another method is answered 405, with the methods it
  allows; \<open>GET\<close> patterns also serve \<open>HEAD\<close>.\<close>
datatype endpoint = EHealth | EReady | EStatus | EOnline | ERefresh | EWS | ENotFound | EMethodNotAllowed

definition is_online_path :: "string \<Rightarrow> bool" where
  "is_online_path path \<longleftrightarrow>
     has_prefix path ''/online/'' \<and> length path > 8 \<and> CHR ''/'' \<notin> set (drop 8 path)"

definition is_get :: "string \<Rightarrow> bool" where
  "is_get meth \<longleftrightarrow> meth = ''GET'' \<or> meth = ''HEAD''"

definition mux :: "string \<Rightarrow> string \<Rightarrow> endpoint" where
  "mux meth path =
     (if path = ''/ws'' then EWS
      else if path = ''/auth/refresh'' then (if meth = ''POST'' then ERefresh else EMethodNotAllowed)
      else if path = ''/health'' then (if is_get meth then EHealth else EMethodNotAllowed)
      else if path = ''/ready'' then (if is_get meth then EReady else EMethodNotAllowed)
      else if path = ''/status'' then (if is_get meth then EStatus else EMethodNotAllowed)
      else if is_online_path path then (if is_get meth then EOnline else EMethodNotAllowed)
      else ENotFound)"

definition method_not_allowed :: "string \<Rightarrow> response" where
  "method_not_allowed path =
     (let e = http_error ''Method Not Allowed'' 405
      in e\<lparr>rs_Headers := (''Allow'', if path = ''/auth/refresh'' then ''POST'' else ''GET, HEAD'') # rs_Headers e\<rparr>)"

record ('s, 'd, 'r) server =
  sv_backend :: "('s, 'd) backend"
  sv_jwt :: jwt_lib
  sv_accept :: "string list \<Rightarrow> request \<Rightarrow> bool"
  sv_cfg :: server_config
  sv_redis :: "'r redis option"
  sv_port :: int

text \<open>What one request reads: the clock, uptime, memory figures, and for a websocket the fresh id,
  the address of the new connection and the frames it will send.\<close>
record http_readings =
  hr_rd :: readings
  hr_uptime :: json
  hr_memory :: json
  hr_uid :: string
  hr_conn :: cref
  hr_frames :: frames

definition dispatch :: "('s, 'd, 'r) server \<Rightarrow> http_readings \<Rightarrow> request \<Rightarrow> ('s, 'd, 'r, response) relay" where
  "dispatch S h r =
     (case mux (rq_Method r) (rq_Path r) of
        EHealth \<Rightarrow> handleHealth (sv_backend S) (hr_uptime h) r
      | EReady \<Rightarrow> handleReady (sv_backend S) (sv_redis S) r
      | EStatus \<Rightarrow> withAdminAuth (sv_cfg S) (handleStatus (sv_backend S) (sv_redis S) (hr_uptime h) (hr_memory h)) r
      | EOnline \<Rightarrow> withAdminAuth (sv_cfg S) (handleOnline (sv_backend S)) r
      | ERefresh \<Rightarrow> State_Monad.return (handleAuthRefresh (sv_jwt S) (hr_rd h) (sv_cfg S) r)
      | EWS \<Rightarrow> handleWS (sv_backend S) (sv_jwt S) (sv_accept S) (sv_cfg S) (hr_rd h) (hr_uid h) (hr_conn h) (hr_frames h) r
      | ENotFound \<Rightarrow> State_Monad.return (http_error ''404 page not found'' 404)
      | EMethodNotAllowed \<Rightarrow> State_Monad.return (method_not_allowed (rq_Path r)))"

definition serveHTTP :: "('s, 'd, 'r) server \<Rightarrow> http_readings \<Rightarrow> request \<Rightarrow> ('s, 'd, 'r, response) relay" where
  "serveHTTP S h r = corsHandler (sv_cfg S) (dispatch S h) r"

section \<open>Stopping\<close>

text \<open>The calls \<open>Shutdown\<close> and \<open>Close\<close> make after closing every websocket, in order; the first
  returns early when the HTTP server does not stop in time.\<close>
datatype stop_call = StopHttp | CloseRedis | CloseRegistry | CloseHttp

definition shutdown_calls :: "bool \<Rightarrow> 'r redis option \<Rightarrow> stop_call list" where
  "shutdown_calls http_ok client =
     (if \<not> http_ok then [StopHttp]
      else [StopHttp] @ (if client \<noteq> None then [CloseRedis] else []) @ [CloseRegistry])"

definition close_calls :: "'r redis option \<Rightarrow> stop_call list" where
  "close_calls client = [CloseRegistry] @ (if client \<noteq> None then [CloseRedis] else []) @ [CloseHttp]"

definition Shutdown :: "('s, 'd) backend \<Rightarrow> bool \<Rightarrow> 'r redis option \<Rightarrow> ('s, 'd, 'r, stop_call list) relay" where
  "Shutdown B http_ok client = do {
     _ \<leftarrow> CloseAll B StatusGoingAway ''Server shutting down'';
     State_Monad.return (shutdown_calls http_ok client)
   }"

definition server_Close :: "('s, 'd) backend \<Rightarrow> 'r redis option \<Rightarrow> ('s, 'd, 'r, stop_call list) relay" where
  "server_Close B client = do {
     _ \<leftarrow> CloseAll B StatusGoingAway ''Server shutting down'';
     State_Monad.return (close_calls client)
   }"

section \<open>Properties\<close>

text \<open>The CORS header names the request's origin exactly when that origin is configured; otherwise it
  is the first configured origin, and a star when none is.\<close>
lemma cors_origin:
  "allowedOrigin origin configured =
     (if configured = [] then ''*'' else if origin \<in> set configured then origin else hd configured)"
proof -
  have "find (\<lambda>x. x = origin) xs = (if origin \<in> set xs then Some origin else None)" for xs
    by (induction xs) auto
  then show ?thesis by (cases configured) (auto simp: allowedOrigin_def)
qed

text \<open>C29 With an admin token configured, the status and online endpoints answer 401 to a request that does
  not carry it, in its own header or as the bearer token, and nothing is read or changed.\<close>
theorem admin_endpoints_guarded:
  assumes "sc_AdminToken (sv_cfg S) \<noteq> []" "mux (rq_Method r) (rq_Path r) = EStatus \<or> mux (rq_Method r) (rq_Path r) = EOnline"
    "rq_AdminToken r \<noteq> sc_AdminToken (sv_cfg S)"
    "rq_AdminToken r \<noteq> [] \<or> trim_prefix (rq_Authorization r) ''Bearer '' \<noteq> sc_AdminToken (sv_cfg S)"
  shows "run_state (serveHTTP S h r) m
    = (\<lparr>rs_Code = 401,
         rs_Headers = cors_headers (sv_cfg S) r
           @ [(''Content-Type'', ''text/plain; charset=utf-8''), (''X-Content-Type-Options'', ''nosniff'')],
         rs_Body = ErrorText (''unauthorized'' @ [CHR 0x0A])\<rparr>, m)"
proof -
  have "rq_Method r \<noteq> ''OPTIONS''" using assms(2) by (auto simp: mux_def is_get_def split: if_splits)
  then show ?thesis using assms
    by (auto simp: serveHTTP_def corsHandler_def dispatch_def withAdminAuth_def http_error_def error_headers_def)
qed

definition sample_http :: "string \<Rightarrow> (mem_store, utable, unit) server" where
  "sample_http admin = \<lparr>sv_backend = mem_backend, sv_jwt = open_jwt, sv_accept = (\<lambda>_ _. True),
     sv_cfg = \<lparr>sc_PingInterval = second, sc_PongTimeout = second, sc_AdminToken = admin, sc_ServerAuthToken = [],
       sc_WSOriginPatterns = [''*''], sc_JWTSecret = [], sc_AllowedOrigins = []\<rparr>, sv_redis = None, sv_port = 8080\<rparr>"

definition sample_request :: "string \<Rightarrow> string \<Rightarrow> request" where
  "sample_request path token = \<lparr>rq_Method = ''GET'', rq_Path = path, rq_RemoteAddr = ''10.0.0.1:99'',
     rq_Origin = [], rq_Authorization = [], rq_AdminToken = token\<rparr>"

theorem admin_endpoints_guarded_witness:
  "rs_Code (result (serveHTTP (sample_http ''adm'')
      \<lparr>hr_rd = sample_rd, hr_uptime = JNull, hr_memory = JNull, hr_uid = ''a'', hr_conn = 9, hr_frames = []\<rparr> (sample_request ''/status'' ''guess'')) sample_relay) = 401"
  by (subst admin_endpoints_guarded)
    (simp_all add: sample_http_def sample_request_def mux_def is_get_def is_online_path_def)

text \<open>C31 The health endpoint reports the number of waiting usernames, and as pairs the one-to-one pairs plus the clients
  of all groups; asking changes nothing of the routing state.\<close>
theorem health_counts:
  assumes "relay_backend B waiting peers store_ok tbl" "store_ok (m_store m)" "finite (dom (m_multiGroups m))"
    "run_state (handleHealth B uptime r) m = (resp, m')"
  shows "resp = json_response (JObj
      [(''pairs'', JNum (show_int (int (map_len (peers (m_store m))) div 2
          + (\<Sum>u\<in>dom (m_multiGroups m). int (map_len (g_clients (the (m_multiGroups m u)))))))),
       (''status'', JStr ''ok''), (''uptime'', uptime), (''waiting'', JNum (show_int (int (map_len (waiting (m_store m))))))])
    \<and> abs_routing waiting peers m' = abs_routing waiting peers m"
proof -
  define gs where "gs = m_multiGroups m"
  define order where "order = b_order B"
  have "range_order order" using assms(1) by (simp add: relay_backend_def relay_backend_axioms_def order_def)
  then have o: "distinct (order (dom gs))" "set (order (dom gs)) = dom gs"
    using assms(3) by (simp_all add: range_orderD gs_def)
  have "foldl (\<lambda>n g. n + int (map_len (g_clients g))) k (map_values gs us) = k + (\<Sum>u\<leftarrow>us. int (map_len (g_clients (the (gs u)))))"
    if "set us \<subseteq> dom gs" for k us
    using that by (induction us arbitrary: k) (auto simp: map_values_def List.map_filter_simps)
  then have groups: "foldl (\<lambda>n g. n + int (map_len (g_clients g))) 0 (map_values gs (order (dom gs)))
      = (\<Sum>u\<in>dom gs. int (map_len (g_clients (the (gs u)))))"
    using o by (simp add: sum_list_distinct_conv_sum_set)
  have st: "store (b_store B) waiting peers store_ok" using assms(1) by (simp add: relay_backend_def)
  note law = store.Stats_law [OF st]
  define s1 where "s1 = after (Stats (b_store B)) (m_store m)"
  have "result (Stats (b_store B)) (m_store m) = (int (map_len (waiting (m_store m))), int (map_len (peers (m_store m))) div 2)"
    "waiting s1 = waiting (m_store m)" "peers s1 = peers (m_store m)" "store_ok s1"
    using law [OF assms(2)] by (simp_all add: s1_def)
  moreover from this have "result (Stats (b_store B)) s1 = (int (map_len (waiting (m_store m))), int (map_len (peers (m_store m))) div 2)"
    "waiting (after (Stats (b_store B)) s1) = waiting (m_store m)" "peers (after (Stats (b_store B)) s1) = peers (m_store m)"
    using law [of s1] by simp_all
  ultimately show ?thesis using assms(4) groups
    by (auto simp: handleHealth_def GetWaitingCount_def GetPairCount_def relay_simps split_def Let_def abs_routing_def s1_def
        gs_def order_def)
qed

theorem health_counts_witness:
  "rs_Body (result (handleHealth mem_backend JNull (sample_request ''/health'' [])) sample_relay)
   = JsonBody (JObj [(''pairs'', JNum (show_int 2)), (''status'', JStr ''ok''), (''uptime'', JNull), (''waiting'', JNum (show_int 1))])"
proof -
  have f: "finite (dom (m_multiGroups sample_relay))" by (simp add: sample_relay_def)
  obtain resp m' where r: "run_state (handleHealth mem_backend JNull (sample_request ''/health'' [])) sample_relay = (resp, m')" by force
  show ?thesis using health_counts [OF mem_relay.relay_backend_axioms sample_store_ok f r] r
    by (simp add: sample_relay_def json_response_def)
qed

text \<open>C30 Shutting down closes every websocket the manager knows exactly once, as going away, forgets all of
  them, and then stops the HTTP server before it closes the Redis client and the registry; when the
  HTTP server does not stop in time these two stay open.\<close>
theorem shutdown_closes_everything:
  assumes "range_order (b_order B)" "finite (dom (m_conns m))" "inj_on (m_conns m) (dom (m_conns m))"
    "run_state (Shutdown B http_ok client) m = (calls, m')"
  shows "\<exists>ps. distinct ps \<and> set ps = ran (m_conns m)
      \<and> m_out m' = m_out m @ map (\<lambda>p. Close p StatusGoingAway ''Server shutting down'') ps
      \<and> m_conns m' = Map.empty \<and> m_multiGroups m' = Map.empty
      \<and> calls = StopHttp # (if http_ok then (if client = None then [] else [CloseRedis]) @ [CloseRegistry] else [])"
proof -
  define ps where "ps = map_values (m_conns m) (b_order B (dom (m_conns m)))"
  have "distinct (map_values f ks)" if "distinct ks" "inj_on f (dom f)" for f :: "string \<rightharpoonup> cref" and ks
    using that
  proof (induction ks)
    case (Cons k ks)
    have "v \<notin> set (map_values f ks)" if "f k = Some v" for v
    proof
      assume "v \<in> set (map_values f ks)"
      then obtain j where "j \<in> set ks" "f j = Some v" by (auto simp: set_map_values)
      then show False using Cons.prems that by (auto dest!: inj_onD [of f "dom f" j k])
    qed
    then show ?case using Cons by (auto simp: map_values_def List.map_filter_simps split: option.splits)
  qed (simp add: map_values_def List.map_filter_simps)
  then have "distinct ps" using assms(1-3) by (simp add: ps_def range_orderD)
  moreover have "set ps = ran (m_conns m)" using set_map_values_order [OF assms(1,2)] by (simp add: ps_def)
  ultimately show ?thesis
    using assms(4)
    by (intro exI [of _ ps]) (auto simp: Shutdown_def CloseAll_def shutdown_calls_def relay_simps ps_def Let_def)
qed

theorem shutdown_closes_everything_witness:
  "\<exists>ps. distinct ps \<and> set ps = {1, 2, 3, 4}
     \<and> m_out (after (Shutdown mem_backend True (None :: unit redis option)) sample_relay)
       = map (\<lambda>p. Close p StatusGoingAway ''Server shutting down'') ps"
proof -
  obtain calls m' where r: "run_state (Shutdown mem_backend True (None :: unit redis option)) sample_relay = (calls, m')" by force
  have m: "m_conns sample_relay = [''s'' \<mapsto> 1, ''c'' \<mapsto> 2, ''m'' \<mapsto> 3, ''k'' \<mapsto> 4]" "m_out sample_relay = []"
    by (simp_all add: sample_relay_def)
  have c: "range_order (b_order mem_backend)" "finite (dom (m_conns sample_relay))"
    by (simp_all add: mem_backend_def range_order_sorted m)
  have i: "inj_on (m_conns sample_relay) (dom (m_conns sample_relay))"
    by (simp add: m inj_on_def)
  have "ran (m_conns sample_relay) = {1, 2, 3, 4}"
    by (simp add: m ran_map_upd insert_commute)
  with shutdown_closes_everything [OF c i r] r show ?thesis unfolding m(2) by (metis append_Nil snd_conv)
qed

end
