(* ===== verification/Routing_Inv.thy ===== *)
theory Routing_Inv
  imports Routing
begin

text \<open>
  The invariant \<open>base_inv\<close> of the routing machine, which holds of every run: what the manager's
  maps mention is a connection that is still being served, under its own id and username, and no
  group is empty.
\<close>

section \<open>Handshakes\<close>

text \<open>\<open>IsPaired\<close> on the routing state.\<close>
definition rt_paired :: "cref \<Rightarrow> routing \<Rightarrow> bool" where
  "rt_paired p R =
     (let c = rt_heap R p; group = rt_groups R (c_Username c) in
      c_MultiClient c \<and> c_Username c \<noteq> [] \<and> (case group of None \<Rightarrow> False | Some g \<Rightarrow> map_len (g_clients g) > 0)
      \<or> c_ClientID c \<noteq> [] \<and> (case group of None \<Rightarrow> False | Some g \<Rightarrow> g_clients g (c_ClientID c) \<noteq> None)
      \<or> rt_peers R (c_ID c) \<noteq> None)"

definition set_conn :: "cref \<Rightarrow> (conn \<Rightarrow> conn) \<Rightarrow> routing \<Rightarrow> routing" where
  "set_conn p f R = R\<lparr>rt_heap := (rt_heap R)(p := f (rt_heap R p))\<rparr>"

text \<open>Registering, with the fields the handler sets afterwards.\<close>
definition rt_registered :: "cref \<Rightarrow> string \<Rightarrow> bool \<Rightarrow> routing \<Rightarrow> routing" where
  "rt_registered p u mc R =
     set_conn p (\<lambda>c. c\<lparr>c_Username := u, c_IsServer := True, c_MultiClient := mc\<rparr>) (fst (rt_register p u R))"

text \<open>Connecting, likewise.\<close>
definition rt_connected :: "cref \<Rightarrow> string \<Rightarrow> string \<Rightarrow> routing \<Rightarrow> routing" where
  "rt_connected p u i R =
     (case rt_connect p u i R of
        (r, R', es) \<Rightarrow>
          if cr_Status r = ''connected''
          then set_conn p (\<lambda>c. c\<lparr>c_Username := u, c_IsServer := False, c_ClientID := cr_ClientID r\<rparr>) R'
          else R')"

text \<open>The same with the kind of the server given: a manager whose goroutines interleave may see a server as
  one-to-one that is about to be marked multi-client.\<close>
definition rt_connected_as :: "bool \<Rightarrow> cref \<Rightarrow> string \<Rightarrow> string \<Rightarrow> routing \<Rightarrow> routing" where
  "rt_connected_as mc p u i R =
     (case rt_waiting R u of
        None \<Rightarrow> R
      | Some s \<Rightarrow>
          (case rt_conns R s of
             None \<Rightarrow> R\<lparr>rt_waiting := map_delete (rt_waiting R) u\<rparr>
           | Some q \<Rightarrow>
               set_conn p (\<lambda>c. c\<lparr>c_Username := u, c_IsServer := False, c_ClientID := if mc then i else []\<rparr>)
                 (if mc then rt_join p u q i R else rt_pair p u s R)))"

definition waiting_multi :: "routing \<Rightarrow> string \<Rightarrow> bool" where
  "waiting_multi R u =
     (case rt_waiting R u of
        None \<Rightarrow> False
      | Some s \<Rightarrow> (case rt_conns R s of None \<Rightarrow> False | Some q \<Rightarrow> c_MultiClient (rt_heap R q)))"

lemma rt_connected_eq: "rt_connected p u i R = rt_connected_as (waiting_multi R u) p u i R"
  by (simp add: rt_connected_def rt_connected_as_def waiting_multi_def rt_connect_def refused_def split: option.splits)

text \<open>No group lists the connection as a client.\<close>
definition unjoined :: "cref \<Rightarrow> routing \<Rightarrow> bool" where
  "unjoined p R \<longleftrightarrow> (\<forall>u g i. rt_groups R u = Some g \<longrightarrow> g_clients g i \<noteq> Some p)"

section \<open>The invariant of every run\<close>

text \<open>\<open>act\<close>: the connections being served.\<close>
definition conns_inv :: "(cref \<Rightarrow> bool) \<Rightarrow> routing \<Rightarrow> bool" where
  "conns_inv act R \<longleftrightarrow> finite (dom (rt_conns R))
     \<and> (\<forall>i p. rt_conns R i = Some p \<longrightarrow> act p \<and> c_ID (rt_heap R p) = i)"

definition group_inv :: "(cref \<Rightarrow> bool) \<Rightarrow> routing \<Rightarrow> string \<Rightarrow> mc_group \<Rightarrow> bool" where
  "group_inv act R u g \<longleftrightarrow> finite (dom (g_clients g)) \<and> g_clients g \<noteq> Map.empty
     \<and> (\<forall>i p. g_clients g i = Some p \<longrightarrow>
          act p \<and> i \<noteq> [] \<and> c_ClientID (rt_heap R p) = i \<and> c_Username (rt_heap R p) = u)"

definition groups_inv :: "(cref \<Rightarrow> bool) \<Rightarrow> routing \<Rightarrow> bool" where
  "groups_inv act R \<longleftrightarrow> finite (dom (rt_groups R)) \<and> (\<forall>u g. rt_groups R u = Some g \<longrightarrow> group_inv act R u g)"

definition ids_inv :: "(cref \<Rightarrow> bool) \<Rightarrow> routing \<Rightarrow> bool" where
  "ids_inv act R \<longleftrightarrow> (\<forall>p. act p \<longrightarrow> c_ID (rt_heap R p) \<noteq> [])
     \<and> (\<forall>p q. act p \<longrightarrow> act q \<longrightarrow> c_ID (rt_heap R p) = c_ID (rt_heap R q) \<longrightarrow> p = q)
     \<and> waits_ok (rt_waiting R) \<and> peers_ok (rt_peers R)"

definition base_inv :: "(cref \<Rightarrow> bool) \<Rightarrow> routing \<Rightarrow> bool" where
  "base_inv act R \<longleftrightarrow> conns_inv act R \<and> groups_inv act R \<and> ids_inv act R"

lemma base_connsD: "base_inv act R \<Longrightarrow> rt_conns R i = Some p \<Longrightarrow> act p \<and> c_ID (rt_heap R p) = i"
  by (simp add: base_inv_def conns_inv_def)

lemma base_groupD:
  "base_inv act R \<Longrightarrow> rt_groups R u = Some g \<Longrightarrow> finite (dom (g_clients g)) \<and> g_clients g \<noteq> Map.empty"
  by (simp add: base_inv_def groups_inv_def group_inv_def)

lemma base_clientD:
  "base_inv act R \<Longrightarrow> rt_groups R u = Some g \<Longrightarrow> g_clients g i = Some p \<Longrightarrow>
     act p \<and> i \<noteq> [] \<and> c_ClientID (rt_heap R p) = i \<and> c_Username (rt_heap R p) = u"
  by (simp add: base_inv_def groups_inv_def group_inv_def)

lemma base_idsD:
  "base_inv act R \<Longrightarrow> act p \<Longrightarrow> c_ID (rt_heap R p) \<noteq> []"
  "base_inv act R \<Longrightarrow> act p \<Longrightarrow> act q \<Longrightarrow> c_ID (rt_heap R p) = c_ID (rt_heap R q) \<Longrightarrow> p = q"
  by (auto simp: base_inv_def ids_inv_def)

text \<open>How the three parts carry over to another state.\<close>

lemma conns_inv_put:
  assumes "conns_inv act R" "act p" "\<And>q. c_ID (rt_heap R' q) = c_ID (rt_heap R q)"
    "rt_conns R' = (rt_conns R)(c_ID (rt_heap R p) \<mapsto> p)"
  shows "conns_inv act R'"
  using assms(1,2) unfolding conns_inv_def assms(3,4) by simp

lemma conns_inv_sub:
  assumes "conns_inv act R" "\<And>q. c_ID (rt_heap R' q) = c_ID (rt_heap R q)"
    "\<And>i p. rt_conns R' i = Some p \<Longrightarrow> rt_conns R i = Some p \<and> act' p"
  shows "conns_inv act' R'"
proof -
  have "dom (rt_conns R') \<subseteq> dom (rt_conns R)" using assms(3) by auto
  with assms(1) have "finite (dom (rt_conns R'))" unfolding conns_inv_def by (blast intro: finite_subset)
  with assms show ?thesis unfolding conns_inv_def by simp
qed

lemma ids_inv_cong:
  assumes "ids_inv act R" "\<And>q. c_ID (rt_heap R' q) = c_ID (rt_heap R q)" "waits_ok (rt_waiting R')" "peers_ok (rt_peers R')"
    "\<And>q. act' q \<Longrightarrow> act q"
  shows "ids_inv act' R'"
  using assms(1,5) unfolding ids_inv_def assms(2) using assms(3,4) by blast

lemma groups_inv_same:
  "groups_inv act R \<Longrightarrow> rt_heap R' = rt_heap R \<Longrightarrow> rt_groups R' = rt_groups R \<Longrightarrow> groups_inv act R'"
  by (simp add: groups_inv_def group_inv_def)

lemma base_invD: "base_inv act R \<Longrightarrow> conns_inv act R" "base_inv act R \<Longrightarrow> groups_inv act R" "base_inv act R \<Longrightarrow> ids_inv act R"
  "base_inv act R \<Longrightarrow> waits_ok (rt_waiting R)" "base_inv act R \<Longrightarrow> peers_ok (rt_peers R)"
  by (simp_all add: base_inv_def ids_inv_def)

text \<open>A connection that is not paired is in no group as a client.\<close>
lemma unpaired_unjoined:
  assumes "base_inv act R" "\<not> rt_paired p R"
  shows "unjoined p R"
  unfolding unjoined_def
proof (intro allI impI notI)
  fix u g i
  assume g: "rt_groups R u = Some g" "g_clients g i = Some p"
  with base_clientD [OF assms(1) g] assms(2) show False by (simp add: rt_paired_def Let_def)
qed

text \<open>Changing a connection that no group mentions, and not its id.\<close>
lemma base_set_conn:
  assumes "base_inv act R" "\<And>u g i. rt_groups R u = Some g \<Longrightarrow> g_clients g i \<noteq> Some p"
    "c_ID (f (rt_heap R p)) = c_ID (rt_heap R p)"
  shows "base_inv act (set_conn p f R)"
proof -
  have id: "c_ID (rt_heap (set_conn p f R) q) = c_ID (rt_heap R q)" for q
    using assms(3) by (simp add: set_conn_def)
  have same: "rt_conns (set_conn p f R) = rt_conns R" "rt_groups (set_conn p f R) = rt_groups R"
    "rt_waiting (set_conn p f R) = rt_waiting R" "rt_peers (set_conn p f R) = rt_peers R"
    by (simp_all add: set_conn_def)
  have other: "rt_heap (set_conn p f R) q = rt_heap R q" if "q \<noteq> p" for q
    using that by (simp add: set_conn_def)
  have "group_inv act (set_conn p f R) u g" if g: "rt_groups R u = Some g" for u g
    unfolding group_inv_def
  proof (intro conjI allI impI)
    fix i q
    assume q: "g_clients g i = Some q"
    have "q \<noteq> p" using assms(2) [OF g, of i] q by auto
    then show "act q" "i \<noteq> []" "c_ClientID (rt_heap (set_conn p f R) q) = i" "c_Username (rt_heap (set_conn p f R) q) = u"
      using base_clientD [OF assms(1) g q] other by simp_all
  qed (use base_groupD [OF assms(1) g] in simp_all)
  then show ?thesis
    using assms(1) by (simp add: base_inv_def conns_inv_def groups_inv_def ids_inv_def id same)
qed

lemma waits_ok_upd: "waits_ok w \<Longrightarrow> c \<noteq> [] \<Longrightarrow> waits_ok (w(u \<mapsto> c))"
  by (auto simp: waits_ok_def ran_def split: if_splits)

lemma waits_ok_delete: "waits_ok w \<Longrightarrow> waits_ok (map_delete w u)"
  by (auto simp: waits_ok_def ran_def split: if_splits)

lemma base_register:
  assumes "base_inv act R" "act p"
  shows "base_inv act (fst (rt_register p u R))"
proof -
  define R1 where "R1 = R\<lparr>rt_conns := (rt_conns R)(c_ID (rt_heap R p) \<mapsto> p)\<rparr>"
  have "conns_inv act R1" by (rule conns_inv_put [OF base_invD(1) [OF assms(1)] assms(2)]) (simp_all add: R1_def)
  then have "conns_inv act (fst (rt_register p u R))"
    by (rule conns_inv_sub)
      (auto simp: rt_register_def R1_def Let_def conns_inv_def split: if_splits
        dest: base_connsD [OF assms(1)] intro: assms(2))
  moreover have "ids_inv act (fst (rt_register p u R))"
    by (rule ids_inv_cong [OF base_invD(3) [OF assms(1)]])
      (simp_all add: rt_register_def Let_def waits_ok_upd base_invD [OF assms(1)] base_idsD(1) [OF assms])
  moreover have "groups_inv act (fst (rt_register p u R))"
    by (rule groups_inv_same [OF base_invD(2) [OF assms(1)]]) (simp_all add: rt_register_def Let_def)
  ultimately show ?thesis by (simp add: base_inv_def)
qed

lemma base_registered [relay_intros]:
  assumes "base_inv act R" "act p" "unjoined p R"
  shows "base_inv act (rt_registered p u mc R)"
  unfolding rt_registered_def
  by (rule base_set_conn [OF base_register [OF assms(1,2)]])
    (use assms(3) in \<open>simp_all add: rt_register_def Let_def unjoined_def\<close>)

lemma base_pair:
  assumes b: "base_inv act R" and a: "act p" and n: "unjoined p R" and q: "rt_conns R s = Some q"
  shows "base_inv act (set_conn p (\<lambda>c. c\<lparr>c_Username := u, c_IsServer := False, c_ClientID := []\<rparr>) (rt_pair p u s R))"
proof (rule base_set_conn)
  have qid: "act q" "c_ID (rt_heap R q) = s" using base_connsD [OF b q] by auto
  have "conns_inv act (rt_pair p u s R)"
    by (rule conns_inv_put [OF base_invD(1) [OF b] a]) (simp_all add: rt_pair_def Let_def)
  moreover have "groups_inv act (rt_pair p u s R)"
    by (rule groups_inv_same [OF base_invD(2) [OF b]]) (simp_all add: rt_pair_def Let_def)
  moreover have "ids_inv act (rt_pair p u s R)"
    by (rule ids_inv_cong [OF base_invD(3) [OF b]])
      (use base_idsD(1) [OF b a] base_idsD(1) [OF b qid(1)] qid(2) in
        \<open>simp_all add: rt_pair_def Let_def waits_ok_delete peers_ok_pair base_invD [OF b]\<close>)
  ultimately show "base_inv act (rt_pair p u s R)" by (simp add: base_inv_def)
qed (use n in \<open>simp_all add: rt_pair_def Let_def unjoined_def\<close>)

lemma base_join:
  assumes b: "base_inv act R" and a: "act p" and n: "unjoined p R" and i: "i \<noteq> []"
  shows "base_inv act (set_conn p (\<lambda>c. c\<lparr>c_Username := u, c_IsServer := False, c_ClientID := i\<rparr>) (rt_join p u q i R))"
proof -
  define R' where "R' = set_conn p (\<lambda>c. c\<lparr>c_Username := u, c_IsServer := False, c_ClientID := i\<rparr>) (rt_join p u q i R)"
  define g where "g = (case rt_groups R u of None \<Rightarrow> \<lparr>g_serverConn = q, g_clients = Map.empty\<rparr> | Some g \<Rightarrow> g)"
  define h where "h = (rt_heap R)(p := (rt_heap R p)\<lparr>c_Username := u, c_IsServer := False, c_ClientID := i\<rparr>)"
  have R': "R' = R\<lparr>rt_groups := (rt_groups R)(u \<mapsto> g\<lparr>g_clients := (g_clients g)(i \<mapsto> p)\<rparr>),
      rt_conns := (rt_conns R)(c_ID (rt_heap R p) \<mapsto> p), rt_heap := h\<rparr>"
    by (simp add: R'_def rt_join_def set_conn_def Let_def g_def h_def)
  have gc: "finite (dom (g_clients g))" "\<And>j c. g_clients g j = Some c \<Longrightarrow>
      c \<noteq> p \<and> act c \<and> j \<noteq> [] \<and> c_ClientID (rt_heap R c) = j \<and> c_Username (rt_heap R c) = u"
    using base_groupD [OF b, of u] base_clientD [OF b, of u] n
    by (auto simp: g_def unjoined_def split: option.splits)
  have "group_inv act R' u (g\<lparr>g_clients := (g_clients g)(i \<mapsto> p)\<rparr>)"
    using gc a i by (auto simp: group_inv_def R' h_def split: if_splits)
  moreover have "group_inv act R' v g'" if "rt_groups R v = Some g'" for v g'
    using that base_groupD [OF b that] base_clientD [OF b that] n
    by (auto simp: group_inv_def R' h_def unjoined_def)
  ultimately have "groups_inv act R'"
    using b by (auto simp: groups_inv_def R' base_inv_def)
  moreover have "conns_inv act R'"
    by (rule conns_inv_put [OF base_invD(1) [OF b] a]) (simp_all add: R' h_def)
  moreover have "ids_inv act R'"
    by (rule ids_inv_cong [OF base_invD(3) [OF b]]) (simp_all add: R' h_def base_invD [OF b])
  ultimately show ?thesis by (simp add: base_inv_def R'_def)
qed

lemma base_connected_as [relay_intros]:
  assumes b: "base_inv act R" and a: "act p" and n: "unjoined p R" and i: "i \<noteq> []"
  shows "base_inv act (rt_connected_as mc p u i R)"
proof (cases "rt_waiting R u")
  case None
  then show ?thesis using b by (simp add: rt_connected_as_def)
next
  case w: (Some s)
  show ?thesis
  proof (cases "rt_conns R s")
    case None
    with w b show ?thesis
      by (simp add: rt_connected_as_def base_inv_def conns_inv_def groups_inv_def group_inv_def)
        (simp add: ids_inv_def waits_ok_delete)
  next
    case (Some q)
    then show ?thesis using w base_pair [OF b a n Some] base_join [OF b a n i]
      by (simp add: rt_connected_as_def)
  qed
qed

lemma base_connected [relay_intros]:
  assumes "base_inv act R" "act p" "unjoined p R" "i \<noteq> []"
  shows "base_inv act (rt_connected p u i R)"
  unfolding rt_connected_eq using assms by (rule base_connected_as)

section \<open>Closing\<close>

lemma groups_inv_sub:
  assumes "groups_inv act R" "rt_heap R' = rt_heap R"
    "\<And>u g. rt_groups R' u = Some g \<Longrightarrow> rt_groups R u = Some g \<and> (\<forall>i q. g_clients g i = Some q \<longrightarrow> act' q)"
  shows "groups_inv act' R'"
proof -
  have "dom (rt_groups R') \<subseteq> dom (rt_groups R)" using assms(3) by auto
  with assms(1) have "finite (dom (rt_groups R'))" unfolding groups_inv_def by (blast intro: finite_subset)
  moreover have "group_inv act' R' u g" if "rt_groups R' u = Some g" for u g
    using assms(1) assms(3) [OF that] unfolding groups_inv_def group_inv_def assms(2) by blast
  ultimately show ?thesis by (simp add: groups_inv_def)
qed

lemma no_client:
  assumes "base_inv act R" "c_ClientID (rt_heap R p) = [] \<or> rt_groups R (c_Username (rt_heap R p)) = None"
    "rt_groups R u = Some g"
  shows "g_clients g i \<noteq> Some p"
  using base_clientD [OF assms(1,3), of i p] assms(2,3) by auto

lemma base_leave:
  assumes b: "base_inv act R" and g: "rt_groups R (c_Username (rt_heap R p)) = Some g"
    and ci: "c_ClientID (rt_heap R p) \<noteq> []"
  shows "base_inv (\<lambda>q. act q \<and> q \<noteq> p) (fst (rt_leave p g R))"
proof -
  define act' where "act' = (\<lambda>q. act q \<and> q \<noteq> p)"
  define R' where "R' = fst (rt_leave p g R)"
  define rest where "rest = map_delete (g_clients g) (c_ClientID (rt_heap R p))"
  have f: "rt_heap R' = rt_heap R" "rt_conns R' = map_delete (rt_conns R) (c_ID (rt_heap R p))"
    "rt_waiting R' = rt_waiting R" "rt_peers R' = rt_peers R"
    by (simp_all add: R'_def rt_leave_def Let_def)
  have gs: "rt_groups R' = (if map_len rest = 0 then map_delete (rt_groups R) (c_Username (rt_heap R p))
        else (rt_groups R)(c_Username (rt_heap R p) \<mapsto> g\<lparr>g_clients := rest\<rparr>))"
    by (simp add: R'_def rt_leave_def rest_def Let_def)
  have fin: "finite (dom rest)" using base_groupD [OF b g] by (simp add: rest_def)
  have rest: "group_inv act' R' (c_Username (rt_heap R p)) (g\<lparr>g_clients := rest\<rparr>)" if "map_len rest \<noteq> 0"
    unfolding group_inv_def
  proof (intro conjI allI impI)
    show "g_clients (g\<lparr>g_clients := rest\<rparr>) \<noteq> Map.empty" using that by auto
    fix i q
    assume "g_clients (g\<lparr>g_clients := rest\<rparr>) i = Some q"
    then have q: "g_clients g i = Some q" "i \<noteq> c_ClientID (rt_heap R p)" by (auto simp: rest_def split: if_splits)
    with base_clientD [OF b g q(1)]
    show "act' q" "i \<noteq> []" "c_ClientID (rt_heap R' q) = i" "c_Username (rt_heap R' q) = c_Username (rt_heap R p)"
      by (auto simp: act'_def f)
  qed (use fin in simp)
  have other: "group_inv act' R' v g'" if v: "v \<noteq> c_Username (rt_heap R p)" "rt_groups R v = Some g'" for v g'
    unfolding group_inv_def
  proof (intro conjI allI impI)
    fix i q
    assume q: "g_clients g' i = Some q"
    with base_clientD [OF b v(2) q] v(1)
    show "act' q" "i \<noteq> []" "c_ClientID (rt_heap R' q) = i" "c_Username (rt_heap R' q) = v"
      by (auto simp: act'_def f)
  qed (use base_groupD [OF b v(2)] in simp_all)
  have "finite (dom (rt_groups R'))" using base_invD(2) [OF b] by (simp add: gs groups_inv_def)
  then have "groups_inv act' R'"
    using rest other by (auto simp: groups_inv_def gs split: if_splits)
  moreover have "conns_inv act' R'"
  proof (rule conns_inv_sub [OF base_invD(1) [OF b]])
    fix i q
    assume "rt_conns R' i = Some q"
    then show "rt_conns R i = Some q \<and> act' q"
      using base_connsD [OF b, of i q] by (auto simp: f act'_def split: if_splits)
  qed (simp add: f)
  moreover have "ids_inv act' R'"
    by (rule ids_inv_cong [OF base_invD(3) [OF b]]) (simp_all add: f base_invD [OF b] act'_def)
  ultimately show ?thesis by (simp add: base_inv_def act'_def R'_def)
qed

text \<open>Any step that only removes entries, and every entry of the connection that is closed.\<close>
lemma base_remove:
  assumes b: "base_inv act R" and h: "rt_heap R' = rt_heap R"
    and cs: "\<And>i q. rt_conns R' i = Some q \<Longrightarrow> rt_conns R i = Some q \<and> i \<noteq> c_ID (rt_heap R p)"
    and gs: "\<And>u g. rt_groups R' u = Some g \<Longrightarrow> rt_groups R u = Some g"
    and np: "\<And>u g i. rt_groups R u = Some g \<Longrightarrow> g_clients g i \<noteq> Some p"
    and ws: "waits_ok (rt_waiting R')" and ps: "peers_ok (rt_peers R')"
  shows "base_inv (\<lambda>q. act q \<and> q \<noteq> p) R'"
proof -
  have "conns_inv (\<lambda>q. act q \<and> q \<noteq> p) R'"
  proof (rule conns_inv_sub [OF base_invD(1) [OF b]])
    fix i q
    assume q: "rt_conns R' i = Some q"
    show "rt_conns R i = Some q \<and> act q \<and> q \<noteq> p"
      using cs [OF q] base_connsD [OF b, of i q] by auto
  qed (simp add: h)
  moreover have "groups_inv (\<lambda>q. act q \<and> q \<noteq> p) R'"
  proof (rule groups_inv_sub [OF base_invD(2) [OF b] h])
    fix u g
    assume g: "rt_groups R' u = Some g"
    show "rt_groups R u = Some g \<and> (\<forall>i q. g_clients g i = Some q \<longrightarrow> act q \<and> q \<noteq> p)"
      using gs [OF g] np [OF gs [OF g]] base_clientD [OF b gs [OF g]] by auto
  qed
  moreover have "ids_inv (\<lambda>q. act q \<and> q \<noteq> p) R'"
    by (rule ids_inv_cong [OF base_invD(3) [OF b]]) (simp_all add: h ws ps)
  ultimately show ?thesis by (simp add: base_inv_def)
qed

lemma base_unpair:
  assumes b: "base_inv act R" and np: "\<And>u g i. rt_groups R u = Some g \<Longrightarrow> g_clients g i \<noteq> Some p"
  shows "base_inv (\<lambda>q. act q \<and> q \<noteq> p) (fst (snd (rt_unpair p R)))"
  by (rule base_remove [OF b _ _ _ np])
    (auto simp: rt_unpair_def Let_def waits_ok_delete peers_ok_unpair base_invD [OF b]
      split: option.splits if_splits)

lemma base_disband:
  assumes b: "base_inv act R" and np: "\<And>u g i. rt_groups R u = Some g \<Longrightarrow> g_clients g i \<noteq> Some p"
  shows "base_inv (\<lambda>q. act q \<and> q \<noteq> p) (fst (rt_disband order p g R))"
  by (rule base_remove [OF b _ _ _ np])
    (auto simp: rt_disband_def Let_def without_def unwait_def waits_ok_delete base_invD [OF b] split: if_splits)

lemma base_close [relay_intros]:
  assumes b: "base_inv act R"
  shows "base_inv (\<lambda>q. act q \<and> q \<noteq> p) (fst (snd (rt_close order p R)))"
proof (cases "c_ClientID (rt_heap R p) = [] \<or> rt_groups R (c_Username (rt_heap R p)) = None")
  case True
  then have np: "\<And>u g i. rt_groups R u = Some g \<Longrightarrow> g_clients g i \<noteq> Some p" by (rule no_client [OF b])
  show ?thesis
    using True base_unpair [OF b np] base_disband [OF b np]
    by (auto simp: rt_close_def Let_def split: option.splits)
next
  case False
  then show ?thesis using base_leave [OF b]
    by (auto simp: rt_close_def Let_def)
qed

text \<open>Once it has been closed, a connection is found by nobody.\<close>
lemma closed_unreachable:
  assumes "base_inv act R"
  shows "p \<notin> ran (rt_conns (fst (snd (rt_close order p R))))"
    "rt_groups (fst (snd (rt_close order p R))) u = Some g \<Longrightarrow> p \<notin> ran (g_clients g)"
proof -
  note b = base_close [OF assms, of p order]
  show "p \<notin> ran (rt_conns (fst (snd (rt_close order p R))))"
    using base_connsD [OF b] unfolding ran_def by blast
  show "p \<notin> ran (g_clients g)" if "rt_groups (fst (snd (rt_close order p R))) u = Some g"
    using base_clientD [OF b that] unfolding ran_def by blast
qed

end
