(* ===== verification/Routing_Once.thy ===== *)
theory Routing_Once
  imports Routing_Inv
begin

text \<open>
  The invariant \<open>once_inv\<close> of the routing machine, which holds as long as a connection registers
  or connects only once: a waiting id is a connected server of that username, pairs are symmetric
  and join one server and one client of one username, groups are led by a connected multi-client
  server of theirs. Each step of the machine gets a preservation lemma.
\<close>

section \<open>The invariant of connections that register or connect once\<close>

definition fresh_inv :: "(cref \<Rightarrow> bool) \<Rightarrow> routing \<Rightarrow> bool" where
  "fresh_inv act R \<longleftrightarrow> (\<forall>p. act p \<longrightarrow>
     (c_Username (rt_heap R p) = [] \<longrightarrow> \<not> c_MultiClient (rt_heap R p) \<and> c_ClientID (rt_heap R p) = [])
     \<and> (c_ClientID (rt_heap R p) \<noteq> [] \<longrightarrow> \<not> c_IsServer (rt_heap R p))
     \<and> (c_MultiClient (rt_heap R p) \<longrightarrow> c_IsServer (rt_heap R p)))"

definition server_of :: "routing \<Rightarrow> cref \<Rightarrow> string \<Rightarrow> bool" where
  "server_of R q u \<longleftrightarrow> c_Username (rt_heap R q) = u \<and> u \<noteq> [] \<and> c_IsServer (rt_heap R q) \<and> c_ClientID (rt_heap R q) = []"

definition wait_inv :: "routing \<Rightarrow> bool" where
  "wait_inv R \<longleftrightarrow> (\<forall>u i. rt_waiting R u = Some i \<longrightarrow>
     rt_peers R i = None \<and> (\<exists>q. rt_conns R i = Some q \<and> server_of R q u))"

text \<open>\<open>p\<close> and \<open>q\<close> are the two sides of a pair.\<close>
definition sides :: "routing \<Rightarrow> cref \<Rightarrow> cref \<Rightarrow> bool" where
  "sides R p q \<longleftrightarrow> c_Username (rt_heap R p) = c_Username (rt_heap R q) \<and> c_Username (rt_heap R p) \<noteq> []
     \<and> c_IsServer (rt_heap R p) \<noteq> c_IsServer (rt_heap R q)
     \<and> c_ClientID (rt_heap R p) = [] \<and> c_ClientID (rt_heap R q) = []
     \<and> \<not> c_MultiClient (rt_heap R p) \<and> \<not> c_MultiClient (rt_heap R q)"

definition pair_inv :: "routing \<Rightarrow> bool" where
  "pair_inv R \<longleftrightarrow> sym_peers (rt_peers R) \<and> (\<forall>i j. rt_peers R i = Some j \<longrightarrow>
     (\<exists>p q. rt_conns R i = Some p \<and> rt_conns R j = Some q \<and> sides R p q))"

definition lead_inv :: "(cref \<Rightarrow> bool) \<Rightarrow> routing \<Rightarrow> bool" where
  "lead_inv act R \<longleftrightarrow> (\<forall>u g. rt_groups R u = Some g \<longrightarrow>
     act (g_serverConn g) \<and> server_of R (g_serverConn g) u \<and> c_MultiClient (rt_heap R (g_serverConn g))
     \<and> (\<forall>i q. g_clients g i = Some q \<longrightarrow> \<not> c_IsServer (rt_heap R q)))"

definition once_inv :: "(cref \<Rightarrow> bool) \<Rightarrow> routing \<Rightarrow> bool" where
  "once_inv act R \<longleftrightarrow> base_inv act R \<and> fresh_inv act R \<and> wait_inv R \<and> pair_inv R \<and> lead_inv act R"

lemma once_invD:
  "once_inv act R \<Longrightarrow> base_inv act R" "once_inv act R \<Longrightarrow> fresh_inv act R" "once_inv act R \<Longrightarrow> wait_inv R"
  "once_inv act R \<Longrightarrow> pair_inv R" "once_inv act R \<Longrightarrow> lead_inv act R"
  by (simp_all add: once_inv_def)

lemma wait_invD:
  assumes "wait_inv R" "rt_waiting R u = Some i"
  obtains q where "rt_conns R i = Some q" "server_of R q u" "rt_peers R i = None"
  using assms unfolding wait_inv_def by blast

lemma pair_invD:
  assumes "pair_inv R" "rt_peers R i = Some j"
  obtains p q where "rt_conns R i = Some p" "rt_conns R j = Some q" "sides R p q" "rt_peers R j = Some i"
  using assms sym_peersD [of "rt_peers R" i j] unfolding pair_inv_def by blast

lemma lead_invD:
  assumes "lead_inv act R" "rt_groups R u = Some g"
  shows "act (g_serverConn g)" "server_of R (g_serverConn g) u" "c_MultiClient (rt_heap R (g_serverConn g))"
    "g_clients g i = Some q \<Longrightarrow> \<not> c_IsServer (rt_heap R q)"
  using assms unfolding lead_inv_def by blast+

text \<open>A fresh connection, one without a username, is mentioned by none of the maps.\<close>
lemma fresh_unmentioned:
  assumes o: "once_inv act R" and a: "act p" and f: "c_Username (rt_heap R p) = []"
  shows "rt_waiting R u \<noteq> Some (c_ID (rt_heap R p))" "rt_peers R (c_ID (rt_heap R p)) = None"
    "rt_groups R u = Some g \<Longrightarrow> g_serverConn g \<noteq> p" "rt_groups R u = Some g \<Longrightarrow> g_clients g i \<noteq> Some p"
    "rt_waiting R u = Some i \<Longrightarrow> rt_conns R i \<noteq> Some p" "rt_peers R i = Some j \<Longrightarrow> rt_conns R i \<noteq> Some p"
    "rt_peers R i \<noteq> Some (c_ID (rt_heap R p))"
proof -
  have at: "q = p" if "rt_conns R (c_ID (rt_heap R p)) = Some q" for q
    using base_connsD [OF once_invD(1) [OF o] that] base_idsD(2) [OF once_invD(1) [OF o], of q p] a by simp
  show "rt_waiting R u \<noteq> Some (c_ID (rt_heap R p))"
  proof
    assume w: "rt_waiting R u = Some (c_ID (rt_heap R p))"
    obtain q where "rt_conns R (c_ID (rt_heap R p)) = Some q" "server_of R q u"
      by (rule wait_invD [OF once_invD(3) [OF o] w])
    with at f show False by (auto simp: server_of_def)
  qed
  show none: "rt_peers R (c_ID (rt_heap R p)) = None"
  proof (rule ccontr)
    assume "rt_peers R (c_ID (rt_heap R p)) \<noteq> None"
    then obtain j where j: "rt_peers R (c_ID (rt_heap R p)) = Some j" by blast
    obtain q q' where "rt_conns R (c_ID (rt_heap R p)) = Some q" "sides R q q'"
      by (rule pair_invD [OF once_invD(4) [OF o] j])
    with at f show False by (auto simp: sides_def)
  qed
  show "rt_groups R u = Some g \<Longrightarrow> g_serverConn g \<noteq> p"
    using lead_invD(2) [OF once_invD(5) [OF o]] f by (auto simp: server_of_def)
  show "rt_groups R u = Some g \<Longrightarrow> g_clients g i \<noteq> Some p"
  proof
    assume g: "rt_groups R u = Some g" "g_clients g i = Some p"
    have "c_ClientID (rt_heap R p) = []" using once_invD(2) [OF o] a f by (simp add: fresh_inv_def)
    with base_clientD [OF once_invD(1) [OF o] g] show False by auto
  qed
  show "rt_conns R i \<noteq> Some p" if w: "rt_waiting R u = Some i"
  proof
    assume c: "rt_conns R i = Some p"
    obtain q where "rt_conns R i = Some q" "server_of R q u"
      by (rule wait_invD [OF once_invD(3) [OF o] w])
    with c f show False by (auto simp: server_of_def)
  qed
  show "rt_conns R i \<noteq> Some p" if j: "rt_peers R i = Some j"
  proof
    assume c: "rt_conns R i = Some p"
    obtain q q' where "rt_conns R i = Some q" "sides R q q'"
      by (rule pair_invD [OF once_invD(4) [OF o] j])
    with c f show False by (auto simp: sides_def)
  qed
  show "rt_peers R i \<noteq> Some (c_ID (rt_heap R p))"
  proof
    assume j: "rt_peers R i = Some (c_ID (rt_heap R p))"
    show False by (rule pair_invD [OF once_invD(4) [OF o] j]) (simp add: none)
  qed
qed

lemma server_of_other: "rt_heap R' q = rt_heap R q \<Longrightarrow> server_of R' q u = server_of R q u"
  by (simp add: server_of_def)

lemma sides_other: "rt_heap R' p = rt_heap R p \<Longrightarrow> rt_heap R' q = rt_heap R q \<Longrightarrow> sides R' p q = sides R p q"
  by (simp add: sides_def)

text \<open>What a step has to show when it touches one fresh connection only.\<close>
lemma pair_inv_keep:
  assumes "pair_inv R" "rt_peers R' = rt_peers R"
    "\<And>i p. rt_peers R i \<noteq> None \<Longrightarrow> rt_conns R i = Some p \<Longrightarrow> rt_conns R' i = Some p \<and> rt_heap R' p = rt_heap R p"
  shows "pair_inv R'"
  unfolding pair_inv_def
proof (intro conjI allI impI)
  show "sym_peers (rt_peers R')" using assms(1,2) by (simp add: pair_inv_def)
  fix i j
  assume "rt_peers R' i = Some j"
  then have ij: "rt_peers R i = Some j" using assms(2) by simp
  obtain p q where pq: "rt_conns R i = Some p" "rt_conns R j = Some q" "sides R p q" "rt_peers R j = Some i"
    by (rule pair_invD [OF assms(1) ij])
  with assms(3) [of i p] assms(3) [of j q] ij sides_other [of R' p R q]
  show "\<exists>p q. rt_conns R' i = Some p \<and> rt_conns R' j = Some q \<and> sides R' p q" by auto
qed

lemma lead_inv_keep:
  assumes "lead_inv act R" "rt_groups R' = rt_groups R"
    "\<And>u g. rt_groups R u = Some g \<Longrightarrow> rt_heap R' (g_serverConn g) = rt_heap R (g_serverConn g)"
    "\<And>u g i q. rt_groups R u = Some g \<Longrightarrow> g_clients g i = Some q \<Longrightarrow> rt_heap R' q = rt_heap R q"
  shows "lead_inv act R'"
  using assms(1) unfolding lead_inv_def assms(2)
  using assms(3,4) server_of_other [of R' _ R] by metis

lemma fresh_inv_keep:
  assumes "fresh_inv act R" "\<And>q. act q \<Longrightarrow> q \<noteq> p \<Longrightarrow> rt_heap R' q = rt_heap R q"
    "c_Username (rt_heap R' p) \<noteq> []" "c_ClientID (rt_heap R' p) \<noteq> [] \<Longrightarrow> \<not> c_IsServer (rt_heap R' p)"
    "c_MultiClient (rt_heap R' p) \<Longrightarrow> c_IsServer (rt_heap R' p)"
  shows "fresh_inv act R'"
  using assms unfolding fresh_inv_def by metis

lemma rt_registered_parts:
  fixes R :: routing and p :: cref and u :: string
  defines "c \<equiv> c_ID (rt_heap R p)" and "ev \<equiv> evicted_by (rt_waiting R) u (c_ID (rt_heap R p))"
  shows "rt_heap (rt_registered p u mc R) q
      = (if q = p then (rt_heap R p)\<lparr>c_Username := u, c_IsServer := True, c_MultiClient := mc\<rparr> else rt_heap R q)"
    "rt_conns (rt_registered p u mc R) = (if ev = [] then (rt_conns R)(c \<mapsto> p) else map_delete ((rt_conns R)(c \<mapsto> p)) ev)"
    "rt_groups (rt_registered p u mc R) = rt_groups R" "rt_peers (rt_registered p u mc R) = rt_peers R"
    "rt_waiting (rt_registered p u mc R) = (rt_waiting R)(u \<mapsto> c)"
    "ev \<noteq> [] \<Longrightarrow> ev \<noteq> c \<and> rt_waiting R u = Some ev"
  by (cases "rt_waiting R u";
      auto simp: rt_registered_def set_conn_def rt_register_def evicted_by_def c_def ev_def Let_def split: if_splits)+

lemma once_registered:
  assumes o: "once_inv act R" and a: "act p" and f: "c_Username (rt_heap R p) = []" and u: "u \<noteq> []"
  shows "once_inv act (rt_registered p u mc R)"
proof -
  define R' where "R' = rt_registered p u mc R"
  define c where "c = c_ID (rt_heap R p)"
  define ev where "ev = evicted_by (rt_waiting R) u c"
  note fr = fresh_unmentioned [OF o a f]
  note b = once_invD(1) [OF o]
  have fp: "\<not> c_MultiClient (rt_heap R p)" "c_ClientID (rt_heap R p) = []"
    using once_invD(2) [OF o] a f by (simp_all add: fresh_inv_def)
  note h = rt_registered_parts(1) [of p u mc R, folded R'_def] and cs = rt_registered_parts(2) [of p u mc R, folded R'_def c_def, folded ev_def]
    and gs = rt_registered_parts(3-5) [of p u mc R, folded R'_def c_def] and evc = rt_registered_parts(6) [of R u p, folded c_def, folded ev_def]
  have evw: "rt_peers R ev = None \<and> (\<exists>q. rt_conns R ev = Some q \<and> server_of R q u)" if "ev \<noteq> []"
    by (rule wait_invD [OF once_invD(3) [OF o], of u ev]) (use evc that in auto)
  have np: "unjoined p R" using fr(4) by (simp add: unjoined_def)
  have "base_inv act R'" unfolding R'_def by (rule base_registered [OF b a np])
  moreover have "fresh_inv act R'"
    by (rule fresh_inv_keep [OF once_invD(2) [OF o], of p]) (simp_all add: h u fp)
  moreover have "lead_inv act R'"
    by (rule lead_inv_keep [OF once_invD(5) [OF o]]) (use fr(3,4) in \<open>auto simp: gs h\<close>)
  moreover have "pair_inv R'"
  proof (rule pair_inv_keep [OF once_invD(4) [OF o]])
    fix i q
    assume i: "rt_peers R i \<noteq> None" "rt_conns R i = Some q"
    then obtain j where j: "rt_peers R i = Some j" by blast
    have "q \<noteq> p" using fr(6) [OF j] i(2) by auto
    moreover have "i \<noteq> c" using fr(2) i(1) by (auto simp: c_def)
    moreover have "i \<noteq> ev" if "ev \<noteq> []" using evw [OF that] i(1) by auto
    ultimately show "rt_conns R' i = Some q \<and> rt_heap R' q = rt_heap R q"
      using i(2) by (simp add: cs h)
  qed (simp add: gs)
  moreover have "wait_inv R'"
    unfolding wait_inv_def
  proof (intro allI impI)
    fix v i
    assume w: "rt_waiting R' v = Some i"
    show "rt_peers R' i = None \<and> (\<exists>q. rt_conns R' i = Some q \<and> server_of R' q v)"
    proof (cases "v = u")
      case True
      then have i: "i = c" using w by (simp add: gs)
      have "server_of R' p u" using u fp by (simp add: server_of_def h)
      moreover have "rt_conns R' c = Some p" using evc by (cases "ev = []") (auto simp: cs)
      ultimately show ?thesis using i True fr(2) by (simp add: gs c_def)
    next
      case False
      then have w': "rt_waiting R v = Some i" using w by (simp add: gs)
      obtain q where q: "rt_conns R i = Some q" "server_of R q v" "rt_peers R i = None"
        by (rule wait_invD [OF once_invD(3) [OF o] w'])
      have "q \<noteq> p" using fr(5) [OF w'] q(1) by auto
      moreover have "i \<noteq> c" using fr(1) [of v] w' by (auto simp: c_def)
      moreover have "i \<noteq> ev" if "ev \<noteq> []" using evw [OF that] q False by (auto simp: server_of_def)
      ultimately show ?thesis using q server_of_other [of R' q R v] by (simp add: cs gs h)
    qed
  qed
  ultimately show ?thesis by (simp add: once_inv_def R'_def)
qed

text \<open>A waiting server survives a change that leaves its connection and its entry alone.\<close>
lemma wait_inv_keep:
  assumes "wait_inv R"
    and "\<And>v j x. rt_waiting R' v = Some j \<Longrightarrow> rt_conns R j = Some x \<Longrightarrow> server_of R x v \<Longrightarrow> rt_peers R j = None \<Longrightarrow>
      rt_waiting R v = Some j \<Longrightarrow> rt_peers R' j = None \<and> rt_conns R' j = Some x \<and> rt_heap R' x = rt_heap R x"
    and "\<And>v j. rt_waiting R' v = Some j \<Longrightarrow> rt_waiting R v = Some j"
  shows "wait_inv R'"
  unfolding wait_inv_def
proof (intro allI impI)
  fix v j
  assume j: "rt_waiting R' v = Some j"
  obtain x where x: "rt_conns R j = Some x" "server_of R x v" "rt_peers R j = None"
    by (rule wait_invD [OF assms(1) assms(3) [OF j]])
  have "rt_peers R' j = None \<and> rt_conns R' j = Some x \<and> rt_heap R' x = rt_heap R x"
    by (rule assms(2) [OF j x assms(3) [OF j]])
  then show "rt_peers R' j = None \<and> (\<exists>q. rt_conns R' j = Some q \<and> server_of R' q v)"
    using x(2) server_of_other [of R' x R v] by blast
qed

text \<open>A fresh client that joins the group of a waiting multi-client server.\<close>
lemma once_joined:
  assumes o: "once_inv act R" and a: "act p" and f: "c_Username (rt_heap R p) = []"
    and w: "rt_waiting R u = Some s" and q: "rt_conns R s = Some q" "server_of R q u" "c_MultiClient (rt_heap R q)"
    and b': "base_inv act (rt_connected p u i R)"
  shows "once_inv act (rt_connected p u i R)"
proof -
  define R' where "R' = rt_connected p u i R"
  define c where "c = c_ID (rt_heap R p)"
  define g where "g = (case rt_groups R u of None \<Rightarrow> \<lparr>g_serverConn = q, g_clients = Map.empty\<rparr> | Some g \<Rightarrow> g)"
  note fr = fresh_unmentioned [OF o a f] and b = once_invD(1) [OF o]
  have fp: "\<not> c_MultiClient (rt_heap R p)" "u \<noteq> []" "q \<noteq> p"
    using once_invD(2) [OF o] a f fr(5) [OF w] q by (auto simp: fresh_inv_def server_of_def)
  have h: "rt_heap R' x = (if x = p then (rt_heap R p)\<lparr>c_Username := u, c_IsServer := False, c_ClientID := i\<rparr> else rt_heap R x)" for x
    using w q(1,3) by (simp add: R'_def rt_connected_def rt_connect_def rt_join_def set_conn_def Let_def)
  have m: "rt_waiting R' = rt_waiting R" "rt_peers R' = rt_peers R" "rt_conns R' = (rt_conns R)(c \<mapsto> p)"
    "rt_groups R' = (rt_groups R)(u \<mapsto> g\<lparr>g_clients := (g_clients g)(i \<mapsto> p)\<rparr>)"
    using w q(1,3) by (simp_all add: R'_def rt_connected_def rt_connect_def rt_join_def set_conn_def Let_def g_def c_def)
  have "fresh_inv act R'" by (rule fresh_inv_keep [OF once_invD(2) [OF o], of p]) (simp_all add: h fp)
  moreover have "pair_inv R'"
  proof (rule pair_inv_keep [OF once_invD(4) [OF o]])
    fix j x
    assume j: "rt_peers R j \<noteq> None" "rt_conns R j = Some x"
    then have "x \<noteq> p" "j \<noteq> c" using fr(2,6) by (auto simp: c_def)
    then show "rt_conns R' j = Some x \<and> rt_heap R' x = rt_heap R x" using j(2) by (simp add: m h)
  qed (simp add: m)
  moreover have "wait_inv R'"
  proof (rule wait_inv_keep [OF once_invD(3) [OF o]])
    fix v j x
    assume j: "rt_conns R j = Some x" "rt_waiting R v = Some j" "rt_peers R j = None"
    then have "x \<noteq> p" "j \<noteq> c" using fr(1,5) by (auto simp: c_def)
    then show "rt_peers R' j = None \<and> rt_conns R' j = Some x \<and> rt_heap R' x = rt_heap R x" using j by (simp add: m h)
  qed (simp add: m)
  moreover have "lead_inv act R'"
    unfolding lead_inv_def
  proof (intro allI impI)
    fix v g'
    assume g': "rt_groups R' v = Some g'"
    have old: "act (g_serverConn k) \<and> server_of R' (g_serverConn k) v \<and> c_MultiClient (rt_heap R' (g_serverConn k))
        \<and> (\<forall>j x. g_clients k j = Some x \<longrightarrow> \<not> c_IsServer (rt_heap R' x))" if k: "rt_groups R v = Some k" for k
      using lead_invD [OF once_invD(5) [OF o] k] fr(3,4) [OF k] server_of_other [of R' "g_serverConn k" R v]
      by (auto simp: h)
    have new: "act q \<and> server_of R' q u \<and> c_MultiClient (rt_heap R' q)"
      using base_connsD [OF b q(1)] q(2,3) fp(3) server_of_other [of R' q R u] by (simp add: h)
    show "act (g_serverConn g') \<and> server_of R' (g_serverConn g') v \<and> c_MultiClient (rt_heap R' (g_serverConn g'))
        \<and> (\<forall>j x. g_clients g' j = Some x \<longrightarrow> \<not> c_IsServer (rt_heap R' x))"
    proof (cases "v = u")
      case False
      with g' have "rt_groups R v = Some g'" by (simp add: m)
      then show ?thesis by (rule old)
    next
      case True
      with g' have "g' = g\<lparr>g_clients := (g_clients g)(i \<mapsto> p)\<rparr>" by (simp add: m)
      then show ?thesis using old new True by (cases "rt_groups R u") (auto simp: g_def h split: if_splits)
    qed
  qed
  ultimately show ?thesis using b' by (simp add: once_inv_def R'_def)
qed

text \<open>A fresh client that becomes the peer of a waiting server.\<close>
lemma once_paired:
  assumes o: "once_inv act R" and a: "act p" and f: "c_Username (rt_heap R p) = []"
    and w: "rt_waiting R u = Some s" and q: "rt_conns R s = Some q" "server_of R q u" "\<not> c_MultiClient (rt_heap R q)"
    and ps: "rt_peers R s = None" and b': "base_inv act (rt_connected p u i R)"
  shows "once_inv act (rt_connected p u i R)"
proof -
  define R' where "R' = rt_connected p u i R"
  define c where "c = c_ID (rt_heap R p)"
  note fr = fresh_unmentioned [OF o a f]
  have fp: "\<not> c_MultiClient (rt_heap R p)" "u \<noteq> []" "q \<noteq> p" "s \<noteq> c"
    using once_invD(2) [OF o] a f fr(1) [of u] fr(5) [OF w] q w by (auto simp: fresh_inv_def server_of_def c_def)
  have h: "rt_heap R' x = (if x = p then (rt_heap R p)\<lparr>c_Username := u, c_IsServer := False, c_ClientID := []\<rparr> else rt_heap R x)" for x
    using w q(1,3) by (simp add: R'_def rt_connected_def rt_connect_def rt_pair_def set_conn_def Let_def)
  have m: "rt_waiting R' = map_delete (rt_waiting R) u" "rt_peers R' = (rt_peers R)(s \<mapsto> c, c \<mapsto> s)"
    "rt_conns R' = (rt_conns R)(c \<mapsto> p)" "rt_groups R' = rt_groups R"
    using w q(1,3) by (simp_all add: R'_def rt_connected_def rt_connect_def rt_pair_def set_conn_def Let_def c_def)
  have "fresh_inv act R'" by (rule fresh_inv_keep [OF once_invD(2) [OF o], of p]) (simp_all add: h fp)
  moreover have "lead_inv act R'"
    by (rule lead_inv_keep [OF once_invD(5) [OF o]]) (use fr(3,4) in \<open>auto simp: m h\<close>)
  moreover have "wait_inv R'"
  proof (rule wait_inv_keep [OF once_invD(3) [OF o]])
    fix v j x
    assume j: "rt_waiting R' v = Some j" "rt_conns R j = Some x" "server_of R x v" "rt_peers R j = None" "rt_waiting R v = Some j"
    then have "x \<noteq> p" "j \<noteq> c" "j \<noteq> s" using fr(1,5) q by (auto simp: c_def m server_of_def split: if_splits)
    then show "rt_peers R' j = None \<and> rt_conns R' j = Some x \<and> rt_heap R' x = rt_heap R x" using j by (simp add: m h)
  qed (simp add: m split: if_splits)
  moreover have "pair_inv R'"
    unfolding pair_inv_def
  proof (intro conjI allI impI)
    have "sym_peers (rt_peers R)" using once_invD(4) [OF o] by (simp add: pair_inv_def)
    then show "sym_peers (rt_peers R')" unfolding m by (rule sym_peers_pair) (use ps fr(2) in \<open>simp_all add: c_def\<close>)
    fix j k
    assume jk: "rt_peers R' j = Some k"
    have new: "sides R' q p" "sides R' p q" using q(2,3) fp by (auto simp: sides_def h server_of_def)
    show "\<exists>x y. rt_conns R' j = Some x \<and> rt_conns R' k = Some y \<and> sides R' x y"
    proof (cases "j = s \<or> j = c")
      case True
      then show ?thesis using jk fp(4) q(1) new by (auto simp: m split: if_splits)
    next
      case old: False
      then have jk': "rt_peers R j = Some k" using jk by (simp add: m)
      obtain x y where xy: "rt_conns R j = Some x" "rt_conns R k = Some y" "sides R x y" "rt_peers R k = Some j"
        by (rule pair_invD [OF once_invD(4) [OF o] jk'])
      have "x \<noteq> p" "y \<noteq> p" "k \<noteq> c" using fr(6) [OF jk'] fr(6) [OF xy(4)] fr(2) xy by (auto simp: c_def)
      then show ?thesis using xy old sides_other [of R' x R y] by (simp add: m h)
    qed
  qed
  ultimately show ?thesis using b' by (simp add: once_inv_def R'_def)
qed

lemma once_connected:
  assumes o: "once_inv act R" and a: "act p" and f: "c_Username (rt_heap R p) = []" and i: "i \<noteq> []"
    and fresh: "\<And>u g. rt_groups R u = Some g \<Longrightarrow> g_clients g i = None"
  shows "once_inv act (rt_connected p u i R)"
proof -
  have fp: "\<not> c_MultiClient (rt_heap R p)" "c_ClientID (rt_heap R p) = []"
    using once_invD(2) [OF o] a f by (simp_all add: fresh_inv_def)
  have np: "unjoined p R" using fresh_unmentioned(4) [OF o a f] by (simp add: unjoined_def)
  note b' = base_connected [OF once_invD(1) [OF o] a np i]
  show ?thesis
  proof (cases "rt_waiting R u")
    case None
    then show ?thesis using o by (simp add: rt_connected_def rt_connect_def refused_def)
  next
    case w: (Some s)
    obtain q where q: "rt_conns R s = Some q" "server_of R q u" "rt_peers R s = None"
      by (rule wait_invD [OF once_invD(3) [OF o] w])
    show ?thesis
    proof (cases "c_MultiClient (rt_heap R q)")
      case True
      then show ?thesis by (rule once_joined [OF o a f w q(1,2) _ b'])
    next
      case False
      then show ?thesis by (rule once_paired [OF o a f w q(1,2) _ q(3) b'])
    qed
  qed
qed

section \<open>Closing\<close>

lemma once_close_parts:
  assumes o: "once_inv act R" and a: "act p" and h: "rt_heap R' = rt_heap R"
    and b: "base_inv (\<lambda>q. act q \<and> q \<noteq> p) R'"
    and ws: "\<And>u i. rt_waiting R' u = Some i \<Longrightarrow> rt_waiting R u = Some i \<and> i \<noteq> c_ID (rt_heap R p)"
    and ps: "\<And>i j. rt_peers R' i = Some j \<Longrightarrow> rt_peers R i = Some j \<and> i \<noteq> c_ID (rt_heap R p) \<and> j \<noteq> c_ID (rt_heap R p)"
    and sym: "sym_peers (rt_peers R')"
    and cs: "\<And>i q. rt_conns R i = Some q \<Longrightarrow> c_ClientID (rt_heap R q) = [] \<Longrightarrow> i \<noteq> c_ID (rt_heap R p) \<Longrightarrow>
        rt_peers R (c_ID (rt_heap R p)) \<noteq> Some i \<Longrightarrow> rt_conns R' i = Some q"
    and gs: "\<And>u g. rt_groups R' u = Some g \<Longrightarrow> g_serverConn g \<noteq> p \<and> (\<exists>g0. rt_groups R u = Some g0
        \<and> g_serverConn g0 = g_serverConn g \<and> (\<forall>i q. g_clients g i = Some q \<longrightarrow> g_clients g0 i = Some q))"
  shows "once_inv (\<lambda>q. act q \<and> q \<noteq> p) R'"
proof -
  have so: "server_of R' q u = server_of R q u" for q u by (rule server_of_other) (simp add: h)
  have si: "sides R' x y = sides R x y" for x y by (rule sides_other) (simp_all add: h)
  have "fresh_inv (\<lambda>q. act q \<and> q \<noteq> p) R'" using once_invD(2) [OF o] by (simp add: fresh_inv_def h)
  moreover have "wait_inv R'"
    unfolding wait_inv_def
  proof (intro allI impI)
    fix u i
    assume "rt_waiting R' u = Some i"
    note w = ws [OF this]
    obtain q where q: "rt_conns R i = Some q" "server_of R q u" "rt_peers R i = None"
      using wait_invD [OF once_invD(3) [OF o]] w by blast
    have "rt_peers R (c_ID (rt_heap R p)) \<noteq> Some i"
    proof
      assume j: "rt_peers R (c_ID (rt_heap R p)) = Some i"
      show False by (rule pair_invD [OF once_invD(4) [OF o] j]) (simp add: q(3))
    qed
    then have "rt_conns R' i = Some q" using cs [OF q(1)] q(2) w by (simp add: server_of_def)
    moreover have "rt_peers R' i = None" using ps [of i] q(3) by (cases "rt_peers R' i") auto
    ultimately show "rt_peers R' i = None \<and> (\<exists>q. rt_conns R' i = Some q \<and> server_of R' q u)"
      using q(2) so by blast
  qed
  moreover have "pair_inv R'"
    unfolding pair_inv_def
  proof (intro conjI allI impI)
    fix i j
    assume ij': "rt_peers R' i = Some j"
    note ij = ps [OF ij']
    obtain x y where xy: "rt_conns R i = Some x" "rt_conns R j = Some y" "sides R x y" "rt_peers R j = Some i"
      using pair_invD [OF once_invD(4) [OF o]] ij by blast
    have s: "sym_peers (rt_peers R)" using once_invD(4) [OF o] by (simp add: pair_inv_def)
    have "rt_peers R (c_ID (rt_heap R p)) \<noteq> Some i" using sym_peersD [OF s, of _ i] ij by auto
    moreover have "rt_peers R (c_ID (rt_heap R p)) \<noteq> Some j" using sym_peersD [OF s, of _ j] xy(4) ij by auto
    ultimately have "rt_conns R' i = Some x" "rt_conns R' j = Some y"
      using cs [OF xy(1)] cs [OF xy(2)] xy(3) ij by (auto simp: sides_def)
    then show "\<exists>x y. rt_conns R' i = Some x \<and> rt_conns R' j = Some y \<and> sides R' x y"
      using xy(3) si by blast
  qed (rule sym)
  moreover have "lead_inv (\<lambda>q. act q \<and> q \<noteq> p) R'"
    unfolding lead_inv_def
  proof (intro allI impI)
    fix u g
    assume g: "rt_groups R' u = Some g"
    then obtain g0 where g0: "rt_groups R u = Some g0" "g_serverConn g0 = g_serverConn g" "g_serverConn g \<noteq> p"
        "\<And>i q. g_clients g i = Some q \<Longrightarrow> g_clients g0 i = Some q"
      using gs by blast
    show "(act (g_serverConn g) \<and> g_serverConn g \<noteq> p) \<and> server_of R' (g_serverConn g) u
        \<and> c_MultiClient (rt_heap R' (g_serverConn g)) \<and> (\<forall>i q. g_clients g i = Some q \<longrightarrow> \<not> c_IsServer (rt_heap R' q))"
      using lead_invD [OF once_invD(5) [OF o] g0(1)] g0(2,3,4) so by (auto simp: h)
  qed
  ultimately show ?thesis using b by (simp add: once_inv_def)
qed


text \<open>What the invariant says of the connection that is closed.\<close>
lemma closing_facts:
  assumes o: "once_inv act R" and a: "act p"
  shows "rt_waiting R u = Some (c_ID (rt_heap R p)) \<Longrightarrow> server_of R p u \<and> rt_peers R (c_ID (rt_heap R p)) = None"
    "rt_peers R (c_ID (rt_heap R p)) = Some j \<Longrightarrow> c_ClientID (rt_heap R p) = [] \<and> \<not> c_MultiClient (rt_heap R p)"
    "rt_groups R u = Some g \<Longrightarrow> g_serverConn g = p \<Longrightarrow>
       c_Username (rt_heap R p) = u \<and> u \<noteq> [] \<and> c_MultiClient (rt_heap R p) \<and> c_ClientID (rt_heap R p) = []"
    "sym_peers (rt_peers R)"
proof -
  note b = once_invD(1) [OF o]
  have at: "q = p" if "rt_conns R (c_ID (rt_heap R p)) = Some q" for q
    using base_connsD [OF b that] base_idsD(2) [OF b, of q p] a by simp
  show "server_of R p u \<and> rt_peers R (c_ID (rt_heap R p)) = None" if "rt_waiting R u = Some (c_ID (rt_heap R p))"
    using wait_invD [OF once_invD(3) [OF o] that] at by metis
  show "c_ClientID (rt_heap R p) = [] \<and> \<not> c_MultiClient (rt_heap R p)" if "rt_peers R (c_ID (rt_heap R p)) = Some j"
    using pair_invD [OF once_invD(4) [OF o] that] at unfolding sides_def by metis
  show "c_Username (rt_heap R p) = u \<and> u \<noteq> [] \<and> c_MultiClient (rt_heap R p) \<and> c_ClientID (rt_heap R p) = []"
    if "rt_groups R u = Some g" "g_serverConn g = p"
    using lead_invD(2,3) [OF once_invD(5) [OF o] that(1)] that(2) by (simp add: server_of_def)
  show "sym_peers (rt_peers R)" using once_invD(4) [OF o] by (simp add: pair_inv_def)
qed

lemma peers_without:
  assumes "sym_peers P" "P c = None" "P i = Some j"
  shows "i \<noteq> c \<and> j \<noteq> c"
  using assms(2,3) sym_peersD [OF assms(1,3)] by auto

lemma once_leave:
  assumes o: "once_inv act R" and a: "act p" and g: "rt_groups R (c_Username (rt_heap R p)) = Some g"
    and ci: "c_ClientID (rt_heap R p) \<noteq> []"
  shows "once_inv (\<lambda>q. act q \<and> q \<noteq> p) (fst (rt_leave p g R))"
proof -
  define R' where "R' = fst (rt_leave p g R)"
  define rest where "rest = map_delete (g_clients g) (c_ClientID (rt_heap R p))"
  have R': "rt_waiting R' = rt_waiting R" "rt_peers R' = rt_peers R" "rt_conns R' = map_delete (rt_conns R) (c_ID (rt_heap R p))"
    "rt_heap R' = rt_heap R"
    "rt_groups R' = (if map_len rest = 0 then map_delete (rt_groups R) (c_Username (rt_heap R p))
        else (rt_groups R)(c_Username (rt_heap R p) \<mapsto> g\<lparr>g_clients := rest\<rparr>))"
    by (simp_all add: R'_def rt_leave_def rest_def Let_def)
  note f = closing_facts [OF o a]
  have nop: "rt_peers R (c_ID (rt_heap R p)) = None" using f(2) ci by (cases "rt_peers R (c_ID (rt_heap R p))") auto
  have nol: "g_serverConn g' \<noteq> p" if "rt_groups R u = Some g'" for u g'
    using f(3) [OF that] ci by blast
  have "once_inv (\<lambda>q. act q \<and> q \<noteq> p) R'"
  proof (rule once_close_parts [OF o a R'(4)])
    show "base_inv (\<lambda>q. act q \<and> q \<noteq> p) R'" unfolding R'_def by (rule base_leave [OF once_invD(1) [OF o] g ci])
    show "rt_waiting R u = Some i \<and> i \<noteq> c_ID (rt_heap R p)" if "rt_waiting R' u = Some i" for u i
      using that f(1) [of u] ci by (auto simp: R' server_of_def)
    show "rt_peers R i = Some j \<and> i \<noteq> c_ID (rt_heap R p) \<and> j \<noteq> c_ID (rt_heap R p)" if "rt_peers R' i = Some j" for i j
      using peers_without [OF f(4) nop] that unfolding R' by blast
    show "sym_peers (rt_peers R')" unfolding R' by (rule f(4))
    show "rt_conns R' i = Some q" if "rt_conns R i = Some q" "i \<noteq> c_ID (rt_heap R p)" for i q
      using that by (simp add: R')
    show "g_serverConn g' \<noteq> p \<and> (\<exists>g0. rt_groups R u = Some g0 \<and> g_serverConn g0 = g_serverConn g'
          \<and> (\<forall>i q. g_clients g' i = Some q \<longrightarrow> g_clients g0 i = Some q))" if g': "rt_groups R' u = Some g'" for u g'
    proof (cases "u = c_Username (rt_heap R p)")
      case True
      then have "g' = g\<lparr>g_clients := rest\<rparr>" using g' by (simp add: R' split: if_splits)
      then show ?thesis using True g nol [OF g] by (simp add: rest_def)
    next
      case False
      then have "rt_groups R u = Some g'" using g' by (simp add: R' split: if_splits)
      then show ?thesis using nol by blast
    qed
  qed
  then show ?thesis by (simp add: R'_def)
qed

lemma once_disband:
  assumes o: "once_inv act R" and a: "act p" and ord: "range_order order"
    and g: "rt_groups R (c_Username (rt_heap R p)) = Some g"
    and ci: "c_ClientID (rt_heap R p) = []" "c_MultiClient (rt_heap R p)"
  shows "once_inv (\<lambda>q. act q \<and> q \<noteq> p) (fst (rt_disband order p g R))"
proof -
  define R' where "R' = fst (rt_disband order p g R)"
  define c where "c = rt_heap R p"
  define gone where "gone = insert (c_ID c) ((\<lambda>q. c_ID (rt_heap R q)) ` set (map_values (g_clients g) (order (dom (g_clients g)))))"
  have R': "rt_waiting R' = unwait (rt_waiting R) (c_Username c) (c_ID c)" "rt_peers R' = rt_peers R"
    "rt_conns R' = without (rt_conns R) gone" "rt_groups R' = map_delete (rt_groups R) (c_Username c)" "rt_heap R' = rt_heap R"
    by (simp_all add: R'_def rt_disband_def c_def gone_def Let_def)
  note f = closing_facts [OF o a] and b = once_invD(1) [OF o]
  have nop: "rt_peers R (c_ID (rt_heap R p)) = None" using f(2) ci by (cases "rt_peers R (c_ID (rt_heap R p))") auto
  have set: "set (map_values (g_clients g) (order (dom (g_clients g)))) = ran (g_clients g)"
    using base_groupD [OF b g] ord by (intro set_map_values_order) simp_all
  have "once_inv (\<lambda>q. act q \<and> q \<noteq> p) R'"
  proof (rule once_close_parts [OF o a R'(5)])
    show "base_inv (\<lambda>q. act q \<and> q \<noteq> p) R'"
      unfolding R'_def by (rule base_disband [OF b]) (rule no_client [OF b], use ci in simp_all)
    show "rt_waiting R u = Some i \<and> i \<noteq> c_ID (rt_heap R p)" if "rt_waiting R' u = Some i" for u i
      using that f(1) [of u] by (auto simp: R' unwait_def server_of_def c_def split: if_splits)
    show "rt_peers R i = Some j \<and> i \<noteq> c_ID (rt_heap R p) \<and> j \<noteq> c_ID (rt_heap R p)" if "rt_peers R' i = Some j" for i j
      using peers_without [OF f(4) nop] that unfolding R' by blast
    show "sym_peers (rt_peers R')" unfolding R' by (rule f(4))
    show "rt_conns R' i = Some q" if q: "rt_conns R i = Some q" "c_ClientID (rt_heap R q) = []" "i \<noteq> c_ID (rt_heap R p)" for i q
    proof -
      have "i \<notin> gone"
      proof
        assume "i \<in> gone"
        then obtain j x where x: "g_clients g j = Some x" "i = c_ID (rt_heap R x)"
          using q(3) by (auto simp: gone_def set ran_def c_def)
        note fx = base_clientD [OF b g x(1)]
        have "q = x" using base_connsD [OF b q(1)] base_idsD(2) [OF b, of q x] fx x(2) by simp
        with fx q(2) show False by auto
      qed
      then show ?thesis using q(1) by (simp add: R' without_def)
    qed
    show "g_serverConn g' \<noteq> p \<and> (\<exists>g0. rt_groups R u = Some g0 \<and> g_serverConn g0 = g_serverConn g'
          \<and> (\<forall>i q. g_clients g' i = Some q \<longrightarrow> g_clients g0 i = Some q))" if g': "rt_groups R' u = Some g'" for u g'
    proof -
      have "rt_groups R u = Some g'" "u \<noteq> c_Username c" using g' by (simp_all add: R' split: if_splits)
      with f(3) [of u g'] show ?thesis unfolding c_def by blast
    qed
  qed
  then show ?thesis by (simp add: R'_def)
qed

lemma once_unpair:
  assumes o: "once_inv act R" and a: "act p"
    and u: "rt_groups R (c_Username (rt_heap R p)) = None
      \<or> c_ClientID (rt_heap R p) = [] \<and> \<not> (c_MultiClient (rt_heap R p) \<and> c_Username (rt_heap R p) \<noteq> [])"
  shows "once_inv (\<lambda>q. act q \<and> q \<noteq> p) (fst (snd (rt_unpair p R)))"
proof -
  define R' where "R' = fst (snd (rt_unpair p R))"
  define c where "c = rt_heap R p"
  note f = closing_facts [OF o a] and b = once_invD(1) [OF o]
  have h: "rt_heap R' = rt_heap R" and gs: "rt_groups R' = rt_groups R"
    by (simp_all add: R'_def rt_unpair_def Let_def split: option.splits)
  have wt: "rt_waiting R' v = (if rt_waiting R v = Some (c_ID c) then None else rt_waiting R v)" for v
  proof (cases "rt_waiting R v = Some (c_ID c)")
    case True
    with f(1) [of v] show ?thesis
      by (simp add: R'_def rt_unpair_def Let_def server_of_def c_def)
  next
    case False
    then show ?thesis by (auto simp: R'_def rt_unpair_def Let_def c_def split: option.splits)
  qed
  have pt: "rt_peers R' = unpair (rt_peers R) (c_ID c)"
    using f(1) [of "c_Username c"]
    by (simp add: R'_def rt_unpair_def Let_def c_def split: option.splits)
  have "once_inv (\<lambda>q. act q \<and> q \<noteq> p) R'"
  proof (rule once_close_parts [OF o a h])
    show "base_inv (\<lambda>q. act q \<and> q \<noteq> p) R'"
      unfolding R'_def by (rule base_unpair [OF b]) (rule no_client [OF b], use u in auto)
    show "rt_waiting R v = Some i \<and> i \<noteq> c_ID (rt_heap R p)" if "rt_waiting R' v = Some i" for v i
      using that by (auto simp: wt c_def split: if_splits)
    show "rt_peers R i = Some j \<and> i \<noteq> c_ID (rt_heap R p) \<and> j \<noteq> c_ID (rt_heap R p)" if ij: "rt_peers R' i = Some j" for i j
    proof -
      have ij': "rt_peers R i = Some j" "i \<noteq> c_ID c" "rt_peers R (c_ID c) \<noteq> Some i"
        using ij by (auto simp: pt unpair_apply split: if_splits)
      then have "j \<noteq> c_ID c" using sym_peersD [OF f(4) ij'(1)] by auto
      with ij' show ?thesis by (simp add: c_def)
    qed
    show "sym_peers (rt_peers R')" unfolding pt by (rule sym_peers_unpair [OF f(4)])
    show "rt_conns R' i = Some q"
      if "rt_conns R i = Some q" "i \<noteq> c_ID (rt_heap R p)" "rt_peers R (c_ID (rt_heap R p)) \<noteq> Some i" for i q
      using that by (simp add: R'_def rt_unpair_def Let_def split: option.splits)
    show "g_serverConn g' \<noteq> p \<and> (\<exists>g0. rt_groups R v = Some g0 \<and> g_serverConn g0 = g_serverConn g'
          \<and> (\<forall>i q. g_clients g' i = Some q \<longrightarrow> g_clients g0 i = Some q))" if g': "rt_groups R' v = Some g'" for v g'
      using f(3) [of v g'] g' u unfolding gs by fastforce
  qed
  then show ?thesis by (simp add: R'_def)
qed

lemma once_close:
  assumes o: "once_inv act R" and a: "act p" and ord: "range_order order"
  shows "once_inv (\<lambda>q. act q \<and> q \<noteq> p) (fst (snd (rt_close order p R)))"
proof (cases "rt_groups R (c_Username (rt_heap R p))")
  case None
  then show ?thesis using once_unpair [OF o a] by (simp add: rt_close_def Let_def)
next
  case (Some g)
  then show ?thesis
    using once_leave [OF o a Some] once_disband [OF o a ord Some] once_unpair [OF o a]
    by (simp add: rt_close_def Let_def)
qed

end
