(* ===== verification/Routing_Step.thy ===== *)
theory Routing_Step
  imports Routing_Once
begin

text \<open>
  The routing machine with its whole life cycle: accepting a websocket, registering, connecting and closing
  as one step relation, and the two invariants along its steps.
\<close>

section \<open>Accepting\<close>

lemma base_accept [relay_intros]:
  assumes b: "base_inv act R" and n: "\<not> act p" and uid: "uid \<noteq> []" "\<And>q. act q \<Longrightarrow> c_ID (rt_heap R q) \<noteq> uid"
  shows "base_inv (\<lambda>q. act q \<or> q = p) (set_conn p (\<lambda>_. NewConn uid) R)"
proof -
  define R' where "R' = set_conn p (\<lambda>_. NewConn uid) R"
  have R': "rt_conns R' = rt_conns R" "rt_groups R' = rt_groups R" "rt_waiting R' = rt_waiting R" "rt_peers R' = rt_peers R"
    "rt_heap R' q = (if q = p then NewConn uid else rt_heap R q)" for q
    by (simp_all add: R'_def set_conn_def)
  have "conns_inv (\<lambda>q. act q \<or> q = p) R'"
    unfolding conns_inv_def
  proof (intro conjI allI impI)
    show "finite (dom (rt_conns R'))" using base_invD(1) [OF b] by (simp add: R' conns_inv_def)
    fix i q
    assume q: "rt_conns R' i = Some q"
    then have "act q" "c_ID (rt_heap R q) = i" using base_connsD [OF b, of i q] by (simp_all add: R')
    then show "act q \<or> q = p" "c_ID (rt_heap R' q) = i" using n by (auto simp: R')
  qed
  moreover have "group_inv (\<lambda>q. act q \<or> q = p) R' u g" if g: "rt_groups R u = Some g" for u g
    unfolding group_inv_def
  proof (intro conjI allI impI)
    fix i q
    assume q: "g_clients g i = Some q"
    with base_clientD [OF b g q] n
    show "act q \<or> q = p" "i \<noteq> []" "c_ClientID (rt_heap R' q) = i" "c_Username (rt_heap R' q) = u"
      by (auto simp: R')
  qed (use base_groupD [OF b g] in simp_all)
  then have "groups_inv (\<lambda>q. act q \<or> q = p) R'"
    using base_invD(2) [OF b] by (simp add: groups_inv_def R')
  moreover have "ids_inv (\<lambda>q. act q \<or> q = p) R'"
    unfolding ids_inv_def
  proof (intro conjI allI impI)
    show "waits_ok (rt_waiting R')" "peers_ok (rt_peers R')" using base_invD [OF b] by (simp_all add: R')
    show "c_ID (rt_heap R' q) \<noteq> []" if "act q \<or> q = p" for q
      using that base_idsD(1) [OF b, of q] uid(1) by (auto simp: R' NewConn_def)
    show "q = r" if "act q \<or> q = p" "act r \<or> r = p" "c_ID (rt_heap R' q) = c_ID (rt_heap R' r)" for q r
    proof (cases "q = p \<or> r = p")
      case True
      with that uid(2) [of q] uid(2) [of r] show ?thesis by (auto simp: R' NewConn_def split: if_splits)
    next
      case False
      with that show ?thesis by (auto simp: R' intro: base_idsD(2) [OF b])
    qed
  qed
  ultimately show ?thesis by (simp add: base_inv_def R'_def)
qed

lemma once_accept:
  assumes o: "once_inv act R" and n: "\<not> act p" and uid: "uid \<noteq> []" "\<And>q. act q \<Longrightarrow> c_ID (rt_heap R q) \<noteq> uid"
  shows "once_inv (\<lambda>q. act q \<or> q = p) (set_conn p (\<lambda>_. NewConn uid) R)"
proof -
  define R' where "R' = set_conn p (\<lambda>_. NewConn uid) R"
  have R': "rt_conns R' = rt_conns R" "rt_groups R' = rt_groups R" "rt_waiting R' = rt_waiting R" "rt_peers R' = rt_peers R"
    "rt_heap R' q = (if q = p then NewConn uid else rt_heap R q)" for q
    by (simp_all add: R'_def set_conn_def)
  note b = once_invD(1) [OF o]
  have cp: "rt_conns R i \<noteq> Some p" for i using base_connsD [OF b, of i p] n by blast
  have "fresh_inv (\<lambda>q. act q \<or> q = p) R'"
    using once_invD(2) [OF o] by (auto simp: fresh_inv_def R' NewConn_def)
  moreover have "wait_inv R'"
    unfolding wait_inv_def
  proof (intro allI impI)
    fix u i
    assume "rt_waiting R' u = Some i"
    then have w: "rt_waiting R u = Some i" by (simp add: R')
    obtain q where q: "rt_conns R i = Some q" "server_of R q u" "rt_peers R i = None"
      by (rule wait_invD [OF once_invD(3) [OF o] w])
    then have "q \<noteq> p" using cp [of i] by auto
    with q server_of_other [of R' q R u] show "rt_peers R' i = None \<and> (\<exists>q. rt_conns R' i = Some q \<and> server_of R' q u)"
      by (auto simp: R')
  qed
  moreover have "pair_inv R'"
    by (rule pair_inv_keep [OF once_invD(4) [OF o]]) (use cp in \<open>auto simp: R'\<close>)
  moreover have "lead_inv (\<lambda>q. act q \<or> q = p) R'"
    unfolding lead_inv_def
  proof (intro allI impI)
    fix u g
    assume "rt_groups R' u = Some g"
    then have g: "rt_groups R u = Some g" by (simp add: R')
    note l = lead_invD [OF once_invD(5) [OF o] g]
    have np: "g_serverConn g \<noteq> p" using l(1) n by auto
    have "\<not> c_IsServer (rt_heap R' q)" if "g_clients g i = Some q" for i q
      using l(4) [OF that] by (simp add: R' NewConn_def)
    with l np server_of_other [of R' "g_serverConn g" R u]
    show "(act (g_serverConn g) \<or> g_serverConn g = p) \<and> server_of R' (g_serverConn g) u
        \<and> c_MultiClient (rt_heap R' (g_serverConn g)) \<and> (\<forall>i q. g_clients g i = Some q \<longrightarrow> \<not> c_IsServer (rt_heap R' q))"
      by (simp add: R')
  qed
  ultimately show ?thesis using base_accept [OF b n uid] by (simp add: once_inv_def R'_def)
qed

section \<open>Forgetting everybody\<close>

text \<open>What \<open>CloseAll\<close> leaves: the store keeps its entries.\<close>
definition rt_forget :: "routing \<Rightarrow> routing" where
  "rt_forget R = R\<lparr>rt_conns := Map.empty, rt_groups := Map.empty\<rparr>"

lemma base_forget [relay_intros]: "base_inv act R \<Longrightarrow> base_inv act (rt_forget R)"
  by (simp add: rt_forget_def base_inv_def conns_inv_def groups_inv_def ids_inv_def)

section \<open>One frame\<close>

text \<open>The steps of the routing machine, as the connections being served and the routing state before and
  after: nothing routed changes, a connection is accepted, registers, connects, or closes, or all are forgotten.
  \<open>D\<close> restricts the connections whose handshakes are accepted; with \<open>exact\<close> a connecting client finds the
  server as it is and nobody is forgotten.\<close>
inductive rt_step :: "(string set \<Rightarrow> string list) \<Rightarrow> bool \<Rightarrow> (cref \<Rightarrow> bool) \<Rightarrow> (cref \<Rightarrow> bool) \<Rightarrow> routing \<Rightarrow> (cref \<Rightarrow> bool) \<Rightarrow> routing \<Rightarrow> bool"
  for order exact D where
  stays: "rt_step order exact D act R act R"
| accept: "\<not> act p \<Longrightarrow> uid \<noteq> [] \<Longrightarrow> \<forall>q. act q \<longrightarrow> c_ID (rt_heap R q) \<noteq> uid \<Longrightarrow>
    rt_step order exact D act R (\<lambda>q. act q \<or> q = p) (set_conn p (\<lambda>_. NewConn uid) R)"
| register: "act p \<Longrightarrow> unjoined p R \<Longrightarrow> D p \<Longrightarrow> IsValidUsername u \<Longrightarrow>
    rt_step order exact D act R act (rt_registered p u mc R)"
| connect: "act p \<Longrightarrow> unjoined p R \<Longrightarrow> D p \<Longrightarrow> i \<noteq> [] \<Longrightarrow>
    \<forall>u g. rt_groups R u = Some g \<longrightarrow> g_clients g i = None \<Longrightarrow> exact \<longrightarrow> mc = waiting_multi R u \<Longrightarrow>
    rt_step order exact D act R act (rt_connected_as mc p u i R)"
| close: "act p \<Longrightarrow> rt_step order exact D act R (\<lambda>q. act q \<and> q \<noteq> p) (fst (snd (rt_close order p R)))"
| forget: "\<not> exact \<Longrightarrow> rt_step order exact D act R act (rt_forget R)"

lemma rt_step_base:
  assumes "rt_step order exact D act R act' R'" "base_inv act R"
  shows "base_inv act' R'"
  using assms
  by cases (auto intro: relay_intros)

lemma rt_step_once:
  assumes "rt_step order True (\<lambda>p. c_Username (rt_heap R p) = []) act R act' R'" "once_inv act R" "range_order order"
  shows "once_inv act' R'"
  using assms(1)
proof cases
  case stays
  then show ?thesis using assms(2) by simp
next
  case (accept p uid)
  then show ?thesis using once_accept [OF assms(2), of p uid] by simp
next
  case (register p u mc)
  then show ?thesis using once_registered [OF assms(2), of p u mc] IsValidUsername_nonempty by simp
next
  case (connect p i mc u)
  then show ?thesis using once_connected [OF assms(2), of p i u] by (simp add: rt_connected_eq)
next
  case (close p)
  then show ?thesis using once_close [OF assms(2) _ assms(3), of p] by simp
qed simp

end
