(* ===== verification/System.thy ===== *)
theory System
  imports Http_Server Routing_Step
begin

text \<open>
  The relay as a whole: many websockets, each served by a goroutine of its own, over one manager.
  A state is the manager (with its heap, backends and log) and the phase of every connection. A
  step is one event: a websocket is accepted, a goroutine handles the next frame, its read fails,
  its \<open>defer\<close> runs, its keepalive ticks, the limiter's cleanup ticks. The manager's critical sections
  are atomic by its mutex. A step is coarser here, the handling of one frame, and the goroutines interleave
  in the order of the steps; \<open>Interleaving\<close> has the runs in which handlings overlap.
\<close>

section \<open>States and events\<close>

datatype phase = Unused | Reading | Leaving | Gone

text \<open>The phases in the order a connection goes through them.\<close>
instantiation phase :: linorder
begin

definition phase_rank :: "phase \<Rightarrow> nat" where
  "phase_rank ph = (case ph of Unused \<Rightarrow> 0 | Reading \<Rightarrow> 1 | Leaving \<Rightarrow> 2 | Gone \<Rightarrow> 3)"

definition less_eq_phase :: "phase \<Rightarrow> phase \<Rightarrow> bool" where
  "less_eq_phase a b \<longleftrightarrow> phase_rank a \<le> phase_rank b"

definition less_phase :: "phase \<Rightarrow> phase \<Rightarrow> bool" where
  "less_phase a b \<longleftrightarrow> phase_rank a < phase_rank b"

instance
  by standard (auto simp: less_eq_phase_def less_phase_def phase_rank_def split: phase.splits)

end

lemma Gone_greatest [simp]: "Gone \<le> ph \<longleftrightarrow> ph = Gone"
  by (cases ph) (simp_all add: less_eq_phase_def phase_rank_def)

lemma Unused_least [simp]: "Unused \<le> ph"
  by (simp add: less_eq_phase_def phase_rank_def)

record ('s, 'd, 'r) system =
  sy_mgr :: "('s, 'd, 'r) manager"
  sy_phase :: "cref \<Rightarrow> phase"

record ('s, 'd) site =
  si_backend :: "('s, 'd) backend"
  si_jwt :: jwt_lib
  si_cfg :: handler_config
  si_bearer :: "cref \<Rightarrow> string"

datatype event =
    EvAccept cref string
  | EvFrame cref readings msg_type bytes
  | EvReadError cref
  | EvDefer cref
  | EvPing cref bool
  | EvCleanup int

definition served :: "('s, 'd, 'r) system \<Rightarrow> cref \<Rightarrow> bool" where
  "served s p \<longleftrightarrow> sy_phase s p = Reading \<or> sy_phase s p = Leaving"

text \<open>\<open>uuid.NewString\<close> returns ids that are in use nowhere.\<close>
definition fresh_id :: "('s, 'd, 'r) system \<Rightarrow> string \<Rightarrow> bool" where
  "fresh_id s uid \<longleftrightarrow> uid \<noteq> [] \<and> (\<forall>q. served s q \<longrightarrow> c_ID (m_heap (sy_mgr s) q) \<noteq> uid)"

definition fresh_client :: "('s, 'd, 'r) system \<Rightarrow> string \<Rightarrow> bool" where
  "fresh_client s i \<longleftrightarrow> i \<noteq> [] \<and> (\<forall>u g. m_multiGroups (sy_mgr s) u = Some g \<longrightarrow> g_clients g i = None)"

inductive step :: "('s, 'd) site \<Rightarrow> ('s, 'd, 'r) system \<Rightarrow> event \<Rightarrow> ('s, 'd, 'r) system \<Rightarrow> bool" for W where
  step_accept: "sy_phase s p = Unused \<Longrightarrow> fresh_id s uid \<Longrightarrow> m' = after (upd_conn p (\<lambda>_. NewConn uid)) (sy_mgr s) \<Longrightarrow>
    step W s (EvAccept p uid) \<lparr>sy_mgr = m', sy_phase = (sy_phase s)(p := Reading)\<rparr>"
| step_frame: "sy_phase s p = Reading \<Longrightarrow> fresh_client s (new_clientID rd) \<Longrightarrow>
    run_state (handle_message (si_backend W) (si_jwt W) (si_cfg W) (si_bearer W p) rd p ty data) (sy_mgr s) = (next, m') \<Longrightarrow>
    step W s (EvFrame p rd ty data)
      \<lparr>sy_mgr = m', sy_phase = (if next = Return then (sy_phase s)(p := Leaving) else sy_phase s)\<rparr>"
| step_read_error: "sy_phase s p = Reading \<Longrightarrow>
    step W s (EvReadError p) (s\<lparr>sy_phase := (sy_phase s)(p := Leaving)\<rparr>)"
| step_defer: "sy_phase s p = Leaving \<Longrightarrow> m' = after (deferred (si_backend W) p) (sy_mgr s) \<Longrightarrow>
    step W s (EvDefer p) \<lparr>sy_mgr = m', sy_phase = (sy_phase s)(p := Gone)\<rparr>"
| step_ping: "sy_phase s p = Reading \<Longrightarrow> m' = after (ping_tick (si_backend W) pong p) (sy_mgr s) \<Longrightarrow>
    step W s (EvPing p pong) (s\<lparr>sy_mgr := m'\<rparr>)"
| step_cleanup: "m' = (sy_mgr s)\<lparr>m_limiter := map_option (cleanup (b_order (si_backend W)) now) (m_limiter (sy_mgr s))\<rparr> \<Longrightarrow>
    step W s (EvCleanup now) (s\<lparr>sy_mgr := m'\<rparr>)"

inductive_cases step_acceptE: "step W s (EvAccept p uid) s'"
inductive_cases step_frameE: "step W s (EvFrame p rd ty data) s'"
inductive_cases step_deferE: "step W s (EvDefer p) s'"

text \<open>Runs whose events satisfy a discipline \<open>G\<close>, from a state in which nobody is connected.\<close>
definition idle :: "('s, 'd, 'r) manager \<Rightarrow> bool" where
  "idle m \<longleftrightarrow> m_conns m = Map.empty \<and> m_multiGroups m = Map.empty"

inductive reach :: "('s, 'd) site \<Rightarrow> (('s, 'd, 'r) system \<Rightarrow> event \<Rightarrow> bool) \<Rightarrow> ('s, 'd, 'r) manager
    \<Rightarrow> ('s, 'd, 'r) system \<Rightarrow> bool" for W G m0 where
  reach_init: "reach W G m0 \<lparr>sy_mgr = m0, sy_phase = (\<lambda>_. Unused)\<rparr>"
| reach_step: "reach W G m0 s \<Longrightarrow> G s ev \<Longrightarrow> step W s ev s' \<Longrightarrow> reach W G m0 s'"

definition any_event :: "('s, 'd, 'r) system \<Rightarrow> event \<Rightarrow> bool" where
  "any_event s ev = True"

text \<open>The discipline of well-behaved peers: a connection that already has a username sends no further
  handshake while it is not paired.\<close>
definition once :: "('s, 'd) site \<Rightarrow> ('s, 'd, 'r) system \<Rightarrow> event \<Rightarrow> bool" where
  "once W s ev =
     (case ev of
        EvFrame p rd ty data \<Rightarrow>
          c_Username (m_heap (sy_mgr s) p) = [] \<or> result (IsPaired (si_backend W) p) (sy_mgr s)
          \<or> ty \<noteq> MessageText \<or> ParseMessage data = None
      | _ \<Rightarrow> True)"

inductive_simps step_read_error_iff: "step W s (EvReadError p) s'"
inductive_simps step_defer_iff: "step W s (EvDefer p) s'"

text \<open>What a run may do next under a discipline.\<close>
definition steps :: "('s, 'd) site \<Rightarrow> (('s, 'd, 'r) system \<Rightarrow> event \<Rightarrow> bool) \<Rightarrow> ('s, 'd, 'r) system \<Rightarrow> ('s, 'd, 'r) system \<Rightarrow> bool" where
  "steps W G = (\<lambda>s s'. \<exists>ev. G s ev \<and> step W s ev s')\<^sup>*\<^sup>*"

lemma step_advances:
  assumes "step W s ev s'"
  shows "sy_phase s p \<le> sy_phase s' p"
  using assms by cases (auto simp: less_eq_phase_def phase_rank_def)

lemma steps_advance:
  assumes "steps W G s s'"
  shows "sy_phase s p \<le> sy_phase s' p"
  using assms unfolding steps_def
  by (induction rule: rtranclp_induct) (auto intro: order_trans step_advances)

lemma reach_steps:
  assumes "reach W G m0 s" "steps W G s s'"
  shows "reach W G m0 s'"
  using assms(2,1) unfolding steps_def
  by (induction rule: rtranclp_induct) (auto intro: reach_step)

section \<open>The routing state under each step\<close>

context relay_backend
begin

text \<open>What holds of every manager in a run.\<close>
definition good :: "('s, 'd, 'r) manager \<Rightarrow> bool" where
  "good m \<longleftrightarrow> inv (m_store m) \<and> (\<forall>u. owner (tbl (m_db m)) u \<noteq> None \<longrightarrow> IsValidUsername u)"

end

section \<open>One goroutine on its own\<close>

text \<open>The UUIDs drawn while the frames of one connection are handled are in use nowhere.\<close>
fun fresh_frames :: "('s, 'd) site \<Rightarrow> cref \<Rightarrow> frames \<Rightarrow> ('s, 'd, 'r) system \<Rightarrow> bool" where
  "fresh_frames W p [] s = True"
| "fresh_frames W p ((rd, ty, data) # fs) s =
     (fresh_client s (new_clientID rd)
      \<and> (case run_state (handle_message (si_backend W) (si_jwt W) (si_cfg W) (si_bearer W p) rd p ty data) (sy_mgr s) of
           (nxt, m') \<Rightarrow> nxt = Return \<or> fresh_frames W p fs (s\<lparr>sy_mgr := m'\<rparr>)))"

lemma step_steps: "step W s ev s' \<Longrightarrow> steps W any_event s s'"
  unfolding steps_def by (rule r_into_rtranclp) (auto simp: any_event_def)

text \<open>The read loop, as the events of its frames and the read error that ends it.\<close>
lemma read_loop_steps:
  assumes "sy_phase s p = Reading" "fresh_frames W p fs s"
  shows "steps W any_event s
    \<lparr>sy_mgr = after (read_loop (si_backend W) (si_jwt W) (si_cfg W) (si_bearer W p) p fs) (sy_mgr s),
     sy_phase = (sy_phase s)(p := Leaving)\<rparr>"
  using assms
proof (induction fs arbitrary: s)
  case Nil
  have "step W s (EvReadError p) \<lparr>sy_mgr = sy_mgr s, sy_phase = (sy_phase s)(p := Leaving)\<rparr>"
    using Nil by (cases s) (simp add: step_read_error_iff)
  from step_steps [OF this] show ?case by (simp add: fun_upd_def)
next
  case (Cons f fs)
  obtain rd ty data where f: "f = (rd, ty, data)" by (cases f)
  obtain nxt m' where h: "run_state (handle_message (si_backend W) (si_jwt W) (si_cfg W) (si_bearer W p) rd p ty data) (sy_mgr s) = (nxt, m')"
    by force
  define s1 where "s1 = \<lparr>sy_mgr = m', sy_phase = (if nxt = Return then (sy_phase s)(p := Leaving) else sy_phase s)\<rparr>"
  have "step W s (EvFrame p rd ty data) s1"
    unfolding s1_def by (rule step_frame) (use Cons.prems f h in simp_all)
  then have one: "steps W any_event s s1" by (rule step_steps)
  show ?case
  proof (cases "nxt = Return")
    case True
    then show ?thesis using one h f by (simp add: s1_def split_def fun_upd_def)
  next
    case False
    then have s1: "s1 = s\<lparr>sy_mgr := m'\<rparr>" by (cases s) (simp add: s1_def)
    have "steps W any_event s1
        \<lparr>sy_mgr = after (read_loop (si_backend W) (si_jwt W) (si_cfg W) (si_bearer W p) p fs) (sy_mgr s1),
         sy_phase = (sy_phase s1)(p := Leaving)\<rparr>"
      by (rule Cons.IH) (use Cons.prems f h False s1 in simp_all)
    then show ?thesis using one h f False unfolding steps_def s1 by (auto intro: rtranclp_trans simp: split_def fun_upd_def)
  qed
qed

end
