(* ===== verification/System_Inv.thy ===== *)
theory System_Inv
  imports System
begin

text \<open>
  Runs of the whole relay: what each handler does to the routing state, the simulation of every step of
  the relay by the routing machine, and the invariants of all runs and of the runs in which each peer sends one handshake; and what the relay
  does when a peer sends two.
\<close>

section \<open>The handlers and the routing state\<close>

lemma replay_frame:
  "routing_of (after (replay_buffer p u) m) = routing_of m" "m_store (after (replay_buffer p u) m) = m_store m"
  by (cases "m_buffer m"; simp add: replay_buffer_def GetBufferedMessages_def ClearBuffer_def sendJSON_def relay_simps
      routing_of_def split: option.splits)+

context relay_backend
begin

lemma abs_more [simp]:
  "abs (m\<lparr>m_out := x\<rparr>) = abs m" "abs (m\<lparr>m_redis := y\<rparr>) = abs m" "abs (m\<lparr>m_limiter := l\<rparr>) = abs m"
  "abs (m\<lparr>m_db := d\<rparr>) = abs m" "abs (m\<lparr>m_heap := h\<rparr>) = (abs m)\<lparr>rt_heap := h\<rparr>" "rt_heap (abs m) = m_heap m"
  by (simp_all add: abs_def)

lemma abs_frame:
  assumes "routing_of m' = routing_of m" "m_store m' = m_store m"
  shows "abs m' = abs m" "good m' = good m"
  using assms by (simp_all add: abs_def good_def routing_of_def)

lemma good_more [simp]:
  "good (m\<lparr>m_out := x\<rparr>) = good m" "good (m\<lparr>m_redis := y\<rparr>) = good m" "good (m\<lparr>m_limiter := l\<rparr>) = good m"
  "good (m\<lparr>m_heap := h\<rparr>) = good m"
  by (simp_all add: good_def)

lemma IsPaired_run:
  assumes "inv (m_store m)"
  shows "result (IsPaired B p) m = rt_paired p (abs m)
    \<and> abs (after (IsPaired B p) m) = abs m \<and> m_out (after (IsPaired B p) m) = m_out m
    \<and> m_db (after (IsPaired B p) m) = m_db m \<and> inv (m_store (after (IsPaired B p) m))"
  using st.IsPaired_law [OF assms, of "c_ID (m_heap m p)"] assms
  by (auto simp: IsPaired_def relay_simps rt_paired_def abs_def Let_def)

lemma handle_register_abs:
  assumes "good m" "run_state (handle_register B J cfg bt rd p msg) m = (next, m')"
  shows "good m' \<and> (abs m' = abs m \<or> (\<exists>u mc. IsValidUsername u \<and> abs m' = rt_registered p u mc (abs m)))"
proof -
  obtain u i j where j: "jwt_identity J rd cfg msg = (u, i, j)" by (cases "jwt_identity J rd cfg msg")
  obtain r m1 where r: "run_state (RegisterServer B rd p u i) m = (r, m1)" by force
  have i: "inv (m_store m)" using assms(1) by (simp add: good_def)
  show ?thesis
  proof (cases "r = Registered")
    case True
    note f = RegisterServer_refines(1) [OF i r True]
    then have "good m1" using assms(1) by (auto simp: good_def)
    have reg: "(abs m1)\<lparr>rt_heap := (m_heap m1)(p := (m_heap m1 p)\<lparr>c_Username := u, c_IsServer := True, c_MultiClient := sr_MultiClient msg\<rparr>)\<rparr>
        = rt_registered p u (sr_MultiClient msg) (abs m)"
      using f by (simp add: rt_registered_def set_conn_def flip: abs_more(6))
    obtain x where "m' = m \<and> next = Return \<or> m' = m\<lparr>m_out := x\<rparr> \<or> m' = m1\<lparr>m_heap := (m_heap m1)(p := (m_heap m1 p)\<lparr>c_Username := u,
        c_IsServer := True, c_MultiClient := sr_MultiClient msg\<rparr>), m_out := x\<rparr>"
      using assms(2) j r True by (auto simp: handle_register_def sendJSON_def relay_simps split: if_splits)
    then have "good m' \<and> (abs m' = abs m \<or> abs m' = rt_registered p u (sr_MultiClient msg) (abs m))"
      using assms(1) \<open>good m1\<close> reg by auto
    then show ?thesis using f by blast
  next
    case False
    then show ?thesis using assms j r RegisterServer_refines(2) [OF i r False]
      by (auto simp: handle_register_def sendJSON_def relay_simps good_def split: if_splits)
  qed
qed

lemma handle_connect_abs:
  assumes "good m" "waits_ok (waiting (m_store m))" "run_state (handle_connect B rd p msg) m = (next, m')"
  shows "good m' \<and> (abs m' = abs m \<or> abs m' = rt_connected p (cc_Username msg) (new_clientID rd) (abs m))"
proof -
  define u where "u = cc_Username msg"
  obtain r m1 where r: "run_state (ConnectClient B rd p u (cc_ClientID msg)) m = (r, m1)" by force
  have i: "inv (m_store m)" using assms(1) by (simp add: good_def)
  note f = ConnectClient_refines [OF i assms(2) r]
  have g1: "good m1" using f assms(1) by (auto simp: good_def)
  show ?thesis
  proof (cases "cr_Status r = ''connected''")
    case True
    define m2 where "m2 = m1\<lparr>m_heap := (m_heap m1)(p := (m_heap m1 p)\<lparr>c_Username := u, c_IsServer := False, c_ClientID := cr_ClientID r\<rparr>),
        m_out := m_out m1 @ [Write p MessageText (json_render (json_of_ClientConnected (NewClientConnected (cr_ClientID r))))]\<rparr>"
    have m': "m' = after (replay_buffer p u) m2"
      using assms(3) r True by (simp add: handle_connect_def sendJSON_def relay_simps u_def m2_def split_def)
    have m2: "abs m' = abs m2" "good m' = good m2"
      using abs_frame [of m' m2] replay_frame [of p u m2] by (simp_all add: m')
    have "abs m' = set_conn p (\<lambda>c. c\<lparr>c_Username := u, c_IsServer := False, c_ClientID := cr_ClientID r\<rparr>) (abs m1)"
      by (simp add: m2 m2_def set_conn_def)
    moreover have "(r, abs m1) = (case rt_connect p u (new_clientID rd) (abs m) of (r', R', es) \<Rightarrow> (r', R'))"
      using f True by (auto simp: refused_def split: prod.splits)
    ultimately have "abs m' = rt_connected p u (new_clientID rd) (abs m)"
      using True by (auto simp: rt_connected_def split: prod.splits)
    moreover have "good m'" using g1 by (simp add: m2 m2_def)
    ultimately show ?thesis by (simp add: u_def)
  next
    case False
    have "m' = m1\<lparr>m_out := m_out m'\<rparr>"
      using assms(3) r False by (auto simp: handle_connect_def sendJSON_def relay_simps u_def)
    then have "abs m' = abs m1" "good m' = good m1" by (metis abs_more(1), metis good_more(1))
    moreover have "abs m1 = abs m \<or> abs m1 = rt_connected p u (new_clientID rd) (abs m)"
      using f False by (auto simp: rt_connected_def split: prod.splits)
    ultimately show ?thesis using g1 by (simp add: u_def)
  qed
qed

lemma handle_message_abs:
  assumes "good m" "waits_ok (waiting (m_store m))"
    "run_state (handle_message B J cfg bt rd p ty data) m = (next, m')"
  shows "good m' \<and> (abs m' = abs m
    \<or> \<not> rt_paired p (abs m) \<and> ty = MessageText \<and> ParseMessage data \<noteq> None
      \<and> ((\<exists>u mc. IsValidUsername u \<and> abs m' = rt_registered p u mc (abs m))
         \<or> (\<exists>u. abs m' = rt_connected p u (new_clientID rd) (abs m))))"
proof -
  define m1 where "m1 = after (IsPaired B p) m"
  have i: "inv (m_store m)" using assms(1) by (simp add: good_def)
  note ip = IsPaired_run [OF i, of p, folded m1_def]
  have g1: "good m1" "waits_ok (waiting (m_store m1))" "abs m1 = abs m"
    using ip assms(1,2) by (auto simp: good_def abs_def)
  have run: "run_state (handle_message B J cfg bt rd p ty data) m
    = run_state (if rt_paired p (abs m) then do { _ \<leftarrow> Forward B rd p ty data; State_Monad.return Continue }
        else if ty \<noteq> MessageText then State_Monad.return Continue
        else (case ParseMessage data of None \<Rightarrow> State_Monad.return Continue
          | Some (MServerRegister m) \<Rightarrow> handle_register B J cfg bt rd p m
          | Some (MClientConnect m) \<Rightarrow> handle_connect B rd p m)) m1"
    using ip by (simp add: handle_message_def split_def m1_def)
  show ?thesis
  proof (cases "rt_paired p (abs m)")
    case True
    note f = Forward_spec [of m1 rd p ty data]
    have "m' = after (Forward B rd p ty data) m1" using assms(3) True by (simp add: run split_def)
    then show ?thesis using f g1 by (auto simp: good_def abs_def routing_of_def)
  next
    case unpaired: False
    show ?thesis
    proof (cases "ty = MessageText \<and> ParseMessage data \<noteq> None")
      case False
      then show ?thesis using assms(3) unpaired g1 by (auto simp: run split: if_splits)
    next
      case True
      then obtain msg where msg: "ParseMessage data = Some msg" by blast
      show ?thesis
      proof (cases msg)
        case (MServerRegister sr)
        then have "run_state (handle_register B J cfg bt rd p sr) m1 = (next, m')"
          using assms(3) [unfolded run] True unpaired msg by simp
        from handle_register_abs [OF g1(1) this] True unpaired g1(3) show ?thesis by auto
      next
        case (MClientConnect cc)
        then have "run_state (handle_connect B rd p cc) m1 = (next, m')"
          using assms(3) [unfolded run] True unpaired msg by simp
        from handle_connect_abs [OF g1(1,2) this] True unpaired g1(3) show ?thesis by auto
      qed
    qed
  qed
qed

lemma deferred_abs:
  assumes "good m" "peers_ok (peers (m_store m))" "c_ID (m_heap m p) \<noteq> []"
  shows "good (after (deferred B p) m) \<and> abs (after (deferred B p) m) = fst (snd (rt_close (b_order B) p (abs m)))"
proof -
  obtain r m1 where r: "run_state (HandleClose B p) m = (r, m1)" by force
  have i: "inv (m_store m)" using assms(1) by (simp add: good_def)
  note f = HandleClose_refines [OF i assms(2,3) r]
  have "after (deferred B p) m = m1\<lparr>m_out := m_out m1 @ [CloseNow p]\<rparr>"
    using r by (simp add: deferred_def relay_simps)
  then show ?thesis using f assms(1) by (auto simp: good_def split: prod.splits)
qed

lemma ping_abs:
  assumes "good m"
  shows "good (after (ping_tick B pong p) m) \<and> abs (after (ping_tick B pong p) m) = abs m"
  using IsPaired_run [of m p] assms
  by (auto simp: ping_tick_def relay_simps split_def good_def)

text \<open>One tick of the keepalive, and all of it while nobody else runs: nothing once the connection is paired,
  else a ping for every tick that is answered, and for the first that is not a ping and a close.\<close>
lemma ping_tick_run:
  assumes "inv (m_store m)" "run_state (ping_tick B pong p) m = (goesOn, m')"
  shows "abs m' = abs m \<and> inv (m_store m') \<and> goesOn = (\<not> rt_paired p (abs m) \<and> pong)
    \<and> m_out m' = m_out m @ (if rt_paired p (abs m) then [] else
        Ping p # (if pong then [] else [Close p StatusNormalClosure ''Pong timeout'']))"
  using IsPaired_run [OF assms(1), of p] assms(2)
  by (auto simp: ping_tick_def relay_simps split_def split: if_splits)

fun pings :: "cref \<Rightarrow> wake list \<Rightarrow> effect list" where
  "pings p (TickerFires True # ws) = Ping p # pings p ws"
| "pings p (TickerFires False # ws) = [Ping p, Close p StatusNormalClosure ''Pong timeout'']"
| "pings p ws = []"

lemma pingLoop_run:
  assumes "inv (m_store m)"
  shows "abs (after (pingLoop B p ws) m) = abs m
    \<and> m_out (after (pingLoop B p ws) m) = m_out m @ (if rt_paired p (abs m) then [] else pings p ws)"
  using assms
proof (induction p ws arbitrary: m rule: pings.induct)
  case (1 p ws)
  obtain g m1 where t: "run_state (ping_tick B True p) m = (g, m1)" by force
  note f = ping_tick_run [OF 1(2) t]
  from f 1(1) [of m1] t show ?case by (auto simp: split_def)
next
  case (2 p ws)
  obtain g m1 where t: "run_state (ping_tick B False p) m = (g, m1)" by force
  from ping_tick_run [OF 2 t] t show ?case by (auto simp: split_def)
qed simp_all

end

section \<open>Invariants of runs\<close>

text \<open>A start: nobody is connected, no username waits, no pair exists, and only valid usernames are
  registered.\<close>
definition start ::
  "('s \<Rightarrow> (string \<rightharpoonup> string)) \<Rightarrow> ('s \<Rightarrow> (string \<rightharpoonup> string)) \<Rightarrow> ('s \<Rightarrow> bool) \<Rightarrow> ('d \<Rightarrow> utable) \<Rightarrow> ('s, 'd, 'r) manager \<Rightarrow> bool" where
  "start waiting peers store_ok tbl m \<longleftrightarrow> idle m \<and> waiting (m_store m) = Map.empty \<and> peers (m_store m) = Map.empty
     \<and> store_ok (m_store m) \<and> (\<forall>u. owner (tbl (m_db m)) u \<noteq> None \<longrightarrow> IsValidUsername u)"

context relay_backend
begin

definition sound :: "('s, 'd, 'r) system \<Rightarrow> bool" where
  "sound s \<longleftrightarrow> good (sy_mgr s) \<and> base_inv (served s) (abs (sy_mgr s))"

lemma soundD:
  assumes "sound s"
  shows "good (sy_mgr s)" "base_inv (served s) (abs (sy_mgr s))" "waits_ok (waiting (m_store (sy_mgr s)))"
    "peers_ok (peers (m_store (sy_mgr s)))" "inv (m_store (sy_mgr s))"
    "served s p \<Longrightarrow> c_ID (m_heap (sy_mgr s) p) \<noteq> []"
  using assms base_invD(4,5) [of "served s" "abs (sy_mgr s)"] base_idsD(1) [of "served s" "abs (sy_mgr s)" p]
  by (auto simp: sound_def abs_def good_def)

lemma start_inv:
  assumes "start waiting peers inv tbl m0"
  shows "good m0" "once_inv (\<lambda>_. False) (abs m0)"
  using assms
  by (auto simp: start_def good_def idle_def once_inv_def base_inv_def conns_inv_def groups_inv_def ids_inv_def
      fresh_inv_def wait_inv_def pair_inv_def lead_inv_def abs_def waits_ok_def peers_ok_def sym_peers_def)

lemma step_good:
  assumes W: "si_backend W = B" and s: "sound s" and st: "step W s ev s'"
  shows "good (sy_mgr s')"
  using st
proof cases
  case (step_accept p uid m')
  then show ?thesis using soundD(1) [OF s] by (simp add: relay_simps)
next
  case (step_frame p rd ty data nxt m')
  then show ?thesis using handle_message_abs [OF soundD(1,3) [OF s]] W by auto
next
  case (step_read_error p)
  then show ?thesis using soundD(1) [OF s] by simp
next
  case (step_defer p m')
  then have "served s p" by (simp add: served_def)
  then show ?thesis using step_defer W deferred_abs [OF soundD(1,4,6) [OF s]] by simp
next
  case (step_ping p m' pong)
  then show ?thesis using ping_abs [OF soundD(1) [OF s]] W by simp
next
  case (step_cleanup m' now)
  then show ?thesis using soundD(1) [OF s] by simp
qed

text \<open>Every step of the relay is a step of the routing machine, as seen by the connections it may accept
  handshakes from.\<close>
lemma step_simulated:
  assumes W: "si_backend W = B" and s: "sound s" and st: "step W s ev s'"
    and D: "\<And>p rd ty data. ev = EvFrame p rd ty data \<Longrightarrow> \<not> rt_paired p (abs (sy_mgr s)) \<Longrightarrow> ty = MessageText \<Longrightarrow>
        ParseMessage data \<noteq> None \<Longrightarrow> D p"
  shows "rt_step (b_order B) True D (served s) (abs (sy_mgr s)) (served s') (abs (sy_mgr s'))"
  using st
proof cases
  case (step_accept p uid m')
  then have "served s' = (\<lambda>q. served s q \<or> q = p)" "\<not> served s p" by (auto simp: served_def fun_eq_iff)
  moreover have "abs (sy_mgr s') = set_conn p (\<lambda>_. NewConn uid) (abs (sy_mgr s))"
    using step_accept by (simp add: relay_simps set_conn_def)
  moreover have "uid \<noteq> []" "\<forall>q. served s q \<longrightarrow> c_ID (rt_heap (abs (sy_mgr s)) q) \<noteq> uid"
    using step_accept(4) by (simp_all add: fresh_id_def)
  ultimately show ?thesis by (simp add: rt_step.accept)
next
  case (step_frame p rd ty data nxt m')
  have a: "served s p" and same: "served s' = served s" using step_frame by (auto simp: served_def fun_eq_iff)
  have i: "new_clientID rd \<noteq> []" "\<forall>u g. rt_groups (abs (sy_mgr s)) u = Some g \<longrightarrow> g_clients g (new_clientID rd) = None"
    using step_frame(4) by (simp_all add: fresh_client_def abs_def)
  have "abs m' = abs (sy_mgr s)
    \<or> \<not> rt_paired p (abs (sy_mgr s)) \<and> ty = MessageText \<and> ParseMessage data \<noteq> None
      \<and> ((\<exists>u mc. IsValidUsername u \<and> abs m' = rt_registered p u mc (abs (sy_mgr s)))
         \<or> (\<exists>u. abs m' = rt_connected p u (new_clientID rd) (abs (sy_mgr s))))"
    using step_frame(5) W handle_message_abs [OF soundD(1,3) [OF s]] by simp
  moreover have "abs (sy_mgr s') = abs m'" using step_frame(2) by simp
  ultimately show ?thesis
    using D [OF step_frame(1)] a i unpaired_unjoined [OF soundD(2) [OF s], of p] unfolding same rt_connected_eq
    by (auto intro: rt_step.intros)
next
  case (step_read_error p)
  then have "served s' = served s" "abs (sy_mgr s') = abs (sy_mgr s)" by (auto simp: served_def fun_eq_iff)
  then show ?thesis by (simp add: rt_step.stays)
next
  case (step_defer p m')
  have p: "served s p" "served s' = (\<lambda>q. served s q \<and> q \<noteq> p)" using step_defer by (auto simp: served_def fun_eq_iff)
  moreover have "abs (sy_mgr s') = fst (snd (rt_close (b_order B) p (abs (sy_mgr s))))"
    using step_defer W deferred_abs [OF soundD(1,4) [OF s] soundD(6) [OF s p(1)]] by simp
  ultimately show ?thesis by (simp add: rt_step.close)
next
  case (step_ping p m' pong)
  then have "served s' = served s" "abs (sy_mgr s') = abs (sy_mgr s)"
    using ping_abs [OF soundD(1) [OF s]] W by (simp_all add: served_def fun_eq_iff)
  then show ?thesis by (simp add: rt_step.stays)
next
  case (step_cleanup m' now)
  then have "served s' = served s" "abs (sy_mgr s') = abs (sy_mgr s)" by (simp_all add: served_def fun_eq_iff)
  then show ?thesis by (simp add: rt_step.stays)
qed

lemma nobody_served: "served \<lparr>sy_mgr = m, sy_phase = \<lambda>_. Unused\<rparr> = (\<lambda>_. False)"
  by (simp add: served_def fun_eq_iff)

lemma reach_sound:
  assumes W: "si_backend W = B" and m0: "start waiting peers inv tbl m0" and r: "reach W G m0 s"
  shows "sound s"
  using r
proof induction
  case reach_init
  show ?case using start_inv [OF m0] by (simp add: sound_def once_inv_def nobody_served)
next
  case (reach_step s ev s')
  have "rt_step (b_order B) True (\<lambda>_. True) (served s) (abs (sy_mgr s)) (served s') (abs (sy_mgr s'))"
    by (rule step_simulated [OF W reach_step.IH reach_step.hyps(3)]) simp
  then show ?case
    using step_good [OF W reach_step.IH reach_step.hyps(3)] rt_step_base soundD(2) [OF reach_step.IH]
    by (simp add: sound_def)
qed

lemma reach_once:
  assumes W: "si_backend W = B" and m0: "start waiting peers inv tbl m0" and r: "reach W (once W) m0 s"
  shows "once_inv (served s) (abs (sy_mgr s))"
  using r
proof induction
  case reach_init
  show ?case using start_inv [OF m0] by (simp add: nobody_served)
next
  case (reach_step s ev s')
  have so: "sound s" by (rule reach_sound [OF W m0 reach_step.hyps(1)])
  have "rt_step (b_order B) True (\<lambda>p. c_Username (rt_heap (abs (sy_mgr s)) p) = []) (served s) (abs (sy_mgr s)) (served s') (abs (sy_mgr s'))"
  proof (rule step_simulated [OF W so reach_step.hyps(3)])
    fix p rd ty data
    assume "ev = EvFrame p rd ty data" "\<not> rt_paired p (abs (sy_mgr s))" "ty = MessageText" "ParseMessage data \<noteq> None"
    then show "c_Username (rt_heap (abs (sy_mgr s)) p) = []"
      using reach_step.hyps(2) W IsPaired_run [OF soundD(5) [OF so], of p] by (auto simp: once_def)
  qed
  then show ?case using rt_step_once [OF _ reach_step.IH order] by simp
qed

text \<open>Where a frame of a well-behaved run goes.\<close>
lemma route_same_username:
  assumes o: "once_inv act (abs m)" and a: "act p" and t: "(q, t, payload) \<in> set (route B m (peers (m_store m)) p ty data)"
  shows "act q \<and> c_Username (m_heap m q) = c_Username (m_heap m p) \<and> c_IsServer (m_heap m q) \<noteq> c_IsServer (m_heap m p)"
proof -
  define c where "c = m_heap m p"
  note b = once_invD(1) [OF o]
  have heap: "rt_heap (abs m) = m_heap m" and gr: "rt_groups (abs m) = m_multiGroups m" and cs: "rt_conns (abs m) = m_conns m"
    and ps: "rt_peers (abs m) = peers (m_store m)" by (simp_all add: abs_def)
  consider (client) g where "c_ClientID c \<noteq> []" "m_multiGroups m (c_Username c) = Some g" "q = g_serverConn g"
    | (server) g i where "c_ClientID c = []" "c_MultiClient c" "m_multiGroups m (c_Username c) = Some g" "g_clients g i = Some q"
    | (pair) i where "peers (m_store m) (c_ID c) = Some i" "m_conns m i = Some q"
  proof (cases "c_ClientID c = []")
    case False
    then show ?thesis
      using t client by (cases "m_multiGroups m (c_Username c)") (auto simp: route_def Let_def c_def [symmetric])
  next
    case idn: True
    show ?thesis
    proof (cases "c_MultiClient c \<and> c_Username c \<noteq> []")
      case True
      then obtain g where g: "m_multiGroups m (c_Username c) = Some g"
        using t idn by (cases "m_multiGroups m (c_Username c)") (simp_all add: route_def Let_def c_def [symmetric])
      then obtain i where "g_clients g i = Some q"
        using t idn True
        by (auto simp: route_def Let_def c_def [symmetric] set_map_values split: option.splits prod.splits if_splits)
      then show ?thesis using server idn True g by blast
    next
      case False
      then have "case peers (m_store m) (c_ID c) of None \<Rightarrow> False
          | Some i \<Rightarrow> (case m_conns m i of None \<Rightarrow> False | Some q' \<Rightarrow> q = q')"
        using t idn unfolding route_def Let_def c_def [symmetric]
        by (cases "peers (m_store m) (c_ID c)"; cases "m_conns m (the (peers (m_store m) (c_ID c)))") auto
      then show ?thesis using pair by (simp split: option.splits)
    qed
  qed
  then show ?thesis
  proof cases
    case (client g)
    note l = lead_invD [OF once_invD(5) [OF o], of "c_Username c" g]
    have "\<not> c_IsServer c" using once_invD(2) [OF o] a client(1) by (simp add: fresh_inv_def heap c_def)
    then show ?thesis using l client by (simp add: gr heap server_of_def c_def)
  next
    case (server g i)
    note l = lead_invD(4) [OF once_invD(5) [OF o], of "c_Username c" g i q] and k = base_clientD [OF b, of "c_Username c" g i q]
    have "c_IsServer c" using once_invD(2) [OF o] a server(2) by (simp add: fresh_inv_def heap c_def)
    then show ?thesis using l k server by (simp add: gr heap c_def)
  next
    case (pair i)
    obtain x y where xy: "m_conns m (c_ID c) = Some x" "m_conns m i = Some y" "sides (abs m) x y"
      using pair_invD [OF once_invD(4) [OF o], of "c_ID c" i] pair(1) unfolding cs ps by blast
    have "x = p" using base_connsD [OF b, of "c_ID c" x] base_idsD(2) [OF b, of x p] xy(1) a by (simp add: cs heap c_def)
    then show ?thesis using xy pair(2) base_connsD [OF b, of i q] by (auto simp: sides_def heap cs)
  qed
qed

end

section \<open>Handshakes that succeed\<close>

context relay_backend
begin

lemma handle_message_unpaired:
  assumes "inv (m_store m)" "\<not> rt_paired p (abs m)"
  shows "run_state (handle_message B J cfg bt rd p ty data) m
    = run_state (if ty \<noteq> MessageText then State_Monad.return Continue
        else (case ParseMessage data of None \<Rightarrow> State_Monad.return Continue
          | Some (MServerRegister m) \<Rightarrow> handle_register B J cfg bt rd p m
          | Some (MClientConnect m) \<Rightarrow> handle_connect B rd p m)) (after (IsPaired B p) m)"
  using IsPaired_run [OF assms(1), of p] assms(2) by (simp add: handle_message_def split_def)

lemma handle_register_ok:
  assumes g: "good m" and sql: "sql_reliable (b_sql B) tbl"
    and cfg: "hc_ServerAuthToken cfg = []" "hc_JWTSecret cfg = []"
    and u: "IsValidUsername (sr_Username msg)" "owner (tbl (m_db m)) (sr_Username msg) \<in> {None, Some (sr_InstallID msg)}"
    and r: "run_state (handle_register B J cfg bt rd p msg) m = (next, m')"
  shows "next = ContinuePing \<and> good m' \<and> abs m' = rt_registered p (sr_Username msg) (sr_MultiClient msg) (abs m)
    \<and> owner (tbl (m_db m')) = (owner (tbl (m_db m)))(sr_Username msg \<mapsto> sr_InstallID msg)"
proof -
  define v where "v = sr_Username msg"
  obtain m1 where r1: "run_state (RegisterServer B rd p v (sr_InstallID msg)) m = (Registered, m1)"
    using RegisterServer_accepts [OF sql u, of rd p] by (cases "run_state (RegisterServer B rd p v (sr_InstallID msg)) m") (simp add: v_def)
  have i: "inv (m_store m)" using g by (simp add: good_def)
  note f = RegisterServer_refines(1) [OF i r1 refl]
  have g1: "good m1" using f g by (auto simp: good_def)
  have reg: "(abs m1)\<lparr>rt_heap := (m_heap m1)(p := (m_heap m1 p)\<lparr>c_Username := v, c_IsServer := True, c_MultiClient := sr_MultiClient msg\<rparr>)\<rparr>
      = rt_registered p v (sr_MultiClient msg) (abs m)"
    using f by (simp add: rt_registered_def set_conn_def flip: abs_more(6))
  obtain x where x: "m' = m1\<lparr>m_heap := (m_heap m1)(p := (m_heap m1 p)\<lparr>c_Username := v, c_IsServer := True, c_MultiClient := sr_MultiClient msg\<rparr>),
      m_out := x\<rparr>" "next = ContinuePing"
    using r cfg r1 by (auto simp: handle_register_def jwt_identity_def sendJSON_def relay_simps v_def)
  then show ?thesis using reg g1 f by (simp add: v_def)
qed

lemma handle_connect_routed:
  assumes i: "inv (m_store m)" "waits_ok (waiting (m_store m))" and sql: "sql_reliable (b_sql B) tbl"
    and o: "owner (tbl (m_db m)) (cc_Username msg) \<noteq> None"
    and w: "waiting (m_store m) (cc_Username msg) = Some s" "m_conns m s = Some q"
    and r: "run_state (handle_connect B rd p msg) m = (next, m')"
  shows "next = Continue \<and> inv (m_store m') \<and> abs m' = rt_connected p (cc_Username msg) (new_clientID rd) (abs m)
    \<and> owner (tbl (m_db m')) = owner (tbl (m_db m))"
proof -
  define u where "u = cc_Username msg"
  obtain res m1 where r1: "run_state (ConnectClient B rd p u (cc_ClientID msg)) m = (res, m1)" by force
  note c = ConnectClient_waiting [OF relay_backend_axioms sql _ i r1]
  have ok: "cr_Status res = ''connected''" "(res, abs m1) = (fst (rt_connect p u (new_clientID rd) (abs m)), fst (snd (rt_connect p u (new_clientID rd) (abs m))))"
    using c o w by (auto simp: rt_connect_def abs_def u_def split: if_splits)
  define m2 where "m2 = m1\<lparr>m_heap := (m_heap m1)(p := (m_heap m1 p)\<lparr>c_Username := u, c_IsServer := False, c_ClientID := cr_ClientID res\<rparr>),
        m_out := m_out m1 @ [Write p MessageText (json_render (json_of_ClientConnected (NewClientConnected (cr_ClientID res))))]\<rparr>"
  have m': "m' = after (replay_buffer p u) m2" "next = Continue"
    using r r1 ok(1) by (simp_all add: handle_connect_def sendJSON_def relay_simps u_def m2_def split_def)
  have "m_db m' = m_db m2" "m_store m' = m_store m2" using replay_frame(1,2) [of p u m2] by (simp_all add: m' routing_of_def)
  moreover have "owner (tbl (m_db m1)) = owner (tbl (m_db m))" "inv (m_store m1)" using ConnectClient_refines [OF i r1] by blast+
  moreover have "abs m' = set_conn p (\<lambda>c. c\<lparr>c_Username := u, c_IsServer := False, c_ClientID := cr_ClientID res\<rparr>) (abs m1)"
    using abs_frame [of m' m2] replay_frame [of p u m2] by (simp add: m' m2_def set_conn_def)
  ultimately show ?thesis
    using ok m'(2) by (simp add: rt_connected_def split_def u_def m2_def)
qed

lemma handle_connect_ok:
  assumes g: "good m" "waits_ok (waiting (m_store m))" and sql: "sql_reliable (b_sql B) tbl"
    and o: "owner (tbl (m_db m)) (cc_Username msg) \<noteq> None"
    and w: "waiting (m_store m) (cc_Username msg) = Some s" "m_conns m s = Some q"
    and r: "run_state (handle_connect B rd p msg) m = (next, m')"
  shows "next = Continue \<and> good m' \<and> abs m' = rt_connected p (cc_Username msg) (new_clientID rd) (abs m)
    \<and> owner (tbl (m_db m')) = owner (tbl (m_db m))"
  using handle_connect_routed [OF _ g(2) sql o w r] handle_connect_abs [OF g r] g(1) by (simp add: good_def)

end

section \<open>Properties of the handler\<close>

text \<open>C16 With an authentication token configured, a registration that presents neither the token nor a
  valid signed token is rejected: the connection is told \<open>unauthorized\<close> and closed for policy, the
  loop ends, and neither the registry nor the routing state changes.\<close>
theorem unauthorized_registration_refused:
  assumes "relay_backend B waiting peers store_ok tbl" "store_ok (m_store m)"
    "\<not> rt_paired p (abs_routing waiting peers m)" "ParseMessage data = Some (MServerRegister r)"
    "hc_ServerAuthToken cfg \<noteq> []" "sr_AuthToken r \<noteq> hc_ServerAuthToken cfg" "bearer \<noteq> hc_ServerAuthToken cfg"
    "hc_JWTSecret cfg = [] \<or> sr_JWT r = [] \<or> ValidateToken J (at_validate rd) (hc_JWTSecret cfg) (sr_JWT r) = None"
    "run_state (handle_message B J cfg bearer rd p MessageText data) m = (next, m')"
  shows "next = Return
    \<and> m_out m' = m_out m @ [Write p MessageText (json_render (json_of_ServerRejected (NewServerRejected ''unauthorized''))),
        Close p StatusPolicyViolation ''Registration rejected: unauthorized'']
    \<and> abs_routing waiting peers m' = abs_routing waiting peers m \<and> m_db m' = m_db m"
proof -
  have "jwt_identity J rd cfg r = (sr_Username r, sr_InstallID r, False)" using assms(8) by (auto simp: jwt_identity_def)
  then show ?thesis
    using relay_backend.handle_message_unpaired [OF assms(1,2,3), of J cfg bearer rd MessageText data]
      relay_backend.IsPaired_run [OF assms(1,2), of p] assms(4-7,9)
    by (auto simp: handle_register_def sendJSON_def relay_simps abs_routing_def)
qed

lemma sample_unpaired: "\<not> rt_paired 5 (abs_routing ms_waiting ms_peers sample_relay)"
  by (simp add: rt_paired_def abs_routing_def sample_relay_def sample_conn_def Let_def)

theorem unauthorized_registration_refused_witness:
  "fst (run_state (handle_message mem_backend open_jwt
      \<lparr>hc_PingInterval = 1, hc_PongTimeout = 1, hc_ServerAuthToken = ''s3cret'', hc_JWTSecret = []\<rparr> ''guess'' sample_rd 5 MessageText
      (json_render (json_of_ServerRegister sample_register))) sample_relay) = Return"
proof -
  define cfg where "cfg = \<lparr>hc_PingInterval = 1, hc_PongTimeout = 1, hc_ServerAuthToken = ''s3cret'', hc_JWTSecret = []\<rparr>"
  have p: "ParseMessage (json_render (json_of_ServerRegister sample_register)) = Some (MServerRegister sample_register)"
    by (rule ParseMessage_ServerRegister) (simp add: sample_register_def, code_simp+)
  obtain nxt m' where r: "run_state (handle_message mem_backend open_jwt cfg ''guess'' sample_rd 5 MessageText
      (json_render (json_of_ServerRegister sample_register))) sample_relay = (nxt, m')" by force
  have "nxt = Return"
    using unauthorized_registration_refused [OF mem_relay.relay_backend_axioms sample_store_ok sample_unpaired p _ _ _ _ r]
    by (simp add: cfg_def sample_register_def)
  with r show ?thesis by (simp add: cfg_def)
qed

text \<open>C15 On a relay with a server token nobody registers without a credential: an accepted registration carried the
  token, in the message or as a bearer token, or a JWT secret is configured and the message carried a JWT
  that validates under it, unexpired and signed with the secret by an HMAC method; then the name is
  registered, to the JWT's installation, and it is the JWT's name.\<close>
theorem registration_needs_credentials:
  assumes "relay_backend B waiting peers store_ok tbl" "jwt_sound J payload sig" "store_ok (m_store m)"
    "hc_ServerAuthToken cfg \<noteq> []" "run_state (handle_register B J cfg bearer rd p r) m = (ContinuePing, m')"
  shows "sr_AuthToken r = hc_ServerAuthToken cfg \<or> bearer = hc_ServerAuthToken cfg
    \<or> hc_JWTSecret cfg \<noteq> [] \<and> sr_JWT r \<noteq> []
      \<and> (\<exists>c alg. ValidateToken J (at_validate rd) (hc_JWTSecret cfg) (sr_JWT r) = Some c
        \<and> payload (sr_JWT r) = Some c \<and> unexpired (at_validate rd) c \<and> sig (HMAC alg) (hc_JWTSecret cfg) (sr_JWT r)
        \<and> c_Username (m_heap m' p) = rc_Username c \<and> owner (tbl (m_db m')) (rc_Username c) = Some (rc_InstallID c))"
proof (cases "ValidateToken J (at_validate rd) (hc_JWTSecret cfg) (sr_JWT r)")
  case None
  then show ?thesis using assms(4,5)
    by (auto simp: handle_register_def jwt_identity_def relay_simps sendJSON_def split: if_splits)
next
  case (Some c)
  obtain res m1 where g: "run_state (RegisterServer B rd p (rc_Username c) (rc_InstallID c)) m = (res, m1)" by force
  have own: "res = Registered \<Longrightarrow> owner (tbl (m_db m1)) (rc_Username c) = Some (rc_InstallID c)"
    using relay_backend.RegisterServer_refines(1) [OF assms(1,3) g] by simp
  obtain alg where s: "payload (sr_JWT r) = Some c" "unexpired (at_validate rd) c" "sig (HMAC alg) (hc_JWTSecret cfg) (sr_JWT r)"
    using jwt_sound.validate_sound [OF assms(2) Some] by blast
  show ?thesis
  proof (cases "sr_AuthToken r = hc_ServerAuthToken cfg \<or> bearer = hc_ServerAuthToken cfg")
    case False
    then have g': "hc_JWTSecret cfg \<noteq> []" "sr_JWT r \<noteq> []" "jwt_identity J rd cfg r = (rc_Username c, rc_InstallID c, True)"
      using assms(4,5) Some by (auto simp: handle_register_def jwt_identity_def relay_simps sendJSON_def split: if_splits)
    then have "c_Username (m_heap m' p) = rc_Username c \<and> owner (tbl (m_db m')) (rc_Username c) = Some (rc_InstallID c)"
      using assms(5) g own by (auto simp: handle_register_def relay_simps sendJSON_def split: if_splits)
    with s g' Some show ?thesis by blast
  qed blast
qed

theorem registration_needs_credentials_witness:
  "\<exists>(m' :: (mem_store, utable, unit) manager). run_state (handle_register mem_backend open_jwt
      \<lparr>hc_PingInterval = 1, hc_PongTimeout = 1, hc_ServerAuthToken = ''s3cret'', hc_JWTSecret = []\<rparr> ''s3cret'' sample_rd 5
      sample_register) sample_relay = (ContinuePing, m')"
proof -
  define cfg where "cfg = \<lparr>hc_PingInterval = 1, hc_PongTimeout = 1, hc_ServerAuthToken = ''s3cret'', hc_JWTSecret = []\<rparr>"
  have v: "IsValidUsername ''ann-1''" by (simp add: IsValidUsername_eq) code_simp
  obtain m1 where "run_state (RegisterServer mem_backend sample_rd 5 ''ann-1'' ''i1'') sample_relay = (Registered, m1)"
    using register_unowned [OF v, of sample_rd 5 "''i1''"]
    by (cases "run_state (RegisterServer mem_backend sample_rd 5 ''ann-1'' ''i1'') sample_relay") simp
  then obtain m' where r: "run_state (handle_register mem_backend open_jwt cfg ''s3cret'' sample_rd 5 sample_register) sample_relay = (ContinuePing, m')"
    by (simp add: handle_register_def jwt_identity_def cfg_def sample_register_def sendJSON_def relay_simps)
  have "hc_ServerAuthToken cfg \<noteq> []" by (simp add: cfg_def)
  from registration_needs_credentials [OF mem_relay.relay_backend_axioms open_jwt.jwt_sound_axioms sample_store_ok this r] r
  show ?thesis by (auto simp: cfg_def)
qed

text \<open>Before it is paired, a connection that sends a binary frame, or a text that is not a handshake
  message, changes nothing and gets no answer; the loop goes on.\<close>
lemma unpaired_noise_ignored:
  assumes "relay_backend B waiting peers store_ok tbl" "store_ok (m_store m)"
    "\<not> rt_paired p (abs_routing waiting peers m)" "ty \<noteq> MessageText \<or> ParseMessage data = None"
    "run_state (handle_message B J cfg bearer rd p ty data) m = (next, m')"
  shows "next = Continue \<and> m_out m' = m_out m \<and> abs_routing waiting peers m' = abs_routing waiting peers m \<and> m_db m' = m_db m"
  using relay_backend.handle_message_unpaired [OF assms(1,2,3), of J cfg bearer rd ty data]
    relay_backend.IsPaired_run [OF assms(1,2), of p] assms(4,5)
  by (auto simp: relay_simps split: if_splits)

text \<open>C36 Nothing stops a connection that waits for a username as its one-client server from connecting to that
  username: it becomes its own peer, and every frame it sends, when the message limit admits it and less
  than a hundred counted writes to it are pending, is written back to it.\<close>
theorem self_pairing:
  assumes "relay_backend B waiting peers store_ok tbl" "sql_reliable (b_sql B) tbl"
    and "store_ok (m_store m)" "waits_ok (waiting (m_store m))" "owner (tbl (m_db m)) (cc_Username c) \<noteq> None"
    and "waiting (m_store m) (cc_Username c) = Some (c_ID (m_heap m p))" "m_conns m (c_ID (m_heap m p)) = Some p"
    and "\<not> c_MultiClient (m_heap m p)" "\<not> rt_paired p (abs_routing waiting peers m)" "peers_ok (peers (m_store m))"
    and "ParseMessage data = Some (MClientConnect c)" "run_state (handle_message B J cfg bearer rd p MessageText data) m = (next, m')"
  shows "next = Continue \<and> peers (m_store m') (c_ID (m_heap m p)) = Some (c_ID (m_heap m p))
    \<and> (result (allow_message rd' (c_ID (m_heap m p))) m' \<and> c_PendingWrites (m_heap m' p) < 100 \<longrightarrow>
        m_out (after (Forward B rd' p ty frame) m') = m_out m' @ [Write p ty frame])"
proof -
  note X = assms(1)
  define i where "i = c_ID (m_heap m p)"
  define A where "A = abs_routing waiting peers m"
  have ip: "abs_routing waiting peers (after (IsPaired B p) m) = A" "m_db (after (IsPaired B p) m) = m_db m"
      "store_ok (m_store (after (IsPaired B p) m))"
    using relay_backend.IsPaired_run [OF X assms(3), of p] by (simp_all add: A_def)
  define m1 where "m1 = after (IsPaired B p) m"
  have h: "run_state (handle_connect B rd p c) m1 = (next, m')"
    using relay_backend.handle_message_unpaired [OF X assms(3,9), of J cfg bearer rd MessageText data] assms(11,12)
    by (simp add: m1_def)
  have w1: "waiting (m_store m1) = waiting (m_store m)" "m_conns m1 = m_conns m"
    using arg_cong [OF ip(1), of rt_waiting] arg_cong [OF ip(1), of rt_conns] by (simp_all add: abs_routing_def m1_def A_def)
  have k: "next = Continue" "abs_routing waiting peers m' = rt_connected p (cc_Username c) (new_clientID rd) A" "store_ok (m_store m')"
    using relay_backend.handle_connect_routed [OF X _ _ assms(2) _ _ _ h, of i p] ip assms(4-7) w1
    by (simp_all add: m1_def i_def)
  define c' where "c' = (m_heap m p)\<lparr>c_Username := cc_Username c, c_IsServer := False, c_ClientID := []\<rparr>"
  have r: "m_heap m' p = c'" "peers (m_store m') i = Some i" "m_conns m' i = Some p"
    using k(2) assms(6-8) arg_cong [OF k(2), of rt_heap] arg_cong [OF k(2), of rt_peers] arg_cong [OF k(2), of rt_conns]
    by (simp_all add: rt_connected_def rt_connect_def rt_pair_def set_conn_def abs_routing_def A_def c'_def i_def Let_def)
  then have "route B m' (peers (m_store m')) p ty frame = [(p, ty, frame)]"
    using assms(8) by (simp add: route_def c'_def i_def Let_def)
  then have "m_out (after (Forward B rd' p ty frame) m') = m_out m' @ [Write p ty frame]"
    if "result (allow_message rd' i) m'" "c_PendingWrites (m_heap m' p) < 100"
    using relay_backend.Forward_spec(1) [OF X k(3), of rd' p ty frame] that r(1)
    by (simp add: delivery_of_def maxPendingWrites_def c'_def i_def)
  with k(1) r(2) show ?thesis by (auto simp: i_def)
qed

theorem self_pairing_witness:
  "\<exists>(m :: (mem_store, utable, unit) manager) next m'. run_state (handle_message mem_backend open_jwt
       \<lparr>hc_PingInterval = 1, hc_PongTimeout = 1, hc_ServerAuthToken = [], hc_JWTSecret = []\<rparr> [] sample_rd 5 MessageText
       (json_render (json_of_ClientConnect sample_connect))) m = (next, m')
     \<and> next = Continue \<and> ms_peers (m_store m') ''x'' = Some ''x''"
proof -
  define m where "m = sample_relay\<lparr>m_conns := [''x'' \<mapsto> 5], m_store := \<lparr>ms_waiting = [''ann-1'' \<mapsto> ''x''], ms_peers = Map.empty\<rparr>,
    m_db := fmap_of_list [(''ann-1'', \<lparr>ur_install_id = ''home'', ur_registered_at = [], ur_last_seen_at = []\<rparr>)]\<rparr>"
  define cfg where "cfg = \<lparr>hc_PingInterval = 1, hc_PongTimeout = 1, hc_ServerAuthToken = [], hc_JWTSecret = []\<rparr>"
  have p: "ParseMessage (json_render (json_of_ClientConnect sample_connect)) = Some (MClientConnect sample_connect)"
    by (rule ParseMessage_ClientConnect) (simp add: sample_connect_def, code_simp+)
  obtain nxt m' where h: "run_state (handle_message mem_backend open_jwt cfg [] sample_rd 5 MessageText
      (json_render (json_of_ClientConnect sample_connect))) m = (nxt, m')" by force
  have m: "c_ID (m_heap m 5) = ''x''" "mem_finite (m_store m)" "waits_ok (ms_waiting (m_store m))"
    "owner (id (m_db m)) (cc_Username sample_connect) \<noteq> None" "ms_waiting (m_store m) (cc_Username sample_connect) = Some ''x''"
    "m_conns m ''x'' = Some 5" "\<not> c_MultiClient (m_heap m 5)" "\<not> rt_paired 5 (abs_routing ms_waiting ms_peers m)" "peers_ok (ms_peers (m_store m))"
    by (simp_all add: m_def sample_relay_def sample_conn_def owner_def mem_finite_def waits_ok_def peers_ok_def rt_paired_def abs_routing_def
        sample_connect_def Let_def)
  have sql: "sql_reliable (b_sql mem_backend) id" by (simp add: mem_backend_def table_db.sql_reliable_axioms)
  note s = self_pairing [OF mem_relay.relay_backend_axioms sql m(2-4) _ _ m(7-9) p h, unfolded m(1)]
  from s m h have "nxt = Continue \<and> ms_peers (m_store m') ''x'' = Some ''x''" by blast
  with h show ?thesis unfolding cfg_def by blast
qed



end
