(* ===== verification/Goroutine.thy ===== *)
theory Goroutine
  imports System_Inv
begin

text \<open>
  The goroutine of one websocket in the grain of the program: \<open>ServeWS\<close> with the methods of the manager it
  calls, cut where another goroutine may come in between. A program counter \<open>pc\<close> says what comes next and
  carries the local variables; \<open>advance\<close> does one piece: a critical section under the manager's mutex, a
  statement of the registry, a call of the limiter or the buffer, one assignment to a field of the
  connection, one call on a websocket. Run without interruption, the pieces are \<open>handle_message\<close> and
  \<open>deferred\<close>.
\<close>

section \<open>Program counters\<close>

text \<open>\<open>AwaitFrame\<close>: blocked in \<open>ws.Read\<close>. \<open>Dispatch\<close>: a frame was read, \<open>IsPaired\<close> comes next. \<open>Say\<close>: websocket
  calls to make one after the other. \<open>AtDefer\<close>: the loop has been left, the \<open>defer\<close> comes next.\<close>
datatype pc =
    Idle
  | AwaitFrame
  | Dispatch readings msg_type bytes
  | ForwardAllow readings msg_type bytes
  | ForwardFind readings msg_type bytes
  | ForwardWrites "(cref \<times> msg_type \<times> bytes) list" pc
  | WriteReturns cref "(cref \<times> msg_type \<times> bytes) list" pc
  | ForwardPush readings msg_type bytes
  | RegCheck readings string string bool
  | RegInsert readings string string bool
  | RegEnter readings string string bool
  | RegName readings string string bool
  | RegRole readings string string bool
  | RegMulti readings string string bool
  | ConCheck readings string
  | ConAttach readings string
  | ConSeen readings string string
  | ConName string string
  | ConRole string string
  | ConId string string
  | Replay string
  | ReplayClear string
  | Say "effect list" pc
  | AtDefer
  | Ended

section \<open>The pieces\<close>

text \<open>The calls that end a refused registration or connection; then the loop is left.\<close>
definition refuse_server :: "cref \<Rightarrow> RegistrationResult \<Rightarrow> pc" where
  "refuse_server p r =
     Say [Write p MessageText (json_render (json_of_ServerRejected (NewServerRejected (result_text r)))),
          Close p StatusNormalClosure (''Registration rejected: '' @ result_text r)] AtDefer"

definition refuse_client :: "cref \<Rightarrow> string \<Rightarrow> pc" where
  "refuse_client p status =
     Say [Write p MessageText (json_render (json_of_ClientError (NewClientError status))),
          Close p StatusNormalClosure (''Connection failed: '' @ status)] AtDefer"

text \<open>What the handler does with a \<open>server_register\<close> before it calls \<open>RegisterServer\<close>, and the check of the
  username that one starts with.\<close>
definition admit :: "('s, 'd) site \<Rightarrow> cref \<Rightarrow> readings \<Rightarrow> ServerRegister \<Rightarrow> pc" where
  "admit W p rd m =
     (case jwt_identity (si_jwt W) rd (si_cfg W) m of (username, installID, jwtAuthenticated) \<Rightarrow>
        if \<not> jwtAuthenticated \<and> hc_ServerAuthToken (si_cfg W) \<noteq> [] \<and> sr_AuthToken m \<noteq> hc_ServerAuthToken (si_cfg W)
           \<and> si_bearer W p \<noteq> hc_ServerAuthToken (si_cfg W)
        then Say [Write p MessageText (json_render (json_of_ServerRejected (NewServerRejected ''unauthorized''))),
                  Close p StatusPolicyViolation ''Registration rejected: unauthorized''] AtDefer
        else if \<not> IsValidUsername username then refuse_server p InvalidUsername
        else RegCheck rd username installID (sr_MultiClient m))"

text \<open>The reply to a successful registration.\<close>
definition greet_server :: "('s, 'd) site \<Rightarrow> cref \<Rightarrow> readings \<Rightarrow> string \<Rightarrow> string \<Rightarrow> bool \<Rightarrow> effect" where
  "greet_server W p rd username installID mc =
     (let jwtToken = (if hc_JWTSecret (si_cfg W) \<noteq> []
          then (case IssueToken (si_jwt W) (at_issue rd) (hc_JWTSecret (si_cfg W)) username installID of
                  None \<Rightarrow> [] | Some t \<Rightarrow> t)
          else [])
      in Write p MessageText (json_render (json_of_ServerRegistered (NewServerRegistered jwtToken mc))))"

text \<open>The look-ups of \<open>Forward\<close> for its three kinds of sender: the writes to make, and whether the frame goes to
  the buffer afterwards.\<close>
definition find_targets ::
  "('s, 'd) backend \<Rightarrow> cref \<Rightarrow> msg_type \<Rightarrow> bytes \<Rightarrow> ('s, 'd, 'r, (cref \<times> msg_type \<times> bytes) list \<times> bool) relay" where
  "find_targets B p msgType data = do {
     c \<leftarrow> fetch (\<lambda>m. m_heap m p);
     group \<leftarrow> fetch (\<lambda>m. m_multiGroups m (c_Username c));
     if c_ClientID c \<noteq> [] then State_Monad.return
       (case group of
          None \<Rightarrow> []
        | Some g \<Rightarrow> [(g_serverConn g, MessageBinary, WrapMultiClientFrame (b_uuids B) (c_ClientID c) msgType data)], False)
     else if c_MultiClient c \<and> c_Username c \<noteq> [] then State_Monad.return
       (case group of
          None \<Rightarrow> []
        | Some g \<Rightarrow>
            (case (if msgType = MessageBinary then ParseMultiClientHeader (b_uuids B) data else None) of
               Some (clientID, origType, payload) \<Rightarrow>
                 (case g_clients g clientID of None \<Rightarrow> [] | Some client \<Rightarrow> [(client, origType, payload)])
             | None \<Rightarrow> map (\<lambda>client. (client, msgType, data)) (map_values (g_clients g) (b_order B (dom (g_clients g))))), False)
     else do {
       peer \<leftarrow> on_store (GetPeer (b_store B) (c_ID c));
       case peer of
         None \<Rightarrow> State_Monad.return ([], False)
       | Some peerID \<Rightarrow> do {
           target \<leftarrow> fetch (\<lambda>m. m_conns m peerID);
           State_Monad.return (case target of None \<Rightarrow> ([], False) | Some t \<Rightarrow> ([(t, msgType, data)], True))
         }
     }
   }"

text \<open>The last piece of \<open>Forward\<close> for a frame of a pair.\<close>
definition push_frame :: "readings \<Rightarrow> cref \<Rightarrow> msg_type \<Rightarrow> bytes \<Rightarrow> ('s, 'd, 'r, unit) relay" where
  "push_frame rd p msgType data = do {
     c \<leftarrow> fetch (\<lambda>m. m_heap m p);
     buf \<leftarrow> fetch m_buffer;
     on_redis (Push buf (at_buf rd) (c_Username c) (if c_IsServer c then ''s2c'' else ''c2s'') (msg_type_int msgType) data)
   }"

fun advance :: "('s, 'd) site \<Rightarrow> cref \<Rightarrow> pc \<Rightarrow> ('s, 'd, 'r, pc) relay" where
  "advance W p (Dispatch rd ty data) = do {
     paired \<leftarrow> IsPaired (si_backend W) p;
     State_Monad.return
       (if paired then ForwardAllow rd ty data
        else if ty \<noteq> MessageText then AwaitFrame
        else (case ParseMessage data of
            None \<Rightarrow> AwaitFrame
          | Some (MServerRegister m) \<Rightarrow> admit W p rd m
          | Some (MClientConnect m) \<Rightarrow> ConCheck rd (cc_Username m)))
   }"
| "advance W p (ForwardAllow rd ty data) = do {
     c \<leftarrow> fetch (\<lambda>m. m_heap m p);
     ok \<leftarrow> allow_message rd (c_ID c);
     State_Monad.return (if ok then ForwardFind rd ty data else AwaitFrame)
   }"
| "advance W p (ForwardFind rd ty data) = do {
     (ws, push) \<leftarrow> find_targets (si_backend W) p ty data;
     State_Monad.return (ForwardWrites ws (if push then ForwardPush rd ty data else AwaitFrame))
   }"
| "advance W p (ForwardWrites [] k) = State_Monad.return k"
| "advance W p (ForwardWrites ((q, ty, data) # ws) k) = do {
     _ \<leftarrow> write_begin q p ty data;
     State_Monad.return (WriteReturns q ws k)
   }"
| "advance W p (WriteReturns q ws k) = do {
     _ \<leftarrow> write_end q;
     State_Monad.return (ForwardWrites ws k)
   }"
| "advance W p (ForwardPush rd ty data) = do {
     _ \<leftarrow> push_frame rd p ty data;
     State_Monad.return AwaitFrame
   }"
| "advance W p (RegCheck rd u i mc) = do {
     can \<leftarrow> on_db (CanRegister (b_sql (si_backend W)) u i);
     State_Monad.return (if can then RegInsert rd u i mc else refuse_server p UsernameTaken)
   }"
| "advance W p (RegInsert rd u i mc) = do {
     ok \<leftarrow> on_db (Register (b_sql (si_backend W)) (at_reg rd) u i);
     State_Monad.return (if ok then RegEnter rd u i mc else refuse_server p UsernameTaken)
   }"
| "advance W p (RegEnter rd u i mc) = do {
     evicted \<leftarrow> enter_waiting (si_backend W) p u;
     State_Monad.return (Say (eviction evicted) (RegName rd u i mc))
   }"
| "advance W p (RegName rd u i mc) = do {
     _ \<leftarrow> upd_conn p (\<lambda>c. c\<lparr>c_Username := u\<rparr>);
     State_Monad.return (RegRole rd u i mc)
   }"
| "advance W p (RegRole rd u i mc) = do {
     _ \<leftarrow> upd_conn p (\<lambda>c. c\<lparr>c_IsServer := True\<rparr>);
     State_Monad.return (RegMulti rd u i mc)
   }"
| "advance W p (RegMulti rd u i mc) = do {
     _ \<leftarrow> upd_conn p (\<lambda>c. c\<lparr>c_MultiClient := mc\<rparr>);
     State_Monad.return (Say [greet_server W p rd u i mc] AwaitFrame)
   }"
| "advance W p (ConCheck rd u) = do {
     known \<leftarrow> on_db (IsRegistered (b_sql (si_backend W)) u);
     State_Monad.return (if known then ConAttach rd u else refuse_client p ''unknown_username'')
   }"
| "advance W p (ConAttach rd u) = do {
     a \<leftarrow> attach (si_backend W) rd p u;
     State_Monad.return (case a of
         NoServer \<Rightarrow> refuse_client p ''server_offline''
       | Joined q i \<Rightarrow>
           Say [Write q MessageText (json_render (json_of_RelayClientJoined (NewRelayClientJoined i)))] (ConSeen rd u i)
       | Paired q \<Rightarrow> ConSeen rd u [])
   }"
| "advance W p (ConSeen rd u i) = do {
     _ \<leftarrow> on_db (UpdateLastSeen (b_sql (si_backend W)) (at_reg rd) u);
     State_Monad.return (ConName u i)
   }"
| "advance W p (ConName u i) = do {
     _ \<leftarrow> upd_conn p (\<lambda>c. c\<lparr>c_Username := u\<rparr>);
     State_Monad.return (ConRole u i)
   }"
| "advance W p (ConRole u i) = do {
     _ \<leftarrow> upd_conn p (\<lambda>c. c\<lparr>c_IsServer := False\<rparr>);
     State_Monad.return (ConId u i)
   }"
| "advance W p (ConId u i) = do {
     _ \<leftarrow> upd_conn p (\<lambda>c. c\<lparr>c_ClientID := i\<rparr>);
     State_Monad.return (Say [Write p MessageText (json_render (json_of_ClientConnected (NewClientConnected i)))] (Replay u))
   }"
| "advance W p (Replay u) = do {
     frames \<leftarrow> GetBufferedMessages u;
     State_Monad.return
       (if length frames > 0
        then Say [Write p MessageText (json_render (json_of_BufferedMessages (NewBufferedMessages frames)))] (ReplayClear u)
        else AwaitFrame)
   }"
| "advance W p (ReplayClear u) = do {
     _ \<leftarrow> ClearBuffer u;
     State_Monad.return AwaitFrame
   }"
| "advance W p (Say [] k) = State_Monad.return k"
| "advance W p (Say (e # es) k) = do {
     _ \<leftarrow> emit e;
     State_Monad.return (Say es k)
   }"
| "advance W p AtDefer = do {
     (_, calls) \<leftarrow> detach (si_backend W) p;
     State_Monad.return (Say (calls @ [CloseNow p]) Ended)
   }"
| "advance W p k = State_Monad.return k"

text \<open>Whether the goroutine has something to do on its own.\<close>
definition busy :: "pc \<Rightarrow> bool" where
  "busy k \<longleftrightarrow> k \<noteq> Idle \<and> k \<noteq> AwaitFrame \<and> k \<noteq> Ended"

section \<open>Running alone\<close>

primrec solo :: "nat \<Rightarrow> ('s, 'd) site \<Rightarrow> cref \<Rightarrow> pc \<Rightarrow> ('s, 'd, 'r, pc) relay" where
  "solo 0 W p k = State_Monad.return k"
| "solo (Suc n) W p k = do { k' \<leftarrow> advance W p k; solo n W p k' }"

definition leads :: "('s, 'd) site \<Rightarrow> cref \<Rightarrow> pc \<times> ('s, 'd, 'r) manager \<Rightarrow> pc \<times> ('s, 'd, 'r) manager \<Rightarrow> bool" where
  "leads W p s s' \<longleftrightarrow> (\<exists>n. run_state (solo n W p (fst s)) (snd s) = s')"

lemma leads_refl [simp]: "leads W p s s"
  unfolding leads_def by (rule exI [of _ 0]) simp

lemma leads_step: "run_state (advance W p k) m = s1 \<Longrightarrow> leads W p s1 s' \<Longrightarrow> leads W p (k, m) s'"
  unfolding leads_def
proof (elim exE)
  fix n
  assume "run_state (advance W p k) m = s1" "run_state (solo n W p (fst s1)) (snd s1) = s'"
  then have "run_state (solo (Suc n) W p k) m = s'" by (simp add: split_def)
  then have "run_state (solo (Suc n) W p (fst (k, m))) (snd (k, m)) = s'" by (simp only: fst_conv snd_conv)
  then show "\<exists>n. run_state (solo n W p (fst (k, m))) (snd (k, m)) = s'" ..
qed

lemma solo_add: "run_state (solo (j + n) W p k) m = run_state (do { k' \<leftarrow> solo j W p k; solo n W p k' }) m"
  by (induction j arbitrary: k m) (simp_all add: split_def)

lemma leads_trans: "leads W p s s1 \<Longrightarrow> leads W p s1 s2 \<Longrightarrow> leads W p s s2"
  unfolding leads_def
proof (elim exE)
  fix j n
  assume "run_state (solo j W p (fst s)) (snd s) = s1" "run_state (solo n W p (fst s1)) (snd s1) = s2"
  then have "run_state (solo (j + n) W p (fst s)) (snd s) = s2" by (simp add: solo_add split_def)
  then show "\<exists>n. run_state (solo n W p (fst s)) (snd s) = s2" ..
qed

lemma leads_say: "leads W p (Say es k, m) (k, m\<lparr>m_out := m_out m @ es\<rparr>)"
proof (induction es arbitrary: m)
  case Nil
  show ?case by (rule leads_step [where ?s1.0 = "(k, m)"]) simp_all
next
  case (Cons e es)
  have "run_state (advance W p (Say (e # es) k)) m = (Say es k, m\<lparr>m_out := m_out m @ [e]\<rparr>)" by (simp add: relay_simps)
  from leads_step [OF this Cons] show ?case by simp
qed

lemma leads_writes:
  "leads W p (ForwardWrites ws k, m) (k, m\<lparr>m_out := m_out m @ deliveries (m_heap m) p ws\<rparr>)"
proof (induction ws arbitrary: m)
  case Nil
  show ?case by (rule leads_step [where ?s1.0 = "(k, m)"]) simp_all
next
  case (Cons w ws)
  obtain q ty data where w: "w = (q, ty, data)" by (cases w)
  define m1 where "m1 = after (write_begin q p ty data) m"
  have "run_state (advance W p (ForwardWrites (w # ws) k)) m = (WriteReturns q ws k, m1)"
    by (simp add: w m1_def split_def)
  moreover have "run_state (advance W p (WriteReturns q ws k)) m1 = (ForwardWrites ws k, after (writeToConn q p ty data) m)"
    by (simp add: writeToConn_def m1_def split_def)
  ultimately have "leads W p (ForwardWrites (w # ws) k, m) (k, (after (writeToConn q p ty data) m)
      \<lparr>m_out := m_out (after (writeToConn q p ty data) m) @ deliveries (m_heap (after (writeToConn q p ty data) m)) p ws\<rparr>)"
    using Cons by (blast intro: leads_step)
  then show ?case by (simp add: run_writeToConn w)
qed

lemmas advance_simps = relay_simps split_def

lemma find_targets_route:
  assumes "store_ok (m_store m)" "store (b_store B) waiting peers store_ok"
  shows "run_state (find_targets B p ty data) m
    = ((route B m (peers (m_store m)) p ty data,
        c_ClientID (m_heap m p) = [] \<and> \<not> (c_MultiClient (m_heap m p) \<and> c_Username (m_heap m p) \<noteq> [])
        \<and> route B m (peers (m_store m)) p ty data \<noteq> []),
       if c_ClientID (m_heap m p) = [] \<and> \<not> (c_MultiClient (m_heap m p) \<and> c_Username (m_heap m p) \<noteq> [])
       then m\<lparr>m_store := after (GetPeer (b_store B) (c_ID (m_heap m p))) (m_store m)\<rparr> else m)"
  using store.GetPeer_law [OF assms(2,1), of "c_ID (m_heap m p)"]
  by (auto simp: find_targets_def route_def relay_simps Let_def split: option.splits prod.splits)

text \<open>What \<open>Forward\<close> does, from its pieces.\<close>
lemma Forward_pieces:
  "run_state (Forward B rd p ty data) m = run_state (do {
     c \<leftarrow> fetch (\<lambda>m. m_heap m p);
     ok \<leftarrow> allow_message rd (c_ID c);
     if \<not> ok then State_Monad.return ()
     else do {
       (ws, push) \<leftarrow> find_targets B p ty data;
       _ \<leftarrow> modify (\<lambda>m. m\<lparr>m_out := m_out m @ deliveries (m_heap m) p ws\<rparr>);
       if push then push_frame rd p ty data else State_Monad.return ()
     }
   }) m"
proof -
  define m1 where "m1 = after (allow_message rd (c_ID (m_heap m p))) m"
  have f: "m_heap m1 = m_heap m" using allow_message_frame(1) [of rd "c_ID (m_heap m p)" m] by (simp add: m1_def routing_of_def)
  show ?thesis
  proof (cases "c_ClientID (m_heap m p) \<noteq> []")
    case True
    then show ?thesis using f
      by (auto simp: Forward_def advance_simps find_targets_def forwardFromClient_def deliveries_def m1_def [symmetric]
          split: option.splits)
  next
    case plain: False
    show ?thesis
    proof (cases "c_MultiClient (m_heap m p) \<and> c_Username (m_heap m p) \<noteq> []")
      case True
      then show ?thesis using plain f
        by (auto simp: Forward_def advance_simps find_targets_def forwardFromServer_def broadcast_def deliveries_def comp_def
            m1_def [symmetric] split: option.splits)
    next
      case False
      then show ?thesis using plain f
        by (auto simp: Forward_def advance_simps find_targets_def forwardPair_def push_frame_def deliveries_def Let_def
            m1_def [symmetric] split: option.splits)
    qed
  qed
qed

lemma leads_forward:
  "leads W p (ForwardAllow rd ty data, m) (AwaitFrame, after (Forward (si_backend W) rd p ty data) m)"
proof -
  define m1 where "m1 = after (allow_message rd (c_ID (m_heap m p))) m"
  define ok where "ok = result (allow_message rd (c_ID (m_heap m p))) m"
  have a: "run_state (advance W p (ForwardAllow rd ty data)) m = (if ok then ForwardFind rd ty data else AwaitFrame, m1)"
    by (simp add: advance_simps m1_def ok_def)
  show ?thesis
  proof (cases ok)
    case False
    then show ?thesis using leads_step [OF a] by (simp add: Forward_pieces advance_simps m1_def ok_def)
  next
    case True
    obtain ws push m2 where r: "run_state (find_targets (si_backend W) p ty data) m1 = ((ws, push), m2)" by (metis surj_pair)
    define k where "k = (if push then ForwardPush rd ty data else AwaitFrame)"
    define m3 where "m3 = m2\<lparr>m_out := m_out m2 @ deliveries (m_heap m2) p ws\<rparr>"
    have find: "run_state (advance W p (ForwardFind rd ty data)) m1 = (ForwardWrites ws k, m2)" using r by (simp add: k_def)
    have "leads W p (ForwardFind rd ty data, m1) (k, m3)"
      by (rule leads_step [OF find]) (simp add: m3_def leads_writes)
    then have one: "leads W p (ForwardAllow rd ty data, m) (k, m3)" by (intro leads_step [OF a]) (simp add: True)
    have two: "leads W p (k, m3) (AwaitFrame, if push then after (push_frame rd p ty data) m3 else m3)"
      unfolding k_def by (cases push) (auto intro: leads_step [OF _ leads_refl] simp: split_def)
    have "(if push then after (push_frame rd p ty data) m3 else m3) = after (Forward (si_backend W) rd p ty data) m"
      using True r by (simp add: Forward_pieces advance_simps m1_def [symmetric] ok_def [symmetric] m3_def)
    with leads_trans [OF one two] show ?thesis by simp
  qed
qed



section \<open>Handshakes\<close>

text \<open>How the loop goes on, as a program counter.\<close>
definition resume :: "loop \<Rightarrow> pc" where
  "resume l = (if l = Return then AtDefer else AwaitFrame)"

lemma leads_say_then: "leads W p (k, m\<lparr>m_out := m_out m @ es\<rparr>) s \<Longrightarrow> leads W p (Say es k, m) s"
  by (rule leads_trans [OF leads_say])

text \<open>Three assignments in a row are one update.\<close>
lemma leads_server_fields:
  "leads W p (RegName rd u i mc, m)
     (AwaitFrame, m\<lparr>m_heap := (m_heap m)(p := (m_heap m p)\<lparr>c_Username := u, c_IsServer := True, c_MultiClient := mc\<rparr>),
        m_out := m_out m @ [greet_server W p rd u i mc]\<rparr>)"
proof -
  define m1 where "m1 = m\<lparr>m_heap := (m_heap m)(p := (m_heap m p)\<lparr>c_Username := u\<rparr>)\<rparr>"
  define m2 where "m2 = m\<lparr>m_heap := (m_heap m)(p := (m_heap m p)\<lparr>c_Username := u, c_IsServer := True\<rparr>)\<rparr>"
  define m3 where "m3 = m\<lparr>m_heap := (m_heap m)(p := (m_heap m p)\<lparr>c_Username := u, c_IsServer := True, c_MultiClient := mc\<rparr>)\<rparr>"
  have a1: "run_state (advance W p (RegName rd u i mc)) m = (RegRole rd u i mc, m1)"
    and a2: "run_state (advance W p (RegRole rd u i mc)) m1 = (RegMulti rd u i mc, m2)"
    and a3: "run_state (advance W p (RegMulti rd u i mc)) m2 = (Say [greet_server W p rd u i mc] AwaitFrame, m3)"
    by (simp_all add: relay_simps m1_def m2_def m3_def)
  show ?thesis
    using leads_step [OF a1 leads_step [OF a2 leads_step [OF a3 leads_say]]] by (simp add: m3_def)
qed

lemma leads_client_fields:
  "leads W p (ConName u i, m)
     (Replay u, m\<lparr>m_heap := (m_heap m)(p := (m_heap m p)\<lparr>c_Username := u, c_IsServer := False, c_ClientID := i\<rparr>),
        m_out := m_out m @ [Write p MessageText (json_render (json_of_ClientConnected (NewClientConnected i)))]\<rparr>)"
proof -
  define w where "w = Write p MessageText (json_render (json_of_ClientConnected (NewClientConnected i)))"
  define m1 where "m1 = m\<lparr>m_heap := (m_heap m)(p := (m_heap m p)\<lparr>c_Username := u\<rparr>)\<rparr>"
  define m2 where "m2 = m\<lparr>m_heap := (m_heap m)(p := (m_heap m p)\<lparr>c_Username := u, c_IsServer := False\<rparr>)\<rparr>"
  define m3 where "m3 = m\<lparr>m_heap := (m_heap m)(p := (m_heap m p)\<lparr>c_Username := u, c_IsServer := False, c_ClientID := i\<rparr>)\<rparr>"
  have a1: "run_state (advance W p (ConName u i)) m = (ConRole u i, m1)"
    and a2: "run_state (advance W p (ConRole u i)) m1 = (ConId u i, m2)"
    and a3: "run_state (advance W p (ConId u i)) m2 = (Say [w] (Replay u), m3)"
    by (simp_all add: relay_simps m1_def m2_def m3_def w_def)
  show ?thesis
    using leads_step [OF a1 leads_step [OF a2 leads_step [OF a3 leads_say]]] by (simp add: m3_def w_def)
qed

lemma leads_replay: "leads W p (Replay u, m) (AwaitFrame, after (replay_buffer p u) m)"
proof -
  obtain frames m1 where f: "run_state (GetBufferedMessages u) m = (frames, m1)" by force
  show ?thesis
  proof (cases "frames = []")
    case True
    then show ?thesis using f by (intro leads_step) (auto simp: replay_buffer_def split_def)
  next
    case False
    define w where "w = Write p MessageText (json_render (json_of_BufferedMessages (NewBufferedMessages frames)))"
    have a1: "run_state (advance W p (Replay u)) m = (Say [w] (ReplayClear u), m1)" using f False by (simp add: w_def)
    have a2: "run_state (advance W p (ReplayClear u)) (m1\<lparr>m_out := m_out m1 @ [w]\<rparr>) = (AwaitFrame, after (replay_buffer p u) m)"
      using f False by (simp add: replay_buffer_def sendJSON_def relay_simps w_def split_def)
    show ?thesis by (rule leads_step [OF a1 leads_say_then [OF leads_step [OF a2 leads_refl]]])
  qed
qed


lemma leads_refuse_server:
  "leads W p (refuse_server p r, m) (AtDefer, m\<lparr>m_out := m_out m
     @ [Write p MessageText (json_render (json_of_ServerRejected (NewServerRejected (result_text r)))),
        Close p StatusNormalClosure (''Registration rejected: '' @ result_text r)]\<rparr>)"
  unfolding refuse_server_def by (rule leads_say)

lemma leads_refuse_client:
  "leads W p (refuse_client p st, m) (AtDefer, m\<lparr>m_out := m_out m
     @ [Write p MessageText (json_render (json_of_ClientError (NewClientError st))),
        Close p StatusNormalClosure (''Connection failed: '' @ st)]\<rparr>)"
  unfolding refuse_client_def by (rule leads_say)

lemma leads_RegisterServer:
  fixes m :: "('s, 'd, 'r) manager"
  assumes "run_state (RegisterServer (si_backend W) rd p u i) m = (r, m1)"
  shows "leads W p (if IsValidUsername u then RegCheck rd u i mc else refuse_server p InvalidUsername, m)
    (if r = Registered then RegName rd u i mc else refuse_server p r, m1)"
proof (cases "IsValidUsername u")
  case False
  then show ?thesis using assms by (auto simp: RegisterServer_def)
next
  case valid: True
  define B where "B = si_backend W"
  obtain can d1 where can: "run_state (CanRegister (b_sql B) u i) (m_db m) = (can, d1)" by force
  have a1: "run_state (advance W p (RegCheck rd u i mc)) m
      = (if can then RegInsert rd u i mc else refuse_server p UsernameTaken, m\<lparr>m_db := d1\<rparr>)"
    using can by (simp add: relay_simps B_def)
  show ?thesis
  proof (cases can)
    case False
    then show ?thesis using assms valid can leads_step [OF a1 leads_refl]
      by (auto simp: RegisterServer_def relay_simps B_def)
  next
    case True
    obtain ok d2 where ok: "run_state (Register (b_sql B) (at_reg rd) u i) d1 = (ok, d2)" by force
    define m2 where "m2 = m\<lparr>m_db := d2\<rparr>"
    have a2: "run_state (advance W p (RegInsert rd u i mc)) (m\<lparr>m_db := d1\<rparr>)
        = (if ok then RegEnter rd u i mc else refuse_server p UsernameTaken, m2)"
      using ok by (simp add: relay_simps B_def m2_def)
    have two: "leads W p (RegCheck rd u i mc, m) (if ok then RegEnter rd u i mc else refuse_server p UsernameTaken, m2)"
      by (rule leads_step [OF a1]) (simp add: True leads_step [OF a2 leads_refl])
    show ?thesis
    proof (cases ok)
      case False
      then show ?thesis using assms valid can \<open>can\<close> ok two
        by (auto simp: RegisterServer_def relay_simps B_def m2_def)
    next
      case ok': True
      obtain e m3 where e: "run_state (enter_waiting B p u) m2 = (e, m3)" by force
      have a3: "run_state (advance W p (RegEnter rd u i mc)) m2 = (Say (eviction e) (RegName rd u i mc), m3)"
        using e by (simp add: B_def)
      have "r = Registered" "m1 = m3\<lparr>m_out := m_out m3 @ eviction e\<rparr>"
        using assms valid can ok e \<open>can\<close> ok' by (simp_all add: RegisterServer_def relay_simps B_def m2_def)
      with two leads_step [OF a3 leads_say] ok' valid show ?thesis by (auto intro: leads_trans)
    qed
  qed
qed

lemma leads_register:
  fixes m :: "('s, 'd, 'r) manager"
  assumes "run_state (handle_register (si_backend W) (si_jwt W) (si_cfg W) (si_bearer W p) rd p msg) m = (nxt, m')"
  shows "leads W p (admit W p rd msg, m) (resume nxt, m')"
proof -
  define cfg where "cfg = si_cfg W"
  obtain u i j where j: "jwt_identity (si_jwt W) rd cfg msg = (u, i, j)" by (cases "jwt_identity (si_jwt W) rd cfg msg")
  define mc where "mc = sr_MultiClient msg"
  define shut where "shut = (\<not> j \<and> hc_ServerAuthToken cfg \<noteq> [] \<and> sr_AuthToken msg \<noteq> hc_ServerAuthToken cfg
        \<and> si_bearer W p \<noteq> hc_ServerAuthToken cfg)"
  show ?thesis
  proof (cases shut)
    case True
    define es where "es = [Write p MessageText (json_render (json_of_ServerRejected (NewServerRejected ''unauthorized''))),
                  Close p StatusPolicyViolation ''Registration rejected: unauthorized'']"
    have "admit W p rd msg = Say es AtDefer" using True j by (simp add: admit_def shut_def cfg_def es_def)
    moreover have "nxt = Return" "m' = m\<lparr>m_out := m_out m @ es\<rparr>"
      using True assms j by (auto simp: handle_register_def shut_def cfg_def sendJSON_def relay_simps es_def)
    ultimately show ?thesis by (simp add: leads_say resume_def)
  next
    case False
    have adm: "admit W p rd msg = (if IsValidUsername u then RegCheck rd u i mc else refuse_server p InvalidUsername)"
      using False j by (auto simp: admit_def shut_def cfg_def mc_def)
    obtain r m1 where r: "run_state (RegisterServer (si_backend W) rd p u i) m = (r, m1)" by force
    note reg = leads_RegisterServer [OF r, of mc, folded adm]
    show ?thesis
    proof (cases "r = Registered")
      case True
      have "nxt = ContinuePing" "m' = m1\<lparr>m_heap := (m_heap m1)(p := (m_heap m1 p)\<lparr>c_Username := u, c_IsServer := True, c_MultiClient := mc\<rparr>),
        m_out := m_out m1 @ [greet_server W p rd u i mc]\<rparr>"
        using False assms j r True
        by (auto simp: handle_register_def shut_def cfg_def sendJSON_def relay_simps mc_def greet_server_def Let_def)
      moreover have "leads W p (admit W p rd msg, m) (RegName rd u i mc, m1)" using reg True by simp
      ultimately show ?thesis using leads_trans [OF _ leads_server_fields] by (simp add: resume_def)
    next
      case bad: False
      have "nxt = Return" "m' = m1\<lparr>m_out := m_out m1
         @ [Write p MessageText (json_render (json_of_ServerRejected (NewServerRejected (result_text r)))),
            Close p StatusNormalClosure (''Registration rejected: '' @ result_text r)]\<rparr>"
        using False assms j r bad by (auto simp: handle_register_def shut_def cfg_def sendJSON_def relay_simps)
      moreover have "leads W p (admit W p rd msg, m) (refuse_server p r, m1)" using reg bad by simp
      ultimately show ?thesis using leads_trans [OF _ leads_refuse_server] by (simp add: resume_def)
    qed
  qed
qed

lemma leads_ConnectClient:
  fixes m :: "('s, 'd, 'r) manager"
  assumes "run_state (ConnectClient (si_backend W) rd p u ci) m = (r, m1)"
  shows "leads W p (ConCheck rd u, m)
    (if cr_Status r = ''connected'' then ConName u (cr_ClientID r) else refuse_client p (cr_Status r), m1)"
proof -
  define B where "B = si_backend W"
  define known where "known = result (IsRegistered (b_sql B) u) (m_db m)"
  define m2 where "m2 = m\<lparr>m_db := after (IsRegistered (b_sql B) u) (m_db m)\<rparr>"
  have a1: "run_state (advance W p (ConCheck rd u)) m
      = (if known then ConAttach rd u else refuse_client p ''unknown_username'', m2)"
    by (simp add: relay_simps B_def m2_def known_def)
  show ?thesis
  proof (cases known)
    case False
    then show ?thesis using assms leads_step [OF a1 leads_refl]
      by (auto simp: ConnectClient_def relay_simps B_def known_def m2_def refused_def)
  next
    case True
    obtain a m3 where a: "run_state (attach B rd p u) m2 = (a, m3)" by force
    have one: "leads W p (ConCheck rd u, m) s" if "leads W p (ConAttach rd u, m2) s" for s :: "pc \<times> ('s, 'd, 'r) manager"
      by (rule leads_step [OF a1]) (simp add: True that)
    have run: "run_state (ConnectClient B rd p u ci) m = (connection_result a,
        m3\<lparr>m_out := m_out m3 @ joined_notice a,
            m_db := if a = NoServer then m_db m3 else after (UpdateLastSeen (b_sql B) (at_reg rd) u) (m_db m3)\<rparr>)"
      using True a by (cases a) (simp_all add: ConnectClient_def relay_simps m2_def known_def)
    show ?thesis
    proof (cases a)
      case NoServer
      have "run_state (advance W p (ConAttach rd u)) m2 = (refuse_client p ''server_offline'', m3)"
        using a NoServer by (simp add: B_def)
      from one [OF leads_step [OF this leads_refl]] run assms NoServer show ?thesis by (auto simp: B_def refused_def)
    next
      case (Joined q i)
      define w where "w = Write q MessageText (json_render (json_of_RelayClientJoined (NewRelayClientJoined i)))"
      have a2: "run_state (advance W p (ConAttach rd u)) m2 = (Say [w] (ConSeen rd u i), m3)"
        using a Joined by (simp add: B_def w_def)
      have a3: "run_state (advance W p (ConSeen rd u i)) (m3\<lparr>m_out := m_out m3 @ [w]\<rparr>) = (ConName u i, m1)"
        using run assms Joined by (simp add: relay_simps B_def w_def)
      from one [OF leads_step [OF a2 leads_say_then [OF leads_step [OF a3 leads_refl]]]] run assms Joined
      show ?thesis by (auto simp: B_def)
    next
      case (Paired q)
      have a2: "run_state (advance W p (ConAttach rd u)) m2 = (ConSeen rd u [], m3)"
        using a Paired by (simp add: B_def)
      have a3: "run_state (advance W p (ConSeen rd u [])) m3 = (ConName u [], m1)"
        using run assms Paired by (simp add: relay_simps B_def)
      from one [OF leads_step [OF a2 leads_step [OF a3 leads_refl]]] run assms Paired
      show ?thesis by (auto simp: B_def)
    qed
  qed
qed

lemma leads_connect:
  fixes m :: "('s, 'd, 'r) manager"
  assumes "run_state (handle_connect (si_backend W) rd p msg) m = (nxt, m')"
  shows "leads W p (ConCheck rd (cc_Username msg), m) (resume nxt, m')"
proof -
  define u where "u = cc_Username msg"
  obtain r m1 where r: "run_state (ConnectClient (si_backend W) rd p u (cc_ClientID msg)) m = (r, m1)" by force
  note con = leads_ConnectClient [OF r]
  show ?thesis
  proof (cases "cr_Status r = ''connected''")
    case True
    define m2 where "m2 = m1\<lparr>m_heap := (m_heap m1)(p := (m_heap m1 p)\<lparr>c_Username := u, c_IsServer := False, c_ClientID := cr_ClientID r\<rparr>),
        m_out := m_out m1 @ [Write p MessageText (json_render (json_of_ClientConnected (NewClientConnected (cr_ClientID r))))]\<rparr>"
    have "nxt = Continue" "m' = after (replay_buffer p u) m2"
      using assms r True by (simp_all add: handle_connect_def sendJSON_def relay_simps u_def m2_def split_def)
    with con True leads_trans [OF leads_client_fields leads_replay, of W p u "cr_ClientID r" m1, folded m2_def]
    show ?thesis by (auto simp: resume_def u_def intro: leads_trans)
  next
    case False
    have "nxt = Return" "m' = m1\<lparr>m_out := m_out m1
       @ [Write p MessageText (json_render (json_of_ClientError (NewClientError (cr_Status r)))),
          Close p StatusNormalClosure (''Connection failed: '' @ cr_Status r)]\<rparr>"
      using assms r False by (auto simp: handle_connect_def sendJSON_def relay_simps u_def)
    moreover have "leads W p (ConCheck rd u, m) (refuse_client p (cr_Status r), m1)" using con False by simp
    ultimately show ?thesis using leads_trans [OF _ leads_refuse_client] by (simp add: resume_def u_def)
  qed
qed


section \<open>Whole handlings\<close>

lemma leads_message:
  assumes "run_state (handle_message (si_backend W) (si_jwt W) (si_cfg W) (si_bearer W p) rd p ty data) m = (nxt, m')"
  shows "leads W p (Dispatch rd ty data, m) (resume nxt, m')"
proof -
  define paired where "paired = result (IsPaired (si_backend W) p) m"
  define m1 where "m1 = after (IsPaired (si_backend W) p) m"
  define k where "k = (if paired then ForwardAllow rd ty data
        else if ty \<noteq> MessageText then AwaitFrame
        else (case ParseMessage data of
            None \<Rightarrow> AwaitFrame
          | Some (MServerRegister m) \<Rightarrow> admit W p rd m
          | Some (MClientConnect m) \<Rightarrow> ConCheck rd (cc_Username m)))"
  have a: "run_state (advance W p (Dispatch rd ty data)) m = (k, m1)" by (simp add: split_def paired_def m1_def k_def)
  have "leads W p (k, m1) (resume nxt, m')"
  proof (cases paired)
    case True
    then have "nxt = Continue" "m' = after (Forward (si_backend W) rd p ty data) m1"
      using assms by (simp_all add: handle_message_def split_def paired_def m1_def)
    then show ?thesis using leads_forward True by (simp add: k_def resume_def)
  next
    case unpaired: False
    show ?thesis
    proof (cases "ty = MessageText \<and> ParseMessage data \<noteq> None")
      case False
      then have "nxt = Continue" "m' = m1" "k = AwaitFrame"
        using assms unpaired by (auto simp: handle_message_def split_def paired_def m1_def k_def split: if_splits)
      then show ?thesis by (simp add: resume_def)
    next
      case True
      then obtain msg where msg: "ParseMessage data = Some msg" by blast
      show ?thesis
      proof (cases msg)
        case (MServerRegister sr)
        then show ?thesis using assms unpaired True msg leads_register
          by (simp add: handle_message_def split_def paired_def m1_def k_def)
      next
        case (MClientConnect cc)
        then show ?thesis using assms unpaired True msg leads_connect
          by (simp add: handle_message_def split_def paired_def m1_def k_def)
      qed
    qed
  qed
  with a show ?thesis by (rule leads_step)
qed

lemma leads_deferred: "leads W p (AtDefer, m) (Ended, after (deferred (si_backend W) p) m)"
proof -
  obtain r es m1 where d: "run_state (detach (si_backend W) p) m = ((r, es), m1)" by (metis surj_pair)
  have a: "run_state (advance W p AtDefer) m = (Say (es @ [CloseNow p]) Ended, m1)" using d by simp
  have "after (deferred (si_backend W) p) m = m1\<lparr>m_out := m_out m1 @ (es @ [CloseNow p])\<rparr>"
    using d by (simp add: deferred_def HandleClose_def relay_simps)
  with leads_step [OF a leads_say] show ?thesis by simp
qed

section \<open>The work left\<close>

text \<open>How far a handling has come, and the websocket calls it still has to make.\<close>
fun stage :: "pc \<Rightarrow> nat" where
  "stage (Dispatch rd ty data) = 9"
| "stage (ForwardAllow rd ty data) = 3"
| "stage (ForwardFind rd ty data) = 2"
| "stage (ForwardPush rd ty data) = 1"
| "stage (ForwardWrites ws k) = stage k"
| "stage (WriteReturns q ws k) = stage k"
| "stage (RegCheck rd u i mc) = 8"
| "stage (RegInsert rd u i mc) = 7"
| "stage (RegEnter rd u i mc) = 6"
| "stage (RegName rd u i mc) = 5"
| "stage (RegRole rd u i mc) = 4"
| "stage (RegMulti rd u i mc) = 3"
| "stage (ConCheck rd u) = 8"
| "stage (ConAttach rd u) = 7"
| "stage (ConSeen rd u i) = 6"
| "stage (ConName u i) = 5"
| "stage (ConRole u i) = 4"
| "stage (ConId u i) = 3"
| "stage (Replay u) = 2"
| "stage (ReplayClear u) = 1"
| "stage (Say es k) = stage k"
| "stage AtDefer = 1"
| "stage k = 0"

fun calls_left :: "pc \<Rightarrow> nat" where
  "calls_left (ForwardWrites ws k) = calls_left k + 2 * length ws + 1"
| "calls_left (WriteReturns q ws k) = calls_left k + 2 * length ws + 2"
| "calls_left (Say es k) = calls_left k + length es + 1"
| "calls_left k = 0"

lemma stage_parts [simp]:
  "stage (refuse_server p r) = 1" "stage (refuse_client p st) = 1" "stage (admit W p rd m) < 9"
  by (simp_all add: refuse_server_def refuse_client_def admit_def split: prod.splits)

lemma advance_decreases:
  assumes "busy k"
  shows "(fst (run_state (advance W p k) m), k) \<in> measures [stage, calls_left]"
  using assms
  by (cases "(W, p, k)" rule: advance.cases)
    (auto simp: busy_def advance_simps less_Suc_eq_le split: message.splits attachment.splits option.splits)


section \<open>Well-formed program counters\<close>

text \<open>What may follow the calls of \<open>Say\<close>, and the writes of \<open>Forward\<close>; a registration under way is for a valid
  username.\<close>
fun after_calls :: "pc \<Rightarrow> bool" where
  "after_calls (RegName rd u i mc) = IsValidUsername u"
| "after_calls (ConSeen rd u i) = True"
| "after_calls (Replay u) = True"
| "after_calls (ReplayClear u) = True"
| "after_calls AwaitFrame = True"
| "after_calls AtDefer = True"
| "after_calls Ended = True"
| "after_calls k = False"

fun after_writes :: "pc \<Rightarrow> bool" where
  "after_writes AwaitFrame = True"
| "after_writes (ForwardPush rd ty data) = True"
| "after_writes k = False"

fun wf_pc :: "pc \<Rightarrow> bool" where
  "wf_pc (ForwardWrites ws k) = after_writes k"
| "wf_pc (WriteReturns q ws k) = after_writes k"
| "wf_pc (Say es k) = after_calls k"
| "wf_pc (RegCheck rd u i mc) = IsValidUsername u"
| "wf_pc (RegInsert rd u i mc) = IsValidUsername u"
| "wf_pc (RegEnter rd u i mc) = IsValidUsername u"
| "wf_pc (RegName rd u i mc) = IsValidUsername u"
| "wf_pc (RegRole rd u i mc) = IsValidUsername u"
| "wf_pc (RegMulti rd u i mc) = IsValidUsername u"
| "wf_pc k = True"

lemma after_wf: "after_calls k \<Longrightarrow> wf_pc k" "after_writes k \<Longrightarrow> wf_pc k"
  by (cases k; simp)+

fun_cases after_writesE: "after_writes k"
fun_cases after_callsE: "after_calls k"

lemma refuse_wf [simp]: "wf_pc (refuse_server p r)" "wf_pc (refuse_client p st)" "wf_pc (admit W p rd m)"
  by (auto simp: refuse_server_def refuse_client_def admit_def split: prod.splits)

lemma advance_wf:
  assumes "wf_pc k"
  shows "wf_pc (fst (run_state (advance W p k) m))"
  using assms
  by (cases "(W, p, k)" rule: advance.cases)
    (auto simp: advance_simps after_wf split: message.splits attachment.splits option.splits)

lemma advance_not_idle:
  assumes "wf_pc k" "busy k"
  shows "fst (run_state (advance W p k) m) \<noteq> Idle"
  using assms
  by (cases "(W, p, k)" rule: advance.cases)
    (auto simp: advance_simps busy_def refuse_server_def refuse_client_def admit_def
      split: message.splits attachment.splits option.splits prod.splits)

section \<open>Properties\<close>

text \<open>Run without interruption, the pieces of the handler are the handler: from the arrival of a frame they end
  in the state \<open>handle_message\<close> computes, waiting for the next frame or about to leave the loop as it says,
  and from the \<open>defer\<close> they end in the state \<open>deferred\<close> computes.\<close>
lemma pieces_are_the_handler:
  "(\<exists>n. run_state (solo n W p (Dispatch rd ty data)) m
     = (resume (result (handle_message (si_backend W) (si_jwt W) (si_cfg W) (si_bearer W p) rd p ty data) m),
        after (handle_message (si_backend W) (si_jwt W) (si_cfg W) (si_bearer W p) rd p ty data) m))
   \<and> (\<exists>n. run_state (solo n W p AtDefer) m = (Ended, after (deferred (si_backend W) p) m))"
  using leads_message [OF prod.collapse [symmetric], of W p rd ty data m] leads_deferred [of W p m]
  by (simp add: leads_def)

text \<open>The program counters of a goroutine whose turns find the manager in whatever state the others have left.\<close>
primrec turns :: "(nat \<Rightarrow> ('s, 'd, 'r) manager) \<Rightarrow> ('s, 'd) site \<Rightarrow> cref \<Rightarrow> pc \<Rightarrow> nat \<Rightarrow> pc" where
  "turns env W p k 0 = k"
| "turns env W p k (Suc n) = fst (run_state (advance W p (turns env W p k n)) (env n))"

lemma turns_idle:
  obtains n where "\<not> busy (turns env W p k n)"
proof (rule ccontr)
  assume "\<not> thesis"
  with that have b: "busy (turns env W p k n)" for n by blast
  have "(turns env W p k (Suc n), turns env W p k n) \<in> measures [stage, calls_left]" for n
    using advance_decreases [OF b, of W p n "env n"] by (simp del: in_measures)
  moreover have "wf (measures [stage, calls_left])" by simp
  ultimately show False unfolding wf_iff_no_infinite_down_chain by blast
qed

lemma turns_wf: "wf_pc k \<Longrightarrow> k \<noteq> Idle \<Longrightarrow> wf_pc (turns env W p k n) \<and> turns env W p k n \<noteq> Idle"
proof (induction n)
  case (Suc n)
  then show ?case
    using advance_wf [of "turns env W p k n" W p "env n"] advance_not_idle [of "turns env W p k n" W p "env n"]
    by (cases "busy (turns env W p k n)") (auto simp: busy_def)
qed simp

text \<open>Whatever the other goroutines do to the manager between its pieces, a handling ends: after finitely
  many turns the goroutine is back in the read of the next frame or has left for good, and a clean-up
  that has begun ends likewise.\<close>
lemma handling_ends:
  "(\<exists>n. turns env W p (Dispatch rd ty data) n \<in> {AwaitFrame, Ended}) \<and> (\<exists>n. turns env W p AtDefer n = Ended)"
proof
  show "\<exists>n. turns env W p (Dispatch rd ty data) n \<in> {AwaitFrame, Ended}"
    by (rule turns_idle [of env W p "Dispatch rd ty data"])
      (use turns_wf [of "Dispatch rd ty data" env W p] in \<open>auto simp: busy_def\<close>)
  have shape: "turns env W p AtDefer n \<in> insert AtDefer (insert Ended (range (\<lambda>es. Say es Ended)))" for n
  proof (induction n)
    case (Suc n)
    then consider "turns env W p AtDefer n = AtDefer" | "turns env W p AtDefer n = Ended"
      | es where "turns env W p AtDefer n = Say es Ended" by auto
    then show ?case
    proof cases
      case (3 es)
      then show ?thesis by (cases es) (simp_all add: split_def)
    qed (simp_all add: split_def)
  qed simp
  have e: "turns env W p AtDefer n = Ended" if "\<not> busy (turns env W p AtDefer n)" for n
    using that shape [of n] by (auto simp: busy_def)
  show "\<exists>n. turns env W p AtDefer n = Ended"
    by (rule turns_idle [of env W p AtDefer]) (use e in blast)
qed

end
