(* ===== verification/Interleaving.thy ===== *)
theory Interleaving
  imports Goroutine
begin

text \<open>
  The whole relay in the grain of \<open>Goroutine\<close>: a pool of goroutines over one manager, of which any may do its
  next piece. Frames arrive, reads fail, keepalives tick, the limiter cleans up, HTTP requests are answered
  and the server may be shut down in between. The runs of \<open>System\<close> are those in which handlings do not overlap.
\<close>

section \<open>Pools\<close>

record ('s, 'd, 'r) pool =
  po_mgr :: "('s, 'd, 'r) manager"
  po_pc :: "cref \<Rightarrow> pc"

datatype act =
    Accept cref string
  | Arrive cref readings msg_type bytes
  | ReadFails cref
  | Run cref
  | Tick cref bool
  | Sweep int
  | Request
  | Stop

text \<open>A connection is served from its acceptance until \<open>HandleClose\<close> has taken it out of the maps.\<close>
fun serving_pc :: "pc \<Rightarrow> bool" where
  "serving_pc Idle = False"
| "serving_pc Ended = False"
| "serving_pc (Say es k) = serving_pc k"
| "serving_pc k = True"

definition serving :: "('s, 'd, 'r) pool \<Rightarrow> cref \<Rightarrow> bool" where
  "serving s p \<longleftrightarrow> serving_pc (po_pc s p)"

text \<open>\<open>uuid.NewString\<close>, drawn by \<open>NewConn\<close> and in the critical section of \<open>ConnectClient\<close>.\<close>
definition unused_id :: "('s, 'd, 'r) pool \<Rightarrow> string \<Rightarrow> bool" where
  "unused_id s uid \<longleftrightarrow> uid \<noteq> [] \<and> (\<forall>q. serving s q \<longrightarrow> c_ID (m_heap (po_mgr s) q) \<noteq> uid)"

definition unused_client :: "('s, 'd, 'r) manager \<Rightarrow> string \<Rightarrow> bool" where
  "unused_client m i \<longleftrightarrow> i \<noteq> [] \<and> (\<forall>u g. m_multiGroups m u = Some g \<longrightarrow> g_clients g i = None)"

definition draws_fresh :: "('s, 'd, 'r) manager \<Rightarrow> pc \<Rightarrow> bool" where
  "draws_fresh m k = (case k of ConAttach rd u \<Rightarrow> unused_client m (new_clientID rd) | _ \<Rightarrow> True)"

inductive tick :: "('s, 'd) site \<Rightarrow> ('s, 'd, 'r) pool \<Rightarrow> act \<Rightarrow> ('s, 'd, 'r) pool \<Rightarrow> bool" for W where
  tick_accept: "po_pc s p = Idle \<Longrightarrow> unused_id s uid \<Longrightarrow> m' = after (upd_conn p (\<lambda>_. NewConn uid)) (po_mgr s) \<Longrightarrow>
    tick W s (Accept p uid) \<lparr>po_mgr = m', po_pc = (po_pc s)(p := AwaitFrame)\<rparr>"
| tick_arrive: "po_pc s p = AwaitFrame \<Longrightarrow>
    tick W s (Arrive p rd ty data) \<lparr>po_mgr = po_mgr s, po_pc = (po_pc s)(p := Dispatch rd ty data)\<rparr>"
| tick_fails: "po_pc s p = AwaitFrame \<Longrightarrow>
    tick W s (ReadFails p) \<lparr>po_mgr = po_mgr s, po_pc = (po_pc s)(p := AtDefer)\<rparr>"
| tick_run: "busy (po_pc s p) \<Longrightarrow> draws_fresh (po_mgr s) (po_pc s p) \<Longrightarrow>
    run_state (advance W p (po_pc s p)) (po_mgr s) = (k, m') \<Longrightarrow>
    tick W s (Run p) \<lparr>po_mgr = m', po_pc = (po_pc s)(p := k)\<rparr>"
| tick_ping: "serving s p \<Longrightarrow> m' = after (ping_tick (si_backend W) pong p) (po_mgr s) \<Longrightarrow>
    tick W s (Tick p pong) \<lparr>po_mgr = m', po_pc = po_pc s\<rparr>"
| tick_sweep: "m' = (po_mgr s)\<lparr>m_limiter := map_option (cleanup (b_order (si_backend W)) now) (m_limiter (po_mgr s))\<rparr> \<Longrightarrow>
    tick W s (Sweep now) \<lparr>po_mgr = m', po_pc = po_pc s\<rparr>"
| tick_http: "sv_backend S = si_backend W \<Longrightarrow> mux (rq_Method r) (rq_Path r) \<noteq> EWS \<Longrightarrow>
    m' = after (serveHTTP S h r) (po_mgr s) \<Longrightarrow> tick W s Request \<lparr>po_mgr = m', po_pc = po_pc s\<rparr>"
| tick_stop: "m' = after (CloseAll (si_backend W) StatusGoingAway ''Server shutting down'') (po_mgr s) \<Longrightarrow>
    tick W s Stop \<lparr>po_mgr = m', po_pc = po_pc s\<rparr>"

inductive_simps tick_run_iff: "tick W s (Run p) s'"
inductive_simps tick_arrive_iff: "tick W s (Arrive p rd ty data) s'"
inductive_simps tick_fails_iff: "tick W s (ReadFails p) s'"
inductive_cases tick_runE: "tick W s (Run p) s'"

text \<open>Runs from a pool without connections, under a discipline \<open>G\<close>.\<close>
inductive runs :: "('s, 'd) site \<Rightarrow> (('s, 'd, 'r) pool \<Rightarrow> act \<Rightarrow> bool) \<Rightarrow> ('s, 'd, 'r) manager
    \<Rightarrow> ('s, 'd, 'r) pool \<Rightarrow> bool" for W G m0 where
  runs_init: "runs W G m0 \<lparr>po_mgr = m0, po_pc = (\<lambda>_. Idle)\<rparr>"
| runs_tick: "runs W G m0 s \<Longrightarrow> G s a \<Longrightarrow> tick W s a s' \<Longrightarrow> runs W G m0 s'"

definition ticks :: "('s, 'd) site \<Rightarrow> (('s, 'd, 'r) pool \<Rightarrow> act \<Rightarrow> bool) \<Rightarrow> ('s, 'd, 'r) pool \<Rightarrow> ('s, 'd, 'r) pool \<Rightarrow> bool" where
  "ticks W G = (\<lambda>s s'. \<exists>a. G s a \<and> tick W s a s')\<^sup>*\<^sup>*"

definition any_act :: "('s, 'd, 'r) pool \<Rightarrow> act \<Rightarrow> bool" where
  "any_act s a = True"

lemma runs_ticks:
  assumes "runs W G m0 s" "ticks W G s s'"
  shows "runs W G m0 s'"
  using assms(2,1) unfolding ticks_def
  by (induction rule: rtranclp_induct) (auto intro: runs_tick)

text \<open>Once \<open>HandleClose\<close> has begun its calls a connection is not served any more, ever.\<close>
definition finished :: "pc \<Rightarrow> bool" where
  "finished k \<longleftrightarrow> k = Ended \<or> (\<exists>es. k = Say es Ended)"

lemma advance_finished: "finished k \<Longrightarrow> finished (fst (run_state (advance W p k) m))"
proof -
  assume "finished k"
  then consider "k = Ended" | es where "k = Say es Ended" by (auto simp: finished_def)
  then show ?thesis
  proof cases
    case (2 es)
    then show ?thesis by (cases es) (simp_all add: finished_def split_def)
  qed (simp add: finished_def)
qed

section \<open>Runs without overlap\<close>

text \<open>A state of \<open>System\<close> as a pool between two handlings.\<close>
definition pc_of :: "phase \<Rightarrow> pc" where
  "pc_of ph = (case ph of Unused \<Rightarrow> Idle | Reading \<Rightarrow> AwaitFrame | Leaving \<Rightarrow> AtDefer | Gone \<Rightarrow> Ended)"

definition pool_of :: "('s, 'd, 'r) system \<Rightarrow> ('s, 'd, 'r) pool" where
  "pool_of s = \<lparr>po_mgr = sy_mgr s, po_pc = (\<lambda>p. pc_of (sy_phase s p))\<rparr>"

lemma serving_pool_of [simp]: "serving (pool_of s) = served s"
  by (simp add: fun_eq_iff serving_def pool_of_def served_def pc_of_def split: phase.splits)

lemma advance_idle: "\<not> busy k \<Longrightarrow> run_state (advance W p k) m = (k, m)"
  by (auto simp: busy_def)

text \<open>An id that is unused when its frame arrives is still unused when it is drawn, if nobody else runs.\<close>
fun draws_later :: "('s, 'd, 'r) manager \<Rightarrow> pc \<Rightarrow> bool" where
  "draws_later m (Dispatch rd ty data) = unused_client m (new_clientID rd)"
| "draws_later m (ConCheck rd u) = unused_client m (new_clientID rd)"
| "draws_later m (ConAttach rd u) = unused_client m (new_clientID rd)"
| "draws_later m k = True"

lemma draws_later_fresh: "draws_later m k \<Longrightarrow> draws_fresh m k"
  by (cases k) (simp_all add: draws_fresh_def)

lemma IsPaired_groups [simp]: "m_multiGroups (after (IsPaired B p) m) = m_multiGroups m"
  by (auto simp: IsPaired_def relay_simps)

lemma draws_later_parts [simp]:
  "draws_later m (refuse_server p r)" "draws_later m (refuse_client p st)" "draws_later m (admit W p rd x)"
  by (simp_all add: refuse_server_def refuse_client_def admit_def split: prod.splits)

lemma after_draws: "after_writes k \<Longrightarrow> draws_later m k" "after_calls k \<Longrightarrow> draws_later m k"
  by (cases k; simp)+

lemma advance_draws:
  assumes "wf_pc k" "draws_later m k" "run_state (advance W p k) m = (k', m')"
  shows "draws_later m' k'"
  using assms
  by (cases "(W, p, k)" rule: advance.cases)
    (auto simp: advance_simps unused_client_def after_draws split: message.splits attachment.splits option.splits)

lemma tick_ticks: "tick W s a s' \<Longrightarrow> G s a \<Longrightarrow> ticks W G s s'"
  by (auto simp: ticks_def)

lemma ticks_trans: "ticks W G s s1 \<Longrightarrow> ticks W G s1 s2 \<Longrightarrow> ticks W G s s2"
  by (auto simp: ticks_def)

definition dispatching :: "pc \<Rightarrow> bool" where
  "dispatching k \<longleftrightarrow> (case k of Dispatch rd ty data \<Rightarrow> True | _ \<Rightarrow> False)"

lemma not_dispatching [simp]:
  "\<not> dispatching (refuse_server p r)" "\<not> dispatching (refuse_client p st)" "\<not> dispatching (admit W p rd x)"
  "after_writes k \<Longrightarrow> \<not> dispatching k" "after_calls k \<Longrightarrow> \<not> dispatching k"
  by (auto simp: dispatching_def refuse_server_def refuse_client_def admit_def split: prod.splits pc.splits)

lemma advance_not_dispatching:
  assumes "wf_pc k" "busy k"
  shows "\<not> dispatching (fst (run_state (advance W p k) m))"
  using assms
  by (cases "(W, p, k)" rule: advance.cases)
    (auto simp: advance_simps busy_def simp flip: dispatching_def split: message.splits attachment.splits option.splits, auto simp: dispatching_def)

text \<open>A goroutine that runs alone, over the program counters \<open>f\<close> of the others.\<close>
lemma solo_ticks:
  assumes "wf_pc k" "draws_later m k" "run_state (solo n W p k) m = (k', m')"
    "dispatching k \<Longrightarrow> G \<lparr>po_mgr = m, po_pc = f(p := k)\<rparr> (Run p)"
    "\<And>m j. \<not> dispatching j \<Longrightarrow> G \<lparr>po_mgr = m, po_pc = f(p := j)\<rparr> (Run p)"
  shows "ticks W G \<lparr>po_mgr = m, po_pc = f(p := k)\<rparr> \<lparr>po_mgr = m', po_pc = f(p := k')\<rparr>"
  using assms(1-4)
proof (induction n arbitrary: m k)
  case 0
  then show ?case by (simp add: ticks_def)
next
  case (Suc n)
  obtain k1 m1 where one: "run_state (advance W p k) m = (k1, m1)" by force
  have wf1: "wf_pc k1" using advance_wf [of k W p m] Suc.prems(1) one by simp
  have rest: "ticks W G \<lparr>po_mgr = m1, po_pc = f(p := k1)\<rparr> \<lparr>po_mgr = m', po_pc = f(p := k')\<rparr>" if "dispatching k1 \<Longrightarrow> k1 = k \<and> m1 = m"
    by (rule Suc.IH [OF wf1 advance_draws [OF Suc.prems(1,2) one]]) (use Suc.prems one that in auto)
  show ?case
  proof (cases "busy k")
    case False
    then have e: "k1 = k" "m1 = m" using one advance_idle [OF False, of W p m] by simp_all
    show ?thesis using rest [unfolded e] by blast
  next
    case True
    have "tick W \<lparr>po_mgr = m, po_pc = f(p := k)\<rparr> (Run p) \<lparr>po_mgr = m1, po_pc = f(p := k1)\<rparr>"
      using tick_run [where s = "\<lparr>po_mgr = m, po_pc = f(p := k)\<rparr>" and p = p and W = W and k = k1 and m' = m1]
        True one draws_later_fresh [OF Suc.prems(2)] by simp
    moreover have "G \<lparr>po_mgr = m, po_pc = f(p := k)\<rparr> (Run p)" using Suc.prems(4) assms(5) by blast
    ultimately have "ticks W G \<lparr>po_mgr = m, po_pc = f(p := k)\<rparr> \<lparr>po_mgr = m1, po_pc = f(p := k1)\<rparr>" by (rule tick_ticks)
    moreover have "\<not> dispatching k1" using advance_not_dispatching [OF Suc.prems(1) True, of W p m] one by simp
    ultimately show ?thesis using rest ticks_trans by blast
  qed
qed

lemma pool_of_pc: "po_pc (pool_of s) = (\<lambda>p. pc_of (sy_phase s p))" "po_mgr (pool_of s) = sy_mgr s"
  by (simp_all add: pool_of_def)

text \<open>A discipline that only looks at goroutines which overlap.\<close>
lemma step_ticks:
  assumes "step W s ev s'"
    and env: "\<And>t a. \<forall>p. a \<noteq> Run p \<Longrightarrow> a \<noteq> Stop \<Longrightarrow> G t a"
    and run: "\<And>t p. \<forall>q. q \<noteq> p \<longrightarrow> po_pc t q \<in> range pc_of \<Longrightarrow> \<not> dispatching (po_pc t p) \<Longrightarrow> G t (Run p)"
    and start: "\<And>p rd ty data. ev = EvFrame p rd ty data \<Longrightarrow>
        G \<lparr>po_mgr = sy_mgr s, po_pc = (po_pc (pool_of s))(p := Dispatch rd ty data)\<rparr> (Run p)"
  shows "ticks W G (pool_of s) (pool_of s')"
  using assms(1)
proof cases
  case (step_accept p uid m')
  have s': "pool_of s' = \<lparr>po_mgr = m', po_pc = (po_pc (pool_of s))(p := AwaitFrame)\<rparr>"
    using step_accept by (auto simp: pool_of_def pc_of_def fun_eq_iff)
  have "tick W (pool_of s) (Accept p uid) (pool_of s')"
    unfolding s' by (rule tick_accept) (use step_accept in \<open>simp_all add: pool_of_def pc_of_def unused_id_def fresh_id_def flip: serving_pool_of\<close>)
  then show ?thesis by (rule tick_ticks) (simp add: env)
next
  case (step_frame p rd ty data nxt m')
  define f where "f = po_pc (pool_of s)"
  have "tick W (pool_of s) (Arrive p rd ty data) \<lparr>po_mgr = sy_mgr s, po_pc = f(p := Dispatch rd ty data)\<rparr>"
    using step_frame by (auto simp: tick_arrive_iff f_def pool_of_def pc_of_def)
  then have one: "ticks W G (pool_of s) \<lparr>po_mgr = sy_mgr s, po_pc = f(p := Dispatch rd ty data)\<rparr>"
    by (rule tick_ticks) (simp add: env)
  obtain n where n: "run_state (solo n W p (Dispatch rd ty data)) (sy_mgr s) = (resume nxt, m')"
    using leads_message [OF step_frame(5)] by (auto simp: leads_def)
  have two: "ticks W G \<lparr>po_mgr = sy_mgr s, po_pc = f(p := Dispatch rd ty data)\<rparr> \<lparr>po_mgr = m', po_pc = f(p := resume nxt)\<rparr>"
    by (rule solo_ticks [OF _ _ n])
      (use step_frame start in \<open>auto simp: unused_client_def fresh_client_def f_def pool_of_pc intro!: run\<close>)
  have "\<lparr>po_mgr = m', po_pc = f(p := resume nxt)\<rparr> = pool_of s'"
    using step_frame by (auto simp: f_def pool_of_def pc_of_def resume_def fun_eq_iff)
  with ticks_trans [OF one two] show ?thesis by simp
next
  case (step_read_error p)
  have "tick W (pool_of s) (ReadFails p) (pool_of s')"
    using step_read_error by (auto simp: tick_fails_iff pool_of_def pc_of_def fun_eq_iff)
  then show ?thesis by (rule tick_ticks) (simp add: env)
next
  case (step_defer p m')
  define f where "f = po_pc (pool_of s)"
  obtain n where n: "run_state (solo n W p AtDefer) (sy_mgr s) = (Ended, m')"
    using leads_deferred [of W p "sy_mgr s"] step_defer(4) by (auto simp: leads_def)
  have "ticks W G \<lparr>po_mgr = sy_mgr s, po_pc = f(p := AtDefer)\<rparr> \<lparr>po_mgr = m', po_pc = f(p := Ended)\<rparr>"
    by (rule solo_ticks [OF _ _ n]) (auto simp: f_def pool_of_pc dispatching_def intro!: run)
  moreover have "\<lparr>po_mgr = sy_mgr s, po_pc = f(p := AtDefer)\<rparr> = pool_of s" "\<lparr>po_mgr = m', po_pc = f(p := Ended)\<rparr> = pool_of s'"
    using step_defer by (auto simp: f_def pool_of_def pc_of_def fun_eq_iff)
  ultimately show ?thesis by simp
next
  case (step_ping p m' pong)
  have "pool_of s' = \<lparr>po_mgr = m', po_pc = po_pc (pool_of s)\<rparr>" using step_ping by (simp add: pool_of_def)
  moreover have "serving (pool_of s) p" using step_ping by (simp add: served_def)
  ultimately have "tick W (pool_of s) (Tick p pong) (pool_of s')"
    using tick_ping [where s = "pool_of s" and p = p and m' = m' and W = W and pong = pong] step_ping by (simp add: pool_of_def)
  then show ?thesis by (rule tick_ticks) (simp add: env)
next
  case (step_cleanup m' now)
  have "pool_of s' = \<lparr>po_mgr = m', po_pc = po_pc (pool_of s)\<rparr>" using step_cleanup by (simp add: pool_of_def)
  then have "tick W (pool_of s) (Sweep now) (pool_of s')"
    using tick_sweep [where s = "pool_of s" and m' = m' and W = W and now = now] step_cleanup by (simp add: pool_of_def)
  then show ?thesis by (rule tick_ticks) (simp add: env)
qed

lemma pool_of_init: "pool_of \<lparr>sy_mgr = m0, sy_phase = \<lambda>_. Unused\<rparr> = \<lparr>po_mgr = m0, po_pc = \<lambda>_. Idle\<rparr>"
  by (simp add: pool_of_def pc_of_def)

lemma reach_runs:
  assumes "reach W G m0 s"
  shows "runs W any_act m0 (pool_of s)"
  using assms
proof induction
  case reach_init
  then show ?case by (simp add: pool_of_init runs_init)
next
  case (reach_step s ev s')
  have "ticks W any_act (pool_of s) (pool_of s')"
    by (rule step_ticks [OF reach_step(3)]) (simp_all add: any_act_def)
  with reach_step.IH show ?case by (rule runs_ticks)
qed

end
