(* ===== verification/Http_Frame.thy ===== *)
theory Http_Frame
  imports System_Inv
begin

text \<open>
  HTTP requests beside the websockets: whatever the server answers to a request that is not for a websocket,
  the manager routes as before.
\<close>

context relay_backend
begin

text \<open>The requests that are not for a websocket read the routing state and leave it alone.\<close>
definition keeps :: "('s, 'd, 'r, 'a) relay \<Rightarrow> bool" where
  "keeps f \<longleftrightarrow> (\<forall>m. good m \<longrightarrow> good (after f m) \<and> abs (after f m) = abs m)"

lemma keepsD: "keeps f \<Longrightarrow> good m \<Longrightarrow> good (after f m) \<and> abs (after f m) = abs m"
  by (simp add: keeps_def)

lemma keeps_return [simp]: "keeps (State_Monad.return x)"
  by (simp add: keeps_def)

lemma keeps_bind: "keeps f \<Longrightarrow> (\<And>x. keeps (g x)) \<Longrightarrow> keeps (f \<bind> g)"
  by (simp add: keeps_def split_def)

lemma keeps_fetch: "keeps (fetch f)"
  by (simp add: keeps_def relay_simps)

lemma keeps_redis: "keeps (on_redis op)"
  by (simp add: keeps_def relay_simps)

lemma keeps_db:
  assumes "\<And>d. tbl (after op d) = tbl d"
  shows "keeps (on_db op)"
  using assms by (simp add: keeps_def relay_simps good_def)

lemma keeps_store:
  assumes "\<And>s. inv s \<Longrightarrow> waiting (after op s) = waiting s \<and> peers (after op s) = peers s \<and> inv (after op s)"
  shows "keeps (on_store op)"
  using assms by (simp add: keeps_def relay_simps good_def abs_def)

lemma keeps_counts: "keeps (GetWaitingCount B)" "keeps (GetPairCount B)" "keeps (IsWaiting B u)"
  unfolding GetWaitingCount_def GetPairCount_def IsWaiting_def Let_def split_def
  by (intro keeps_bind keeps_fetch keeps_return keeps_store; simp add: st.Stats_law st.IsWaiting_law)+

lemma keeps_registry: "keeps (on_db (Count (b_sql B)))" "keeps (on_db (registry_Ping (b_sql B)))"
proof -
  show "keeps (on_db (Count (b_sql B)))" by (rule keeps_db) (rule sql.Count_run(1) [OF prod.collapse [symmetric]])
  show "keeps (on_db (registry_Ping (b_sql B)))"
    by (rule keeps_db) (use sql.db_run [of PingDb] in \<open>auto simp: registry_Ping_def split_def\<close>, (metis snd_conv sql_effect.simps)+)
qed

lemma keeps_admin: "keeps (f r) \<Longrightarrow> keeps (withAdminAuth cfg f r)"
  by (simp add: withAdminAuth_def Let_def)

lemma keeps_dispatch:
  assumes "sv_backend S = B" "mux (rq_Method r) (rq_Path r) \<noteq> EWS"
  shows "keeps (dispatch S h r)"
proof -
  have "keeps (handleHealth B up r)" for up
    unfolding handleHealth_def by (intro keeps_bind keeps_counts keeps_return)
  moreover have "keeps (handleReady B c r)" for c
    unfolding handleReady_def by (intro keeps_bind keeps_registry) (auto split: option.split intro!: keeps_bind keeps_redis)
  moreover have "keeps (handleStatus B c up mem r)" for c up mem
    unfolding handleStatus_def by (intro keeps_bind keeps_counts keeps_registry keeps_return)
  moreover have "keeps (handleOnline B r)"
    unfolding handleOnline_def by (intro keeps_bind keeps_counts keeps_return)
  ultimately show ?thesis using assms by (auto simp: dispatch_def intro!: keeps_admin split: endpoint.split)
qed

lemma http_keeps:
  assumes "good m" "sv_backend S = B" "mux (rq_Method r) (rq_Path r) \<noteq> EWS"
  shows "good (after (serveHTTP S h r) m) \<and> abs (after (serveHTTP S h r) m) = abs m"
proof (rule keepsD [OF _ assms(1)])
  show "keeps (serveHTTP S h r)"
    unfolding serveHTTP_def corsHandler_def using keeps_dispatch [OF assms(2,3), of h] by (auto intro: keeps_bind)
qed

end

end
