(* ===== verification/Interleaving_Inv.thy ===== *)
theory Interleaving_Inv
  imports Interleaving Http_Frame
begin

text \<open>
  Every tick of the interleaved relay is simulated by the routing machine. The machine sees a connection with
  the fields its goroutine is about to assign, and without its count of pending writes. What a goroutine
  relies on between two pieces is the assertion \<open>at_ok\<close> of its program counter; no other goroutine falsifies it.
\<close>

section \<open>Connections as they will be\<close>

definition quiet :: "conn \<Rightarrow> conn" where
  "quiet c = c\<lparr>c_PendingWrites := 0\<rparr>"

fun settled :: "pc \<Rightarrow> conn \<Rightarrow> conn" where
  "settled (RegName rd u i mc) c = c\<lparr>c_Username := u, c_IsServer := True, c_MultiClient := mc\<rparr>"
| "settled (RegRole rd u i mc) c = c\<lparr>c_IsServer := True, c_MultiClient := mc\<rparr>"
| "settled (RegMulti rd u i mc) c = c\<lparr>c_MultiClient := mc\<rparr>"
| "settled (ConSeen rd u i) c = c\<lparr>c_Username := u, c_IsServer := False, c_ClientID := i\<rparr>"
| "settled (ConName u i) c = c\<lparr>c_Username := u, c_IsServer := False, c_ClientID := i\<rparr>"
| "settled (ConRole u i) c = c\<lparr>c_IsServer := False, c_ClientID := i\<rparr>"
| "settled (ConId u i) c = c\<lparr>c_ClientID := i\<rparr>"
| "settled (Say es k) c = settled k c"
| "settled k c = c"

lemma settled_frame [simp]:
  "c_ID (settled k c) = c_ID c" "c_PendingWrites (settled k c) = c_PendingWrites c"
  by (induction k arbitrary: c rule: pc.induct) simp_all

lemma settled_pending [simp]:
  "settled k (c\<lparr>c_PendingWrites := n\<rparr>) = (settled k c)\<lparr>c_PendingWrites := n\<rparr>"
  by (induction k arbitrary: c rule: pc.induct) simp_all

lemma quiet_fields [simp]:
  "c_ID (quiet c) = c_ID c" "c_Username (quiet c) = c_Username c" "c_IsServer (quiet c) = c_IsServer c"
  "c_MultiClient (quiet c) = c_MultiClient c" "c_ClientID (quiet c) = c_ClientID c" "quiet (c\<lparr>c_PendingWrites := n\<rparr>) = quiet c"
  by (simp_all add: quiet_def)

lemma settled_after_writes [simp]: "after_writes k \<Longrightarrow> settled k c = c"
  by (cases k) simp_all

lemma settled_plain [simp]:
  "settled (refuse_server p r) c = c" "settled (refuse_client p st) c = c" "settled (admit W p rd x) c = c"
  by (simp_all add: refuse_server_def refuse_client_def admit_def split: prod.splits)

section \<open>The routing machine on another heap\<close>

lemma rt_register_heap:
  "c_ID (h p) = c_ID (rt_heap R p) \<Longrightarrow> fst (rt_register p u (R\<lparr>rt_heap := h\<rparr>)) = (fst (rt_register p u R))\<lparr>rt_heap := h\<rparr>"
  by (simp add: rt_register_def Let_def)

lemma rt_connect_heap:
  assumes "rt_connect p u i R = (r, R', es)" "\<And>q. c_ID (h q) = c_ID (rt_heap R q)"
  shows "rt_connected_as (waiting_multi R u) p u i (R\<lparr>rt_heap := h\<rparr>)
    = R'\<lparr>rt_heap := if cr_Status r = ''connected''
           then h(p := (h p)\<lparr>c_Username := u, c_IsServer := False, c_ClientID := cr_ClientID r\<rparr>) else h\<rparr>"
  using assms
  by (auto simp: rt_connect_def rt_connected_as_def waiting_multi_def refused_def set_conn_def rt_join_def rt_pair_def Let_def
      split: option.splits if_splits)

lemma rt_close_heap:
  assumes "\<And>q. c_ID (h q) = c_ID (rt_heap R q)" "c_Username (h p) = c_Username (rt_heap R p)"
    "c_ClientID (h p) = c_ClientID (rt_heap R p)" "c_MultiClient (h p) = c_MultiClient (rt_heap R p)"
  shows "fst (snd (rt_close order p (R\<lparr>rt_heap := h\<rparr>))) = (fst (snd (rt_close order p R)))\<lparr>rt_heap := h\<rparr>"
  using assms
  by (auto simp: rt_close_def rt_leave_def rt_disband_def rt_unpair_def Let_def split: option.splits)

section \<open>Pieces that change nothing routed\<close>

fun silent :: "pc \<Rightarrow> bool" where
  "silent (RegEnter rd u i mc) = False"
| "silent (ConAttach rd u) = False"
| "silent AtDefer = False"
| "silent k = True"

text \<open>The parts of the manager the routing machine sees, the counts of pending writes aside.\<close>
definition same_routing :: "cref \<Rightarrow> ('s, 'd, 'r) manager \<Rightarrow> ('s, 'd, 'r) manager \<Rightarrow> bool" where
  "same_routing p m m' \<longleftrightarrow> m_conns m' = m_conns m \<and> m_multiGroups m' = m_multiGroups m
     \<and> (\<forall>q. q \<noteq> p \<longrightarrow> (\<exists>n. m_heap m' q = (m_heap m q)\<lparr>c_PendingWrites := n\<rparr>))"

lemma conn_pending_same [simp]: "\<exists>n. c = c\<lparr>c_PendingWrites := n\<rparr>"
  by (rule exI [of _ "c_PendingWrites c"]) simp

lemma same_routing_heap: "m_conns m' = m_conns m \<Longrightarrow> m_multiGroups m' = m_multiGroups m \<Longrightarrow> m_heap m' = m_heap m \<Longrightarrow> same_routing p m m'"
  by (simp add: same_routing_def)

lemma run_write_begin:
  "run_state (write_begin q p ty data) m = (c_PendingWrites (m_heap m q) < maxPendingWrites,
     m\<lparr>m_heap := (m_heap m)(q := (m_heap m q)\<lparr>c_PendingWrites := c_PendingWrites (m_heap m q) + 1\<rparr>),
       m_out := m_out m @ [delivery_of (m_heap m) q p ty data]\<rparr>)"
  by (auto simp: write_begin_def relay_simps delivery_of_def)

lemma GetBufferedMessages_frame:
  "m_heap (after (GetBufferedMessages u) m) = m_heap m" "m_conns (after (GetBufferedMessages u) m) = m_conns m"
  "m_multiGroups (after (GetBufferedMessages u) m) = m_multiGroups m" "m_store (after (GetBufferedMessages u) m) = m_store m"
  "m_db (after (GetBufferedMessages u) m) = m_db m"
  by (auto simp: GetBufferedMessages_def relay_simps split: option.splits)

lemma ClearBuffer_frame:
  "m_heap (after (ClearBuffer u) m) = m_heap m" "m_conns (after (ClearBuffer u) m) = m_conns m"
  "m_multiGroups (after (ClearBuffer u) m) = m_multiGroups m" "m_store (after (ClearBuffer u) m) = m_store m"
  "m_db (after (ClearBuffer u) m) = m_db m"
  by (auto simp: ClearBuffer_def relay_simps split: option.splits)

context relay_backend
begin

lemma IsPaired_heap:
  "m_heap (after (IsPaired B p) m) = m_heap m" "m_conns (after (IsPaired B p) m) = m_conns m"
  by (auto simp: IsPaired_def relay_simps)

lemma silent_piece:
  assumes W: "si_backend W = B" and g: "good m" and k: "wf_pc k" "silent k"
    and run: "run_state (advance W p k) m = (k', m')"
  shows "good m' \<and> same_routing p m m' \<and> waiting (m_store m') = waiting (m_store m) \<and> peers (m_store m') = peers (m_store m)
    \<and> quiet (settled k' (m_heap m' p)) = quiet (settled k (m_heap m p))"
proof -
  have i: "inv (m_store m)" using g by (simp add: good_def)
  note [simp] = W
  show ?thesis using run k
  proof (cases "(W, p, k)" rule: advance.cases)
    case (1 W' p' rd ty data)
    then show ?thesis using run W g IsPaired_run [OF i, of p] IsPaired_heap [of p m]
      by (auto simp: advance_simps good_def abs_def same_routing_heap split: option.splits message.splits)
  next
    case (2 W' p' rd ty data)
    then show ?thesis using run g allow_message_frame [of rd "c_ID (m_heap m p)" m]
      by (auto simp: advance_simps good_def same_routing_heap routing_of_def)
  next
    case (3 W' p' rd ty data)
    then show ?thesis using run W g st.GetPeer_law [OF i, of "c_ID (m_heap m p)"]
      by (auto simp: find_targets_route [OF i st.store_axioms] good_def same_routing_heap split: if_splits)
  next
    case (8 W' p' rd u i mc)
    then show ?thesis using run W g sql.CanRegister_run [OF prod.collapse [symmetric], of u i "m_db m"]
      by (auto simp: advance_simps good_def same_routing_heap)
  next
    case (9 W' p' rd u i mc)
    then show ?thesis using run W g k sql.Register_run [OF prod.collapse [symmetric], of "at_reg rd" u i "m_db m"]
      by (cases "result (Register (b_sql B) (at_reg rd) u i) (m_db m)")
        (auto simp: advance_simps good_def same_routing_heap split: if_splits)
  next
    case (14 W' p' rd u)
    then show ?thesis using run W g IsRegistered_frame [of u "m_db m"]
      by (auto simp: advance_simps good_def same_routing_heap)
  next
    case (16 W' p' rd u i)
    then show ?thesis using run W g sql.UpdateLastSeen_run [of "at_reg rd" u "m_db m"]
      by (auto simp: advance_simps good_def same_routing_heap)
  next
    case (20 W' p' u)
    then show ?thesis using run g GetBufferedMessages_frame [of u m]
      by (auto simp: split_def good_def same_routing_heap)
  next
    case (21 W' p' u)
    then show ?thesis using run g ClearBuffer_frame [of u m]
      by (auto simp: split_def good_def same_routing_heap)
  qed (use g in \<open>auto simp: advance_simps good_def same_routing_def run_write_begin write_end_def push_frame_def\<close>)
qed

end

section \<open>What a goroutine relies on\<close>

text \<open>Between the pieces of a handshake: no group lists the connection as a client; once it has joined a group it
  carries its client id and username, which \<open>attach\<close> has written.\<close>
fun at_ok :: "pc \<Rightarrow> cref \<Rightarrow> conn \<Rightarrow> routing \<Rightarrow> bool" where
  "at_ok (RegCheck rd u i mc) p c R = unjoined p R"
| "at_ok (RegInsert rd u i mc) p c R = unjoined p R"
| "at_ok (RegEnter rd u i mc) p c R = unjoined p R"
| "at_ok (RegName rd u i mc) p c R = unjoined p R"
| "at_ok (RegRole rd u i mc) p c R = unjoined p R"
| "at_ok (RegMulti rd u i mc) p c R = unjoined p R"
| "at_ok (ConCheck rd u) p c R = unjoined p R"
| "at_ok (ConAttach rd u) p c R = unjoined p R"
| "at_ok (ConSeen rd u i) p c R = (i \<noteq> [] \<longrightarrow> c_ClientID c = i \<and> c_Username c = u)"
| "at_ok (ConName u i) p c R = (i \<noteq> [] \<longrightarrow> c_ClientID c = i \<and> c_Username c = u)"
| "at_ok (ConRole u i) p c R = (i \<noteq> [] \<longrightarrow> c_ClientID c = i \<and> c_Username c = u)"
| "at_ok (ConId u i) p c R = (i \<noteq> [] \<longrightarrow> c_ClientID c = i \<and> c_Username c = u)"
| "at_ok (Say es k) p c R = at_ok k p c R"
| "at_ok k p c R = True"

lemma at_ok_mono:
  assumes "at_ok k p c R" "unjoined p R \<Longrightarrow> unjoined p R'"
  shows "at_ok k p (c\<lparr>c_PendingWrites := n\<rparr>) R'"
  using assms by (induction k p c R rule: at_ok.induct) auto

lemma at_ok_after [simp]: "after_writes k \<Longrightarrow> at_ok k p c R"
  by (cases k) simp_all

lemma at_ok_plain [simp]:
  "at_ok (refuse_server p r) q c R" "at_ok (refuse_client p st) q c R"
  "unjoined q R \<Longrightarrow> at_ok (admit W p rd x) q c R"
  by (auto simp: refuse_server_def refuse_client_def admit_def split: prod.splits)

text \<open>A step of the routing machine in which \<open>p\<close> neither registers nor connects adds it to no group.\<close>
lemma rt_step_unjoined:
  assumes "rt_step order exact D act R act' R'" "\<not> D p" "unjoined p R"
  shows "unjoined p R'"
  using assms
proof cases
  case (register q u mc)
  then show ?thesis using assms(3) by (simp add: unjoined_def rt_registered_parts(3))
next
  case (connect q i mc u)
  then have "p \<noteq> q" using assms(2) by blast
  then show ?thesis using connect assms(3)
    by (auto simp: unjoined_def rt_connected_as_def set_conn_def rt_join_def rt_pair_def Let_def split: option.splits if_splits)
next
  case (close q)
  have "rt_leave q g R = x \<Longrightarrow> rt_groups R (c_Username (rt_heap R q)) = Some g \<Longrightarrow> unjoined p (fst x)" for g x
    using assms(3) by (auto simp: unjoined_def rt_leave_def Let_def split: if_splits)
  moreover have "unjoined p (fst (rt_disband order q g R))" "unjoined p (fst (snd (rt_unpair q R)))" for g
    using assms(3) by (auto simp: unjoined_def rt_disband_def rt_unpair_def Let_def split: option.splits if_splits)
  ultimately show ?thesis using close assms(3) by (auto simp: rt_close_def Let_def split: option.splits)
qed (use assms(3) in \<open>simp_all add: unjoined_def set_conn_def rt_forget_def\<close>)

section \<open>The simulation\<close>

definition settled_heap :: "('s, 'd, 'r) pool \<Rightarrow> cref \<Rightarrow> conn" where
  "settled_heap s = (\<lambda>p. quiet (settled (po_pc s p) (m_heap (po_mgr s) p)))"

lemma settled_heap_ID [simp]: "c_ID (settled_heap s p) = c_ID (m_heap (po_mgr s) p)"
  by (simp add: settled_heap_def)

lemma serving_upd: "serving \<lparr>po_mgr = m', po_pc = (po_pc s)(p := k)\<rparr> = (serving s)(p := serving_pc k)"
  by (simp add: fun_eq_iff serving_def)

lemma silent_serving:
  assumes "wf_pc k" "silent k" "busy k" "run_state (advance W p k) m = (k', m')"
  shows "serving_pc k' = serving_pc k"
proof -
  have "after_writes j \<Longrightarrow> serving_pc j" for j by (cases j) simp_all
  then show ?thesis using assms
    by (cases "(W, p, k)" rule: advance.cases)
      (auto simp: advance_simps busy_def refuse_server_def refuse_client_def admit_def
        split: message.splits option.splits prod.splits if_splits)
qed

context relay_backend
begin

definition view :: "('s, 'd, 'r) pool \<Rightarrow> routing" where
  "view s = (abs (po_mgr s))\<lparr>rt_heap := settled_heap s\<rparr>"

definition sound_pool :: "('s, 'd, 'r) pool \<Rightarrow> bool" where
  "sound_pool s \<longleftrightarrow> good (po_mgr s) \<and> base_inv (serving s) (view s)
     \<and> (\<forall>p. wf_pc (po_pc s p) \<and> at_ok (po_pc s p) p (m_heap (po_mgr s) p) (view s))"

lemma view_simps [simp]:
  "rt_heap (view s) = settled_heap s" "rt_conns (view s) = m_conns (po_mgr s)" "rt_groups (view s) = m_multiGroups (po_mgr s)"
  "rt_waiting (view s) = waiting (m_store (po_mgr s))" "rt_peers (view s) = peers (m_store (po_mgr s))"
  by (simp_all add: view_def abs_def)

lemma sound_poolD:
  assumes "sound_pool s"
  shows "good (po_mgr s)" "base_inv (serving s) (view s)" "wf_pc (po_pc s p)" "at_ok (po_pc s p) p (m_heap (po_mgr s) p) (view s)"
    "waits_ok (waiting (m_store (po_mgr s)))" "peers_ok (peers (m_store (po_mgr s)))" "inv (m_store (po_mgr s))"
    "serving s p \<Longrightarrow> c_ID (m_heap (po_mgr s) p) \<noteq> []"
  using assms base_invD(4,5) [of "serving s" "view s"] base_idsD(1) [of "serving s" "view s" p]
  by (auto simp: sound_pool_def good_def)

lemma view_same:
  assumes "same_routing p (po_mgr s) m'" "waiting (m_store m') = waiting (m_store (po_mgr s))"
    "peers (m_store m') = peers (m_store (po_mgr s))"
    "quiet (settled k' (m_heap m' p)) = quiet (settled (po_pc s p) (m_heap (po_mgr s) p))"
  shows "view \<lparr>po_mgr = m', po_pc = (po_pc s)(p := k')\<rparr> = view s"
proof -
  have "settled_heap \<lparr>po_mgr = m', po_pc = (po_pc s)(p := k')\<rparr> q = settled_heap s q" for q
  proof (cases "q = p")
    case False
    then obtain n where "m_heap m' q = (m_heap (po_mgr s) q)\<lparr>c_PendingWrites := n\<rparr>"
      using assms(1) by (auto simp: same_routing_def)
    then show ?thesis using False by (simp add: settled_heap_def)
  qed (simp add: settled_heap_def assms(4))
  then show ?thesis using assms(1-3) by (simp add: view_def abs_def same_routing_def fun_eq_iff)
qed

lemma silent_at_ok:
  assumes W: "si_backend W = B" and s: "sound_pool s" and k: "po_pc s p = k" "silent k" "busy k"
    and run: "run_state (advance W p k) (po_mgr s) = (k', m')"
  shows "at_ok k' p (m_heap m' p) (view s)"
proof -
  note ok = sound_poolD(3,4) [OF s, of p, unfolded k(1)]
  show ?thesis using run k ok
  proof (cases "(W, p, k)" rule: advance.cases)
    case (1 W' p' rd ty data)
    have "settled_heap s p = quiet (m_heap (po_mgr s) p)" using k 1 by (simp add: settled_heap_def)
    then have "rt_paired p (view s) = rt_paired p (abs (po_mgr s))" by (simp add: rt_paired_def abs_def Let_def cong: option.case_cong)
    then have "\<not> result (IsPaired B p) (po_mgr s) \<Longrightarrow> unjoined p (view s)"
      using IsPaired_run [OF sound_poolD(7) [OF s], of p] unpaired_unjoined [OF sound_poolD(2) [OF s], of p] by simp
    then show ?thesis using run 1 W
      by (auto simp: advance_simps split: option.splits message.splits)
  qed (auto simp: advance_simps write_end_def split: if_splits)
qed

lemma enter_simulated:
  assumes W: "si_backend W = B" and s: "sound_pool s" and k: "po_pc s p = RegEnter rd u i mc"
    and run: "run_state (advance W p (RegEnter rd u i mc)) (po_mgr s) = (k', m')"
  defines "s' \<equiv> \<lparr>po_mgr = m', po_pc = (po_pc s)(p := k')\<rparr>"
  shows "view s' = rt_registered p u mc (view s)" "good m'" "m_heap m' = m_heap (po_mgr s)"
    "\<exists>es. k' = Say es (RegName rd u i mc)"
proof -
  obtain e m1 where e: "run_state (enter_waiting B p u) (po_mgr s) = (e, m1)" by force
  note f = enter_waiting_refines [OF sound_poolD(7) [OF s] e]
  have k': "k' = Say (eviction e) (RegName rd u i mc)" "m' = m1" using run e W by simp_all
  then show "\<exists>es. k' = Say es (RegName rd u i mc)" "m_heap m' = m_heap (po_mgr s)" "good m'"
    using f sound_poolD(1) [OF s] by (auto simp: good_def)
  have h: "settled_heap s' = (settled_heap s)(p := (settled_heap s p)\<lparr>c_Username := u, c_IsServer := True, c_MultiClient := mc\<rparr>)"
    using f k k' by (auto simp: fun_eq_iff settled_heap_def s'_def quiet_def)
  have "fst (rt_register p u (view s)) = (abs m1)\<lparr>rt_heap := settled_heap s\<rparr>"
    unfolding view_def using f by (subst rt_register_heap) (auto simp: abs_def dest: sym)
  then show "view s' = rt_registered p u mc (view s)"
    by (simp add: rt_registered_def set_conn_def view_def [of s'] h) (simp add: s'_def k')
qed

lemma attach_simulated:
  assumes W: "si_backend W = B" and s: "sound_pool s" and k: "po_pc s p = ConAttach rd u"
    and run: "run_state (advance W p (ConAttach rd u)) (po_mgr s) = (k', m')" and fresh: "new_clientID rd \<noteq> []"
  defines "s' \<equiv> \<lparr>po_mgr = m', po_pc = (po_pc s)(p := k')\<rparr>"
  shows "view s' = rt_connected_as (waiting_multi (abs (po_mgr s)) u) p u (new_clientID rd) (view s)" "good m'"
    "q \<noteq> p \<Longrightarrow> m_heap m' q = m_heap (po_mgr s) q" "at_ok k' p (m_heap m' p) R" "wf_pc k'" "serving_pc k'"
proof -
  obtain a m1 where a: "run_state (attach B rd p u) (po_mgr s) = (a, m1)" by force
  note f = attach_refines [OF sound_poolD(7) [OF s] sound_poolD(5) [OF s] a]
  have m': "m' = m1" "k' = (case a of NoServer \<Rightarrow> refuse_client p ''server_offline''
      | Joined q i \<Rightarrow> Say [Write q MessageText (json_render (json_of_RelayClientJoined (NewRelayClientJoined i)))] (ConSeen rd u i)
      | Paired q \<Rightarrow> ConSeen rd u [])" using run a W by simp_all
  show "good m'" using f sound_poolD(1) [OF s] by (auto simp: good_def m')
  show "wf_pc k'" "serving_pc k'" by (auto simp: m' refuse_client_def split: attachment.splits)
  have con: "rt_connect p u (new_clientID rd) (abs (po_mgr s)) = (connection_result a, abs m1, joined_notice a)" using f by simp
  have heap: "m_heap m1 = (case a of Joined q i \<Rightarrow> (m_heap (po_mgr s))(p := (m_heap (po_mgr s) p)\<lparr>c_ClientID := i, c_Username := u\<rparr>)
      | _ \<Rightarrow> m_heap (po_mgr s))"
    using con by (auto simp: rt_connect_def rt_join_def rt_pair_def abs_def Let_def refused_def split: option.splits if_splits attachment.splits)
  then show "q \<noteq> p \<Longrightarrow> m_heap m' q = m_heap (po_mgr s) q" by (simp add: m' split: attachment.splits)
  show "at_ok k' p (m_heap m' p) R" by (auto simp: m' heap split: attachment.splits)
  have h: "settled_heap s' = (if cr_Status (connection_result a) = ''connected''
      then (settled_heap s)(p := (settled_heap s p)\<lparr>c_Username := u, c_IsServer := False, c_ClientID := cr_ClientID (connection_result a)\<rparr>)
      else settled_heap s)"
    using heap k by (auto simp: fun_eq_iff settled_heap_def s'_def m' quiet_def refused_def split: attachment.splits)
  have "rt_connected_as (waiting_multi (abs (po_mgr s)) u) p u (new_clientID rd) (view s) = (abs m1)\<lparr>rt_heap := settled_heap s'\<rparr>"
    unfolding h view_def by (rule rt_connect_heap [OF con]) (simp add: abs_def)
  then show "view s' = rt_connected_as (waiting_multi (abs (po_mgr s)) u) p u (new_clientID rd) (view s)"
    by (simp add: view_def s'_def m')
qed

lemma detach_simulated:
  assumes W: "si_backend W = B" and s: "sound_pool s" and k: "po_pc s p = AtDefer"
    and run: "run_state (advance W p AtDefer) (po_mgr s) = (k', m')"
  defines "s' \<equiv> \<lparr>po_mgr = m', po_pc = (po_pc s)(p := k')\<rparr>"
  shows "view s' = fst (snd (rt_close (b_order B) p (view s)))" "good m'" "m_heap m' = m_heap (po_mgr s)"
    "\<exists>es. k' = Say es Ended"
proof -
  have "serving s p" using k by (simp add: serving_def)
  note id = sound_poolD(8) [OF s this]
  obtain r es m1 where d: "run_state (detach B p) (po_mgr s) = ((r, es), m1)" by (metis surj_pair)
  note f = detach_refines [OF sound_poolD(7) [OF s] sound_poolD(6) [OF s] id d]
  have k': "k' = Say (es @ [CloseNow p]) Ended" "m' = m1" using run d W by simp_all
  then show "\<exists>es. k' = Say es Ended" "good m'" using f sound_poolD(1) [OF s] by (auto simp: good_def)
  have heap: "rt_heap (fst (snd (rt_close (b_order B) p R))) = rt_heap R" for R
    by (auto simp: rt_close_def rt_leave_def rt_disband_def rt_unpair_def Let_def split: option.splits)
  have m1: "fst (snd (rt_close (b_order B) p (abs (po_mgr s)))) = abs m1" using f by (metis fst_conv snd_conv)
  then show same: "m_heap m' = m_heap (po_mgr s)" using heap [of "abs (po_mgr s)"] k' by (simp add: abs_def)
  have "fst (snd (rt_close (b_order B) p (view s))) = (abs m1)\<lparr>rt_heap := settled_heap s\<rparr>"
    unfolding view_def m1 [symmetric]
    by (rule rt_close_heap) (simp_all add: settled_heap_def abs_def k)
  moreover have "settled_heap s' = settled_heap s" using same k k' by (auto simp: fun_eq_iff settled_heap_def s'_def)
  ultimately show "view s' = fst (snd (rt_close (b_order B) p (view s)))" by (simp add: view_def s'_def k')
qed

text \<open>The pieces that register or connect, as the routing machine sees it.\<close>
definition handshaking :: "pc \<Rightarrow> bool" where
  "handshaking k \<longleftrightarrow> (case k of RegEnter rd u i mc \<Rightarrow> True | ConAttach rd u \<Rightarrow> True | _ \<Rightarrow> False)"

lemma run_simulated:
  assumes W: "si_backend W = B" and s: "sound_pool s" and k: "po_pc s p = k" "busy k" "draws_fresh (po_mgr s) k"
    and run: "run_state (advance W p k) (po_mgr s) = (k', m')"
    and D: "handshaking k \<Longrightarrow> D p"
    and E: "\<And>rd u. exact \<Longrightarrow> k = ConAttach rd u \<Longrightarrow> waiting_multi (abs (po_mgr s)) u = waiting_multi (view s) u"
  defines "s' \<equiv> \<lparr>po_mgr = m', po_pc = (po_pc s)(p := k')\<rparr>"
  shows "rt_step (b_order B) exact D (serving s) (view s) (serving s') (view s') \<and> good m'
    \<and> (\<forall>q. q \<noteq> p \<longrightarrow> (\<exists>n. m_heap m' q = (m_heap (po_mgr s) q)\<lparr>c_PendingWrites := n\<rparr>))
    \<and> at_ok k' p (m_heap m' p) (view s')"
proof -
  have wf: "wf_pc k" using sound_poolD(3) [OF s, of p] k by simp
  have serv: "serving s p" if "handshaking k \<or> k = AtDefer"
    using that k(1) by (auto simp: serving_def handshaking_def split: pc.splits)
  consider (silent) "silent k" | (enter) rd u i mc where "k = RegEnter rd u i mc"
    | (attach) rd u where "k = ConAttach rd u" | (detach) "k = AtDefer"
    by (cases k) simp_all
  then show ?thesis
  proof cases
    case silent
    note f = silent_piece [OF W sound_poolD(1) [OF s] wf silent run]
    have "view s' = view s" unfolding s'_def using f k by (intro view_same) simp_all
    moreover have "serving s' = serving s"
      using silent_serving [OF wf silent k(2) run] k(1) by (auto simp: s'_def serving_upd fun_eq_iff serving_def)
    ultimately show ?thesis using f silent_at_ok [OF W s k(1) silent k(2) run] by (simp add: rt_step.stays same_routing_def)
  next
    case (enter rd u i mc)
    note f = enter_simulated [OF W s k(1) [unfolded enter] run [unfolded enter], folded s'_def]
    have u: "unjoined p (view s)" "IsValidUsername u" using sound_poolD(3,4) [OF s, of p] k(1) enter by simp_all
    moreover have "serving s' = serving s" using f(4) k(1) enter by (auto simp: s'_def serving_upd fun_eq_iff serving_def)
    ultimately have "rt_step (b_order B) exact D (serving s) (view s) (serving s') (view s')"
      using f(1) D serv enter by (auto simp: handshaking_def intro!: rt_step.register)
    moreover have "unjoined p (view s')" using u(1) by (simp add: f(1) unjoined_def rt_registered_parts(3))
    ultimately show ?thesis using f(2-4) by auto
  next
    case (attach rd u)
    have u: "new_clientID rd \<noteq> []" "\<forall>v g. rt_groups (view s) v = Some g \<longrightarrow> g_clients g (new_clientID rd) = None"
      using k(3) attach by (simp_all add: draws_fresh_def unused_client_def)
    note f = attach_simulated [OF W s k(1) [unfolded attach] run [unfolded attach] u(1), folded s'_def]
    have "unjoined p (view s)" using sound_poolD(4) [OF s, of p] k(1) attach by simp
    moreover have "serving s' = serving s" using f(6) k(1) attach by (auto simp: s'_def serving_upd fun_eq_iff serving_def)
    ultimately have "rt_step (b_order B) exact D (serving s) (view s) (serving s') (view s')"
      using f(1) D serv attach u E by (auto simp: handshaking_def intro!: rt_step.connect)
    then show ?thesis using f(2-4) by simp
  next
    case detach
    note f = detach_simulated [OF W s k(1) [unfolded detach] run [unfolded detach], folded s'_def]
    have "serving s' = (\<lambda>q. serving s q \<and> q \<noteq> p)" using f(4) by (auto simp: s'_def serving_upd fun_eq_iff)
    then have "rt_step (b_order B) exact D (serving s) (view s) (serving s') (view s')"
      using f(1) serv detach by (auto intro!: rt_step.close)
    then show ?thesis using f(2-4) by auto
  qed
qed

lemma tick_simulated:
  assumes W: "si_backend W = B" and s: "sound_pool s" and t: "tick W s a s'"
    and D: "\<And>p. a = Run p \<Longrightarrow> handshaking (po_pc s p) \<Longrightarrow> D p"
    and E: "\<And>p rd u. exact \<Longrightarrow> a = Run p \<Longrightarrow> po_pc s p = ConAttach rd u \<Longrightarrow>
        waiting_multi (abs (po_mgr s)) u = waiting_multi (view s) u" "exact \<Longrightarrow> a \<noteq> Stop"
  shows "rt_step (b_order B) exact D (serving s) (view s) (serving s') (view s') \<and> good (po_mgr s')"
  using t
proof cases
  case (tick_accept p uid m')
  have "settled_heap s' = (settled_heap s)(p := NewConn uid)"
    using tick_accept by (auto simp: fun_eq_iff settled_heap_def relay_simps quiet_def NewConn_def)
  then have "view s' = set_conn p (\<lambda>_. NewConn uid) (view s)"
    using tick_accept by (simp add: view_def set_conn_def relay_simps abs_def)
  moreover have "serving s' = (\<lambda>q. serving s q \<or> q = p)" "\<not> serving s p"
    using tick_accept by (auto simp: serving_upd serving_def fun_eq_iff)
  ultimately show ?thesis using tick_accept sound_poolD(1) [OF s]
    by (auto simp: unused_id_def relay_simps intro!: rt_step.accept)
next
  case (tick_arrive p rd ty data)
  then have "settled_heap s' = settled_heap s" "serving s' = serving s"
    by (auto simp: fun_eq_iff settled_heap_def serving_def)
  then show ?thesis using tick_arrive sound_poolD(1) [OF s] by (simp add: view_def rt_step.stays)
next
  case (tick_fails p)
  then have "settled_heap s' = settled_heap s" "serving s' = serving s"
    by (auto simp: fun_eq_iff settled_heap_def serving_def)
  then show ?thesis using tick_fails sound_poolD(1) [OF s] by (simp add: view_def rt_step.stays)
next
  case (tick_run p k m')
  then show ?thesis
    using run_simulated [OF W s refl tick_run(3,4,5), where D = D and exact = exact] D E(1) by simp
next
  case (tick_ping p m' pong)
  then have "settled_heap s' = settled_heap s" "serving s' = serving s" "abs m' = abs (po_mgr s)" "good m'"
    using ping_abs [OF sound_poolD(1) [OF s], of pong p] W
    by (auto simp: fun_eq_iff settled_heap_def serving_def abs_def)
  then show ?thesis using tick_ping by (simp add: view_def rt_step.stays)
next
  case (tick_sweep m' now)
  then have "settled_heap s' = settled_heap s" "serving s' = serving s"
    by (auto simp: fun_eq_iff settled_heap_def serving_def)
  then show ?thesis using tick_sweep sound_poolD(1) [OF s] by (simp add: view_def rt_step.stays)
next
  case (tick_http S r m' h)
  then have "abs m' = abs (po_mgr s)" "good m'"
    using http_keeps [OF sound_poolD(1) [OF s], of S r h] W by simp_all
  moreover from this have "settled_heap s' = settled_heap s" "serving s' = serving s"
    using tick_http by (auto simp: fun_eq_iff settled_heap_def serving_def abs_def)
  ultimately show ?thesis using tick_http by (simp add: view_def rt_step.stays)
next
  case (tick_stop m')
  have m': "m_conns m' = Map.empty" "m_multiGroups m' = Map.empty" "m_heap m' = m_heap (po_mgr s)" "m_store m' = m_store (po_mgr s)"
    "m_db m' = m_db (po_mgr s)" using tick_stop by (simp_all add: CloseAll_def relay_simps Let_def)
  then have "settled_heap s' = settled_heap s" "serving s' = serving s"
    using tick_stop by (auto simp: fun_eq_iff settled_heap_def serving_def)
  then have "view s' = rt_forget (view s)" using tick_stop m' by (simp add: view_def rt_forget_def abs_def)
  then show ?thesis using tick_stop m' E(2) sound_poolD(1) [OF s] \<open>serving s' = serving s\<close>
    by (auto simp: good_def intro!: rt_step.forget)
qed

text \<open>The goroutine a tick belongs to.\<close>
definition runner :: "act \<Rightarrow> cref \<Rightarrow> bool" where
  "runner a p \<longleftrightarrow> a = Run p"

lemma tick_others:
  assumes W: "si_backend W = B" and s: "sound_pool s" and t: "tick W s a s'" and q: "\<not> runner a q"
  shows "wf_pc (po_pc s' q) \<and> at_ok (po_pc s' q) q (m_heap (po_mgr s') q) (view s')"
proof -
  have "rt_step (b_order B) False (runner a) (serving s) (view s) (serving s') (view s')"
    using tick_simulated [OF W s t, where exact = False and D = "runner a"] by (simp add: runner_def)
  note u = rt_step_unjoined [OF this q]
  note ok = sound_poolD(3,4) [OF s, of q]
  have same: ?thesis if "po_pc s' q = po_pc s q" "\<exists>n. m_heap (po_mgr s') q = (m_heap (po_mgr s) q)\<lparr>c_PendingWrites := n\<rparr>"
    using that ok at_ok_mono u by auto
  show ?thesis using t
  proof cases
    case (tick_accept p uid m')
    then show ?thesis using same by (cases "q = p") (simp_all add: relay_simps)
  next
    case (tick_arrive p rd ty data)
    then show ?thesis using same by (cases "q = p") simp_all
  next
    case (tick_fails p)
    then show ?thesis using same by (cases "q = p") simp_all
  next
    case (tick_run p k m')
    then have "q \<noteq> p" using q by (auto simp: runner_def)
    then show ?thesis using same tick_run
        run_simulated [OF W s refl tick_run(3,4,5), where D = "\<lambda>_. True" and exact = False] by simp
  next
    case (tick_ping p m' pong)
    then show ?thesis using same ping_abs [OF sound_poolD(1) [OF s], of pong p] W by (simp add: abs_def)
  next
    case (tick_sweep m' now)
    then show ?thesis using same by simp
  next
    case (tick_http S r m' h)
    then show ?thesis using same http_keeps [OF sound_poolD(1) [OF s], of S r h] W by (simp add: abs_def)
  next
    case (tick_stop m')
    then show ?thesis using same by (simp add: CloseAll_def relay_simps Let_def)
  qed
qed

lemma tick_sound:
  assumes W: "si_backend W = B" and s: "sound_pool s" and t: "tick W s a s'"
  shows "sound_pool s'"
proof -
  have "rt_step (b_order B) False (\<lambda>_. True) (serving s) (view s) (serving s') (view s') \<and> good (po_mgr s')"
    using tick_simulated [OF W s t, where exact = False] by simp
  moreover have "wf_pc (po_pc s' q) \<and> at_ok (po_pc s' q) q (m_heap (po_mgr s') q) (view s')" for q
  proof (cases "runner a q")
    case False
    then show ?thesis by (rule tick_others [OF W s t])
  next
    case True
    then have a: "a = Run q" by (simp add: runner_def)
    obtain k m' where r: "s' = \<lparr>po_mgr = m', po_pc = (po_pc s)(q := k)\<rparr>" "busy (po_pc s q)"
        "draws_fresh (po_mgr s) (po_pc s q)" "run_state (advance W q (po_pc s q)) (po_mgr s) = (k, m')"
      using t unfolding a tick_run_iff by blast
    have "wf_pc k" using advance_wf [OF sound_poolD(3) [OF s, of q], of W q "po_mgr s"] r by simp
    then show ?thesis
      using run_simulated [OF W s refl r(2-4), where D = "\<lambda>_. True" and exact = False] r(1) by simp
  qed
  ultimately show ?thesis using rt_step_base sound_poolD(2) [OF s] by (auto simp: sound_pool_def)
qed

lemma start_sound:
  assumes "start waiting peers inv tbl m0"
  shows "sound_pool \<lparr>po_mgr = m0, po_pc = \<lambda>_. Idle\<rparr>" "once_inv (serving \<lparr>po_mgr = m0, po_pc = \<lambda>_. Idle\<rparr>) (view \<lparr>po_mgr = m0, po_pc = \<lambda>_. Idle\<rparr>)"
proof -
  define s where "s = \<lparr>po_mgr = m0, po_pc = \<lambda>_. Idle\<rparr>"
  have "serving s = (\<lambda>_. False)" by (simp add: fun_eq_iff serving_def s_def)
  then have o: "once_inv (serving s) (view s)"
    using assms
    by (auto simp: start_def idle_def once_inv_def base_inv_def conns_inv_def groups_inv_def ids_inv_def s_def
        fresh_inv_def wait_inv_def pair_inv_def lead_inv_def waits_ok_def peers_ok_def sym_peers_def)
  then show "once_inv (serving \<lparr>po_mgr = m0, po_pc = \<lambda>_. Idle\<rparr>) (view \<lparr>po_mgr = m0, po_pc = \<lambda>_. Idle\<rparr>)" by (simp add: s_def)
  show "sound_pool \<lparr>po_mgr = m0, po_pc = \<lambda>_. Idle\<rparr>"
    using start_inv(1) [OF assms] once_invD(1) [OF o] by (simp add: sound_pool_def s_def)
qed

lemma runs_sound:
  assumes "si_backend W = B" "start waiting peers inv tbl m0" "runs W G m0 s"
  shows "sound_pool s"
  using assms(3)
proof induction
  case runs_init
  show ?case by (rule start_sound(1) [OF assms(2)])
next
  case (runs_tick s a s')
  then show ?case using tick_sound [OF assms(1)] by blast
qed

end

end
