(* ===== verification/Interleaving_Once.thy ===== *)
theory Interleaving_Once
  imports Interleaving_Inv
begin

text \<open>
  Orderly runs, which restrict the peers and the schedule: an unpaired connection that has a username sends no
  further handshake message, no client is attached to a username whose multi-client server is entered but not
  marked yet, and there is no shutdown. Along such runs the routing machine keeps \<open>once_inv\<close>, and every write under way goes to
  a connection of the sender's username on the other side.
\<close>

section \<open>Orderly runs\<close>

text \<open>A multi-client server of the username has been entered as waiting and is not marked yet.\<close>
fun marking :: "pc \<Rightarrow> string \<Rightarrow> bool" where
  "marking (RegName rd u i mc) v = (u = v \<and> mc)"
| "marking (RegRole rd u i mc) v = (u = v \<and> mc)"
| "marking (RegMulti rd u i mc) v = (u = v \<and> mc)"
| "marking (Say es k) v = marking k v"
| "marking k v = False"

text \<open>The discipline under which the routing state stays consistent. Three kinds of step are excluded: a connection
  with a username that is not paired gets no second handshake message handled; the critical section of
  \<open>ConnectClient\<close> does not run while a multi-client server of the username is between its entry and its marking;
  and the relay is not shut down. Everything else may happen, in any order.\<close>
definition orderly :: "('s, 'd) site \<Rightarrow> ('s, 'd, 'r) pool \<Rightarrow> act \<Rightarrow> bool" where
  "orderly W s a =
     (case a of
        Run p \<Rightarrow>
          (case po_pc s p of
             Dispatch rd ty data \<Rightarrow>
               c_Username (m_heap (po_mgr s) p) = [] \<or> result (IsPaired (si_backend W) p) (po_mgr s)
               \<or> ty \<noteq> MessageText \<or> ParseMessage data = None
           | ConAttach rd u \<Rightarrow> \<forall>q. \<not> marking (po_pc s q) u
           | _ \<Rightarrow> True)
      | Stop \<Rightarrow> False
      | _ \<Rightarrow> True)"

section \<open>What a goroutine relies on\<close>

fun at_once :: "pc \<Rightarrow> conn \<Rightarrow> bool" where
  "at_once (RegCheck rd u i mc) c = (c_Username c = [])"
| "at_once (RegInsert rd u i mc) c = (c_Username c = [])"
| "at_once (RegEnter rd u i mc) c = (c_Username c = [])"
| "at_once (RegName rd u i mc) c = (\<not> c_MultiClient c)"
| "at_once (RegRole rd u i mc) c = (\<not> c_MultiClient c \<and> c_Username c = u)"
| "at_once (RegMulti rd u i mc) c = (\<not> c_MultiClient c \<and> c_Username c = u)"
| "at_once (ConCheck rd u) c = (c_Username c = [])"
| "at_once (ConAttach rd u) c = (c_Username c = [])"
| "at_once (Say es k) c = at_once k c"
| "at_once k c = True"

lemma at_once_pending [simp]: "at_once k (c\<lparr>c_PendingWrites := n\<rparr>) = at_once k c"
  by (induction k c rule: at_once.induct) simp_all

lemma at_once_after [simp]: "after_writes k \<Longrightarrow> at_once k c"
  by (cases k) simp_all

lemma at_once_plain [simp]:
  "at_once (refuse_server p r) c" "at_once (refuse_client p st) c" "c_Username c = [] \<Longrightarrow> at_once (admit W p rd x) c"
  by (auto simp: refuse_server_def refuse_client_def admit_def split: prod.splits)

lemma unmarked_multi:
  "\<not> marking k u \<Longrightarrow> c_Username (settled k c) = u \<Longrightarrow> at_once k c \<Longrightarrow> c_MultiClient (settled k c) = c_MultiClient c"
  by (induction k c rule: settled.induct) auto

lemma rt_step_heap:
  assumes "rt_step order exact D act R act' R'" "\<not> D q"
  shows "rt_heap R' q = rt_heap R q \<or> \<not> act q \<and> act' q"
  using assms
proof cases
  case (register p u mc)
  then have "q \<noteq> p" using assms(2) by blast
  then show ?thesis using register by (simp add: rt_registered_parts(1))
next
  case (connect p i mc u)
  then have "q \<noteq> p" using assms(2) by blast
  then show ?thesis using connect
    by (auto simp: rt_connected_as_def set_conn_def rt_join_def rt_pair_def Let_def split: option.splits)
next
  case (close p)
  then show ?thesis
    by (auto simp: rt_close_def rt_leave_def rt_disband_def rt_unpair_def Let_def split: option.splits)
qed (auto simp: set_conn_def rt_forget_def)

lemma tick_serving:
  assumes "tick W s a s'" "wf_pc (po_pc s q)" "serving s' q" "po_pc s q \<noteq> Idle"
  shows "serving s q"
  using assms
proof cases
  case (tick_run p k m')
  show ?thesis
  proof (cases "q = p \<and> silent (po_pc s q)")
    case True
    then show ?thesis using silent_serving [OF assms(2) _ _ tick_run(5) [folded conjunct1 [OF True]]] tick_run assms(3)
      by (auto simp: serving_def)
  next
    case False
    then show ?thesis using tick_run assms(3) by (cases "q = p"; cases "po_pc s q") (auto simp: serving_def)
  qed
qed (auto simp: serving_def split: if_splits)

context relay_backend
begin

definition orderly_pool :: "('s, 'd, 'r) pool \<Rightarrow> bool" where
  "orderly_pool s \<longleftrightarrow> sound_pool s \<and> once_inv (serving s) (view s)
     \<and> (\<forall>p. at_once (po_pc s p) (m_heap (po_mgr s) p))"

lemma orderly_exact:
  assumes s: "orderly_pool s" and g: "orderly W s (Run p)" and k: "po_pc s p = ConAttach rd u"
  shows "waiting_multi (abs (po_mgr s)) u = waiting_multi (view s) u"
proof (cases "waiting (m_store (po_mgr s)) u")
  case None
  then show ?thesis by (simp add: waiting_multi_def abs_def)
next
  case (Some i)
  then obtain x where x: "m_conns (po_mgr s) i = Some x" "server_of (view s) x u"
    using s by (auto simp: orderly_pool_def dest!: once_invD(3) elim!: wait_invD)
  have "\<not> marking (po_pc s x) u" using g k by (simp add: orderly_def)
  moreover have "c_Username (settled (po_pc s x) (m_heap (po_mgr s) x)) = u"
    using x(2) by (simp add: server_of_def settled_heap_def)
  moreover have "at_once (po_pc s x) (m_heap (po_mgr s) x)" using s by (simp add: orderly_pool_def)
  ultimately have "c_MultiClient (settled_heap s x) = c_MultiClient (m_heap (po_mgr s) x)"
    using unmarked_multi by (simp add: settled_heap_def)
  then show ?thesis using Some x(1) by (simp add: waiting_multi_def abs_def)
qed

lemma orderly_simulated:
  assumes W: "si_backend W = B" and s: "orderly_pool s" and g: "orderly W s a" and t: "tick W s a s'"
  shows "rt_step (b_order B) True (\<lambda>p. c_Username (settled_heap s p) = []) (serving s) (view s) (serving s') (view s')"
proof -
  have so: "sound_pool s" using s by (simp add: orderly_pool_def)
  have D: "c_Username (settled_heap s p) = []" if "handshaking (po_pc s p)" for p
    using s that unfolding orderly_pool_def
    by (cases "po_pc s p") (auto simp: handshaking_def settled_heap_def dest: spec [of _ p])
  have "a \<noteq> Stop" using g by (auto simp: orderly_def)
  with tick_simulated [OF W so t, where exact = True and D = "\<lambda>p. c_Username (settled_heap s p) = []"]
    D orderly_exact [OF s] g show ?thesis by blast
qed

lemma dispatch_at_once:
  assumes W: "si_backend W = B" and g: "orderly W s (Run p)" and k: "po_pc s p = Dispatch rd ty data"
    and run: "run_state (advance W p (Dispatch rd ty data)) (po_mgr s) = (k', m')"
  shows "at_once k' (m_heap m' p)"
proof -
  define c where "c = m_heap (po_mgr s) p"
  have paired: "result (IsPaired B p) (po_mgr s) \<or> ty \<noteq> MessageText \<or> ParseMessage data = None \<or> c_Username c = []"
    using g k W by (auto simp: orderly_def c_def)
  define j where "j = (if result (IsPaired B p) (po_mgr s) then ForwardAllow rd ty data
      else if ty \<noteq> MessageText then AwaitFrame
      else (case ParseMessage data of None \<Rightarrow> AwaitFrame
        | Some (MServerRegister m) \<Rightarrow> admit W p rd m | Some (MClientConnect m) \<Rightarrow> ConCheck rd (cc_Username m)))"
  have "run_state (advance W p (Dispatch rd ty data)) (po_mgr s) = (j, after (IsPaired B p) (po_mgr s))"
    using W by (simp add: advance_simps j_def)
  then have "k' = j" "m' = after (IsPaired B p) (po_mgr s)" using run by simp_all
  moreover have "at_once j c" unfolding j_def using paired by (auto split: option.split message.split)
  ultimately show ?thesis by (simp add: IsPaired_heap c_def)
qed

lemma silent_at_once:
  assumes "run_state (advance W p k) m = (k', m')" "at_once k (m_heap m p)" "wf_pc k" "silent k"
    "\<And>rd ty data. k \<noteq> Dispatch rd ty data"
  shows "at_once k' (m_heap m' p)"
  using assms
  by (cases "(W, p, k)" rule: advance.cases) (auto simp: advance_simps write_end_def split: if_splits)

text \<open>The goroutine's own next assertion.\<close>
lemma run_at_once:
  assumes W: "si_backend W = B" and s: "orderly_pool s" and g: "orderly W s (Run p)"
    and k: "po_pc s p = k" and run: "run_state (advance W p k) (po_mgr s) = (k', m')"
  shows "at_once k' (m_heap m' p)"
proof -
  define c where "c = m_heap (po_mgr s) p"
  have so: "sound_pool s" and at: "at_once k c" using s k by (auto simp: orderly_pool_def c_def)
  consider (silent) "silent k" "\<And>rd ty data. k \<noteq> Dispatch rd ty data" | (dispatch) rd ty data where "k = Dispatch rd ty data"
    | (enter) rd u i mc where "k = RegEnter rd u i mc" | (attach) rd u where "k = ConAttach rd u" | (detach) "k = AtDefer"
    by (cases k) simp_all
  then show ?thesis
  proof cases
    case silent
    then show ?thesis using silent_at_once [OF run] at sound_poolD(3) [OF so, of p] k by (simp add: c_def)
  next
    case (dispatch rd ty data)
    then show ?thesis using dispatch_at_once [OF W g] k run by simp
  next
    case (enter rd u i mc)
    then have "settled_heap s p = quiet c" "serving s p" using k by (simp_all add: serving_def settled_heap_def c_def)
    then have "\<not> c_MultiClient c" using s at enter by (auto simp: orderly_pool_def once_inv_def fresh_inv_def)
    then show ?thesis using enter_simulated(3,4) [OF W so k [unfolded enter] run [unfolded enter]] by (auto simp: c_def)
  next
    case (attach rd u)
    then show ?thesis using run by (auto simp: split_def split: attachment.splits)
  next
    case detach
    then show ?thesis using run by (auto simp: split_def)
  qed
qed

lemma orderly_tick:
  assumes W: "si_backend W = B" and s: "orderly_pool s" and g: "orderly W s a" and t: "tick W s a s'"
  shows "orderly_pool s'"
proof -
  have so: "sound_pool s" and o: "once_inv (serving s) (view s)" and at: "\<And>p. at_once (po_pc s p) (m_heap (po_mgr s) p)"
    using s by (simp_all add: orderly_pool_def)
  have "once_inv (serving s') (view s')"
    using rt_step_once [of "b_order B" "view s"] orderly_simulated [OF W s g t] o order by simp
  moreover have "at_once (po_pc s' q) (m_heap (po_mgr s') q)" for q
    using t
  proof cases
    case (tick_run p k m')
    show ?thesis
    proof (cases "q = p")
      case True
      then show ?thesis using run_at_once [OF W s _ refl tick_run(5)] g tick_run(1,2) by simp
    next
      case False
      then obtain n where "m_heap m' q = (m_heap (po_mgr s) q)\<lparr>c_PendingWrites := n\<rparr>"
        using run_simulated [OF W so refl tick_run(3-5), where D = "\<lambda>_. True" and exact = False] by auto
      then show ?thesis using False tick_run(2) at [of q] by simp
    qed
  next
    case (tick_ping p m' pong)
    then show ?thesis using at [of q] ping_abs [OF sound_poolD(1) [OF so], of pong p] W by (simp add: abs_def)
  next
    case (tick_http S r m' h)
    then show ?thesis using at [of q] http_keeps [OF sound_poolD(1) [OF so], of S r h] W by (simp add: abs_def)
  next
    case (tick_stop m')
    then show ?thesis using g by (simp add: orderly_def)
  qed (use at [of q] in \<open>auto simp: relay_simps\<close>)
  ultimately show ?thesis using tick_sound [OF W so t] by (simp add: orderly_pool_def)
qed

lemma runs_orderly:
  assumes "si_backend W = B" "start waiting peers inv tbl m0" "runs W (orderly W) m0 s"
  shows "orderly_pool s"
  using assms(3)
proof induction
  case runs_init
  show ?case using start_sound [OF assms(2)] by (simp add: orderly_pool_def)
next
  case (runs_tick s a s')
  then show ?case using orderly_tick [OF assms(1)] by blast
qed

end

section \<open>Writes under way\<close>

text \<open>Two connections of one username, on its two sides.\<close>
definition facing :: "('s, 'd, 'r) pool \<Rightarrow> cref \<Rightarrow> cref \<Rightarrow> bool" where
  "facing s p q \<longleftrightarrow> po_pc s q \<noteq> Idle \<and> c_Username (settled_heap s p) \<noteq> []
     \<and> c_Username (settled_heap s q) = c_Username (settled_heap s p)
     \<and> c_IsServer (settled_heap s q) \<noteq> c_IsServer (settled_heap s p)"

fun writes_left :: "pc \<Rightarrow> (cref \<times> msg_type \<times> bytes) list" where
  "writes_left (ForwardWrites ws j) = ws"
| "writes_left (WriteReturns q ws j) = ws"
| "writes_left k = []"

definition writes_ok :: "('s, 'd, 'r) pool \<Rightarrow> bool" where
  "writes_ok s \<longleftrightarrow> (\<forall>p. \<forall>(q, ty, data) \<in> set (writes_left (po_pc s p)). facing s p q)"

context relay_backend
begin

lemma named_stays:
  assumes W: "si_backend W = B" and s: "orderly_pool s" and g: "orderly W s a" and t: "tick W s a s'"
    and q: "po_pc s q \<noteq> Idle" "c_Username (settled_heap s q) \<noteq> []"
  shows "po_pc s' q \<noteq> Idle" "settled_heap s' q = settled_heap s q"
proof -
  have so: "sound_pool s" using s by (simp add: orderly_pool_def)
  note wf = sound_poolD(3) [OF so, of q]
  show "po_pc s' q \<noteq> Idle"
    using t
  proof cases
    case (tick_run p k m')
    then show ?thesis using advance_not_idle [OF wf, of W p "po_mgr s"] q(1) by auto
  qed (use q(1) in auto)
  from rt_step_heap [OF orderly_simulated [OF W s g t], of q] q(2) tick_serving [OF t wf _ q(1)]
  show "settled_heap s' q = settled_heap s q" by auto
qed

lemma facing_stays:
  assumes "si_backend W = B" "orderly_pool s" "orderly W s a" "tick W s a s'" "facing s p q" "po_pc s p \<noteq> Idle"
  shows "facing s' p q"
  using assms named_stays [OF assms(1-4), of p] named_stays [OF assms(1-4), of q] by (auto simp: facing_def)

lemma found_facing:
  assumes W: "si_backend W = B" and s: "orderly_pool s" and k: "po_pc s p = ForwardFind rd ty data"
    and t: "(q, t, payload) \<in> set (route B (po_mgr s) (peers (m_store (po_mgr s))) p ty data)"
  shows "facing s p q"
proof -
  have o: "once_inv (serving s) (view s)" using s by (simp add: orderly_pool_def)
  define m where "m = (po_mgr s)\<lparr>m_heap := settled_heap s\<rparr>"
  have m: "abs m = view s" by (simp add: m_def view_def)
  have h: "settled_heap s p = quiet (m_heap (po_mgr s) p)" using k by (simp add: settled_heap_def)
  have r: "route B m (peers (m_store m)) p ty data = route B (po_mgr s) (peers (m_store (po_mgr s))) p ty data"
    by (simp add: route_def m_def h Let_def cong: option.case_cong)
  have sp: "serving s p" using k by (simp add: serving_def)
  have f: "serving s q \<and> c_Username (m_heap m q) = c_Username (m_heap m p) \<and> c_IsServer (m_heap m q) \<noteq> c_IsServer (m_heap m p)"
    by (rule route_same_username [where act = "serving s" and m = m, OF _ sp t [folded r]]) (simp only: m o)
  moreover have "c_Username (settled_heap s p) \<noteq> []"
  proof
    assume u: "c_Username (settled_heap s p) = []"
    with o sp have "\<not> c_MultiClient (settled_heap s p)" "c_ClientID (settled_heap s p) = []"
      by (auto simp: once_inv_def fresh_inv_def)
    moreover have "peers (m_store (po_mgr s)) (c_ID (m_heap (po_mgr s) p)) = None"
      using fresh_unmentioned(2) [OF o sp] u by simp
    ultimately show False using t by (simp add: route_def h)
  qed
  moreover have "po_pc s q \<noteq> Idle" using f by (auto simp: serving_def)
  ultimately show ?thesis by (auto simp: facing_def m_def)
qed

lemma writes_left_plain [simp]:
  "writes_left (refuse_server p r) = []" "writes_left (refuse_client p st) = []" "writes_left (admit W p rd x) = []"
  "after_writes j \<Longrightarrow> writes_left j = []" "after_calls j \<Longrightarrow> writes_left j = []"
  by (auto simp: refuse_server_def refuse_client_def admit_def split: prod.splits elim: after_writes.elims after_calls.elims)

lemma advance_writes:
  assumes "wf_pc k" "\<And>rd ty data. k \<noteq> ForwardFind rd ty data" "run_state (advance W p k) m = (k', m')"
  shows "set (writes_left k') \<subseteq> set (writes_left k)"
  using assms
  by (cases "(W, p, k)" rule: advance.cases)
    (auto simp: advance_simps split: message.splits attachment.splits option.splits)

lemma tick_writes:
  assumes W: "si_backend W = B" and s: "orderly_pool s" "writes_ok s" and g: "orderly W s a" and t: "tick W s a s'"
  shows "writes_ok s'"
  unfolding writes_ok_def
proof (intro allI ballI, clarify)
  fix p q ty data
  assume w: "(q, ty, data) \<in> set (writes_left (po_pc s' p))"
  have so: "sound_pool s" using s(1) by (simp add: orderly_pool_def)
  have "facing s p q \<and> po_pc s p \<noteq> Idle"
  proof (cases "(q, ty, data) \<in> set (writes_left (po_pc s p))")
    case True
    then show ?thesis using s(2) by (auto simp: writes_ok_def)
  next
    case False
    from t w False obtain k m' where r: "a = Run p" "po_pc s' p = k" "busy (po_pc s p)"
        "run_state (advance W p (po_pc s p)) (po_mgr s) = (k, m')"
      by cases (auto split: if_splits)
    have "\<exists>rd ty data. po_pc s p = ForwardFind rd ty data"
      using advance_writes [OF sound_poolD(3) [OF so] _ r(4)] w False r(2) by blast
    then obtain rd t d where k: "po_pc s p = ForwardFind rd t d" by blast
    have "(q, ty, data) \<in> set (route B (po_mgr s) (peers (m_store (po_mgr s))) p t d)"
      using r(4) w unfolding k r(2)
      by (auto simp: find_targets_route [OF sound_poolD(7) [OF so] st.store_axioms] W)
    then show ?thesis using found_facing [OF W s(1) k] k by auto
  qed
  then show "facing s' p q" using facing_stays [OF W s(1) g t] by blast
qed

lemma runs_writes:
  assumes W: "si_backend W = B" and m0: "start waiting peers inv tbl m0" and r: "runs W (orderly W) m0 s"
  shows "writes_ok s"
  using r
proof induction
  case runs_init
  show ?case by (simp add: writes_ok_def)
next
  case (runs_tick s a s')
  then show ?case using tick_writes [OF W runs_orderly [OF W m0]] by blast
qed

end

section \<open>Runs without overlap are orderly\<close>

lemma pc_of_unmarked: "k \<in> range pc_of \<Longrightarrow> \<not> marking k u"
  by (auto simp: pc_of_def split: phase.splits)

lemma unmarked_others:
  assumes "\<forall>q. q \<noteq> p \<longrightarrow> po_pc t q \<in> range pc_of" "po_pc t p = ConAttach rd u"
  shows "\<not> marking (po_pc t q) v"
  using assms pc_of_unmarked [of "po_pc t q" v] by (cases "q = p") simp_all

lemma reach_orderly:
  assumes "reach W (once W) m0 s"
  shows "runs W (orderly W) m0 (pool_of s)"
  using assms
proof induction
  case reach_init
  then show ?case by (simp add: pool_of_init runs_init)
next
  case (reach_step s ev s')
  have "ticks W (orderly W) (pool_of s) (pool_of s')"
  proof (rule step_ticks [OF reach_step(3)])
    show "orderly W t (Run p)" if "\<forall>q. q \<noteq> p \<longrightarrow> po_pc t q \<in> range pc_of" "\<not> dispatching (po_pc t p)" for t p
      using that by (cases "po_pc t p") (auto simp: orderly_def dispatching_def unmarked_others)
    show "orderly W \<lparr>po_mgr = sy_mgr s, po_pc = (po_pc (pool_of s))(p := Dispatch rd ty data)\<rparr> (Run p)"
      if "ev = EvFrame p rd ty data" for p rd ty data
      using that reach_step(2) by (simp add: orderly_def once_def)
  qed (auto simp: orderly_def split: act.splits)
  with reach_step.IH show ?case by (rule runs_ticks)
qed

end
