(* ===== verification/Relay_Runs.thy ===== *)
theory Relay_Runs
  imports System_Inv
begin

text \<open>
  The properties of whole runs of the relay, and one concrete run, computed step by step, at which they are
  evaluated.
\<close>

section \<open>A run to evaluate the properties at\<close>

text \<open>Two websockets are accepted; the first registers \<open>ann-1\<close>, the second connects to it.\<close>

text \<open>The handler's configuration and the manager are those of the command with an empty environment
  (\<open>Deployment\<close>).\<close>
definition sample_config :: handler_config where
  "sample_config = \<lparr>hc_PingInterval = 60 * second, hc_PongTimeout = 30 * second, hc_ServerAuthToken = [], hc_JWTSecret = []\<rparr>"

definition sample_site :: "(mem_store, utable) site" where
  "sample_site = \<lparr>si_backend = mem_backend, si_jwt = open_jwt, si_cfg = sample_config, si_bearer = (\<lambda>_. [])\<rparr>"

definition sample_start :: "(mem_store, utable, unit) manager" where
  "sample_start = NewManager fmempty NewMemStore () (\<lambda>_. NewConn []) [WithLimiter (Some (NewLimiter None 0 0))]"

lemma allow_unlimited:
  "m_limiter m = Some (NewLimiter R cpm 0) \<Longrightarrow> run_state (allow_message rd i) m = (True, m)"
  by (cases m) (simp add: allow_message_def AllowMessage_def NewLimiter_def)

lemma sample_start_ok: "start ms_waiting ms_peers mem_finite id sample_start"
  by (simp add: start_def sample_start_def NewManager_def NewMemStore_def idle_def mem_finite_def owner_def)

lemma sample_backend: "si_backend sample_site = mem_backend" "sql_reliable (b_sql mem_backend) id"
  by (simp_all add: sample_site_def mem_backend_def table_db.sql_reliable_axioms)

text \<open>What the run has come to, as far as routing is concerned.\<close>
lemma sample_accepted:
  obtains s where "reach sample_site (once sample_site) sample_start s" "sy_phase s = (\<lambda>_. Unused)(1 := Reading, 2 := Reading)"
    "abs_routing ms_waiting ms_peers (sy_mgr s) = \<lparr>rt_heap = (\<lambda>_. NewConn [])(1 := NewConn ''a'', 2 := NewConn ''b''),
        rt_conns = Map.empty, rt_groups = Map.empty, rt_waiting = Map.empty, rt_peers = Map.empty\<rparr>"
    "m_db (sy_mgr s) = fmempty" "m_limiter (sy_mgr s) = Some (NewLimiter None 0 0)"
proof -
  define m1 where "m1 = after (upd_conn 1 (\<lambda>_. NewConn ''a'')) sample_start"
  define m2 where "m2 = after (upd_conn 2 (\<lambda>_. NewConn ''b'')) m1"
  define s0 where "s0 = \<lparr>sy_mgr = sample_start, sy_phase = \<lambda>_. Unused\<rparr>"
  define s1 where "s1 = \<lparr>sy_mgr = m1, sy_phase = (\<lambda>_. Unused)(1 := Reading)\<rparr>"
  define s2 where "s2 = \<lparr>sy_mgr = m2, sy_phase = (\<lambda>_. Unused)(1 := Reading, 2 := Reading)\<rparr>"
  have e1: "step sample_site s0 (EvAccept 1 ''a'') s1"
    using step_accept [of s0 1 "''a''" m1 sample_site]
    by (simp add: s0_def s1_def m1_def fresh_id_def served_def)
  have e2: "step sample_site s1 (EvAccept 2 ''b'') s2"
    using step_accept [of s1 2 "''b''" m2 sample_site]
    by (simp add: s1_def s2_def m2_def fresh_id_def served_def m1_def relay_simps NewConn_def)
  have "reach sample_site (once sample_site) sample_start s0" by (simp add: s0_def reach.intros)
  then have "reach sample_site (once sample_site) sample_start s2"
    by (rule reach_step [OF reach_step [OF _ _ e1] _ e2]) (simp_all add: once_def)
  then show ?thesis
    by (rule that) (simp_all add: s2_def m2_def m1_def sample_start_def NewManager_def NewMemStore_def relay_simps abs_routing_def fun_eq_iff)
qed

lemma sample_frame:
  assumes r: "reach sample_site (once sample_site) sample_start s" and p: "sy_phase s p = Reading"
    and f: "fresh_client s sample_id" and u: "c_Username (m_heap (sy_mgr s) p) = []"
    and h: "run_state (handle_message mem_backend open_jwt sample_config [] sample_rd p ty data) (sy_mgr s) = (next, m')"
    and n: "next \<noteq> Return"
  shows "reach sample_site (once sample_site) sample_start (s\<lparr>sy_mgr := m'\<rparr>)"
proof -
  have "step sample_site s (EvFrame p sample_rd ty data) \<lparr>sy_mgr = m', sy_phase = (if next = Return then (sy_phase s)(p := Leaving) else sy_phase s)\<rparr>"
    by (rule step_frame) (use p f h in \<open>simp_all add: sample_rd_def sample_site_def\<close>)
  then have "step sample_site s (EvFrame p sample_rd ty data) (s\<lparr>sy_mgr := m'\<rparr>)"
    using n by (cases s) simp
  then show ?thesis by (rule reach_step [OF r, rotated]) (use u in \<open>simp add: once_def\<close>)
qed

lemma handler_limiter:
  assumes "relay_backend B waiting peers store_ok tbl" "store_ok (m_store m)" "\<not> rt_paired p (abs_routing waiting peers m)"
    "run_state (handle_message B J cfg bearer rd p ty data) m = (next, m')"
  shows "m_limiter m' = m_limiter m"
proof -
  have reg: "m_limiter (after (handle_register B J cfg bearer rd p msg) x) = m_limiter x" for msg and x :: "('a, 'b, 'c) manager"
    by (simp add: handle_register_def sendJSON_def relay_simps split_def Let_def)
  have rep: "m_limiter (after (replay_buffer p u) x) = m_limiter x" for u and x :: "('a, 'b, 'c) manager"
    by (cases "m_buffer x") (simp_all add: replay_buffer_def GetBufferedMessages_def ClearBuffer_def sendJSON_def relay_simps split_def)
  have con: "m_limiter (after (handle_connect B rd p msg) x) = m_limiter x" for msg and x :: "('a, 'b, 'c) manager"
    by (simp add: handle_connect_def sendJSON_def relay_simps split_def rep)
  have "m_limiter (after (IsPaired B p) m) = m_limiter m" by (simp add: IsPaired_def relay_simps)
  moreover have "m' = after (if ty \<noteq> MessageText then State_Monad.return Continue
        else (case ParseMessage data of None \<Rightarrow> State_Monad.return Continue
          | Some (MServerRegister m) \<Rightarrow> handle_register B J cfg bearer rd p m
          | Some (MClientConnect m) \<Rightarrow> handle_connect B rd p m)) (after (IsPaired B p) m)"
    using relay_backend.handle_message_unpaired [OF assms(1,2,3), of J cfg bearer rd ty data] assms(4) by (metis snd_conv)
  ultimately show ?thesis using reg con by (simp split: option.split message.split)
qed

lemma owner_empty: "owner fmempty = Map.empty"
  by (simp add: owner_def fun_eq_iff)

definition sample_registered :: routing where
  "sample_registered = rt_registered 1 ''ann-1'' True
     \<lparr>rt_heap = (\<lambda>_. NewConn [])(1 := NewConn ''a'', 2 := NewConn ''b''),
      rt_conns = Map.empty, rt_groups = Map.empty, rt_waiting = Map.empty, rt_peers = Map.empty\<rparr>"

lemma sample_registered_eq:
  "sample_registered = \<lparr>rt_heap = (\<lambda>_. NewConn [])(1 := sample_conn ''a'' ''ann-1'' True True [], 2 := NewConn ''b''),
     rt_conns = [''a'' \<mapsto> 1], rt_groups = Map.empty, rt_waiting = [''ann-1'' \<mapsto> ''a''], rt_peers = Map.empty\<rparr>"
  by (auto simp: sample_registered_def rt_registered_def rt_register_def set_conn_def NewConn_def sample_conn_def evicted_by_def Let_def)

lemma sample_connected_eq:
  "rt_connected 2 ''ann-1'' sample_id sample_registered
   = \<lparr>rt_heap = (\<lambda>_. NewConn [])(1 := sample_conn ''a'' ''ann-1'' True True [], 2 := sample_conn ''b'' ''ann-1'' False False sample_id),
      rt_conns = [''a'' \<mapsto> 1, ''b'' \<mapsto> 2], rt_groups = [''ann-1'' \<mapsto> \<lparr>g_serverConn = 1, g_clients = [sample_id \<mapsto> 2]\<rparr>],
      rt_waiting = [''ann-1'' \<mapsto> ''a''], rt_peers = Map.empty\<rparr>"
  by (auto simp: sample_registered_eq rt_connected_def rt_connect_def rt_join_def set_conn_def sample_conn_def NewConn_def Let_def)

lemma sample_server_run:
  obtains s where "reach sample_site (once sample_site) sample_start s" "sy_phase s = (\<lambda>_. Unused)(1 := Reading, 2 := Reading)"
    "abs_routing ms_waiting ms_peers (sy_mgr s) = sample_registered" "owner (m_db (sy_mgr s)) ''ann-1'' = Some ''i1''"
    "m_limiter (sy_mgr s) = Some (NewLimiter None 0 0)" "mem_relay.good (sy_mgr s)"
proof (rule sample_accepted)
  fix s
  assume r: "reach sample_site (once sample_site) sample_start s" and ph: "sy_phase s = (\<lambda>_. Unused)(1 := Reading, 2 := Reading)"
    and ab: "abs_routing ms_waiting ms_peers (sy_mgr s) = \<lparr>rt_heap = (\<lambda>_. NewConn [])(1 := NewConn ''a'', 2 := NewConn ''b''),
        rt_conns = Map.empty, rt_groups = Map.empty, rt_waiting = Map.empty, rt_peers = Map.empty\<rparr>"
    and db: "m_db (sy_mgr s) = fmempty" and li: "m_limiter (sy_mgr s) = Some (NewLimiter None 0 0)"
  define data where "data = json_render (json_of_ServerRegister sample_register)"
  have p: "ParseMessage data = Some (MServerRegister sample_register)"
    unfolding data_def by (rule ParseMessage_ServerRegister) (simp add: sample_register_def, code_simp+)
  note so = mem_relay.reach_sound [OF sample_backend(1) sample_start_ok r]
  note g = mem_relay.soundD(1) [OF so]
  have st: "mem_finite (m_store (sy_mgr s))" using mem_relay.soundD(5) [OF so] .
  have np: "\<not> rt_paired 1 (abs_routing ms_waiting ms_peers (sy_mgr s))" by (simp add: ab rt_paired_def NewConn_def Let_def)
  obtain nxt m' where h: "run_state (handle_message mem_backend open_jwt sample_config [] sample_rd 1 MessageText data) (sy_mgr s) = (nxt, m')"
    by force
  define m1 where "m1 = after (IsPaired mem_backend 1) (sy_mgr s)"
  have h1: "run_state (handle_register mem_backend open_jwt sample_config [] sample_rd 1 sample_register) m1 = (nxt, m')"
    using mem_relay.handle_message_unpaired [OF st np] h p by (simp add: m1_def)
  have m1: "mem_relay.good m1" "abs_routing ms_waiting ms_peers m1 = abs_routing ms_waiting ms_peers (sy_mgr s)" "m_db m1 = fmempty"
    using mem_relay.IsPaired_run [OF st, of 1] g db by (auto simp: m1_def mem_relay.good_def)
  have v: "IsValidUsername ''ann-1''" by (simp add: IsValidUsername_eq) code_simp
  have k: "nxt = ContinuePing \<and> mem_relay.good m' \<and> abs_routing ms_waiting ms_peers m' = sample_registered
      \<and> owner (m_db m') = [''ann-1'' \<mapsto> ''i1'']"
    using mem_relay.handle_register_ok [OF m1(1) sample_backend(2) _ _ _ _ h1] v m1 ab
    by (simp add: sample_config_def sample_register_def owner_empty sample_registered_def)
  have "reach sample_site (once sample_site) sample_start (s\<lparr>sy_mgr := m'\<rparr>)"
  proof (rule sample_frame [OF r _ _ _ h])
    show "sy_phase s 1 = Reading" by (simp add: ph)
    show "fresh_client s sample_id" using arg_cong [OF ab, of rt_groups] by (simp add: fresh_client_def sample_id_def abs_routing_def)
    show "c_Username (m_heap (sy_mgr s) 1) = []" using arg_cong [OF ab, of rt_heap] by (simp add: NewConn_def abs_routing_def)
    show "nxt \<noteq> Return" using k by simp
  qed
  then show thesis
    using that [of "s\<lparr>sy_mgr := m'\<rparr>"] k ph handler_limiter [OF mem_relay.relay_backend_axioms st np h] li by simp
qed

lemma sample_client:
  obtains s where "reach sample_site (once sample_site) sample_start s" "sy_phase s = (\<lambda>_. Unused)(1 := Reading, 2 := Reading)"
    "abs_routing ms_waiting ms_peers (sy_mgr s) = rt_connected 2 ''ann-1'' sample_id sample_registered" "m_limiter (sy_mgr s) = Some (NewLimiter None 0 0)"
proof (rule sample_server_run)
  fix s
  assume r: "reach sample_site (once sample_site) sample_start s" and ph: "sy_phase s = (\<lambda>_. Unused)(1 := Reading, 2 := Reading)"
    and ab: "abs_routing ms_waiting ms_peers (sy_mgr s) = sample_registered" and o: "owner (m_db (sy_mgr s)) ''ann-1'' = Some ''i1''"
    and li: "m_limiter (sy_mgr s) = Some (NewLimiter None 0 0)" and g: "mem_relay.good (sy_mgr s)"
  define data where "data = json_render (json_of_ClientConnect sample_connect)"
  have p: "ParseMessage data = Some (MClientConnect sample_connect)"
    unfolding data_def by (rule ParseMessage_ClientConnect) (simp add: sample_connect_def, code_simp+)
  have st: "mem_finite (m_store (sy_mgr s))" using g by (simp add: mem_relay.good_def)
  have np: "\<not> rt_paired 2 (abs_routing ms_waiting ms_peers (sy_mgr s))"
    by (simp add: ab sample_registered_eq rt_paired_def NewConn_def Let_def)
  obtain nxt m' where h: "run_state (handle_message mem_backend open_jwt sample_config [] sample_rd 2 MessageText data) (sy_mgr s) = (nxt, m')"
    by force
  define m1 where "m1 = after (IsPaired mem_backend 2) (sy_mgr s)"
  have h1: "run_state (handle_connect mem_backend sample_rd 2 sample_connect) m1 = (nxt, m')"
    using mem_relay.handle_message_unpaired [OF st np] h p by (simp add: m1_def)
  have m1: "mem_relay.good m1" "abs_routing ms_waiting ms_peers m1 = sample_registered" "owner (m_db m1) ''ann-1'' = Some ''i1''"
    using mem_relay.IsPaired_run [OF st, of 2] g o ab by (auto simp: m1_def mem_relay.good_def)
  have w: "ms_waiting (m_store m1) = [''ann-1'' \<mapsto> ''a'']" "m_conns m1 = [''a'' \<mapsto> 1]"
    using arg_cong [OF m1(2), of rt_waiting] arg_cong [OF m1(2), of rt_conns] by (simp_all add: abs_routing_def sample_registered_eq)
  have k: "nxt = Continue \<and> abs_routing ms_waiting ms_peers m' = rt_connected 2 ''ann-1'' sample_id sample_registered"
    using mem_relay.handle_connect_ok [OF m1(1) _ sample_backend(2) _ _ _ h1] w m1
    by (simp add: sample_connect_def sample_rd_def waits_ok_def)
  have "reach sample_site (once sample_site) sample_start (s\<lparr>sy_mgr := m'\<rparr>)"
  proof (rule sample_frame [OF r _ _ _ h])
    show "sy_phase s 2 = Reading" by (simp add: ph)
    show "fresh_client s sample_id" using arg_cong [OF ab, of rt_groups]
      by (simp add: fresh_client_def sample_id_def abs_routing_def sample_registered_eq)
    show "c_Username (m_heap (sy_mgr s) 2) = []" using arg_cong [OF ab, of rt_heap]
      by (simp add: NewConn_def abs_routing_def sample_registered_eq)
    show "nxt \<noteq> Return" using k by simp
  qed
  then show thesis
    using that [of "s\<lparr>sy_mgr := m'\<rparr>"] k ph handler_limiter [OF mem_relay.relay_backend_axioms st np h] li by simp
qed

lemma rt_connected_paired:
  assumes "rt_waiting R u = Some s" "rt_conns R s = Some q" "i \<noteq> []"
  shows "rt_paired p (rt_connected p u i R)"
  using assms
  by (cases "c_MultiClient (rt_heap R q)")
    (simp_all add: rt_connected_def rt_connect_def rt_join_def rt_pair_def set_conn_def rt_paired_def Let_def)

section \<open>Properties of runs\<close>

text \<open>Whatever the peers send, and in whatever order the goroutines run: a connection the manager can
  still reach, by its id or as a client of a group, is being served, under its own id, username and
  client id. So once a connection's goroutine is done nothing is looked up to it any more, and no
  group is left without clients.\<close>
lemma closed_connections_forgotten:
  assumes "relay_backend B waiting peers store_ok tbl" "si_backend W = B" "start waiting peers store_ok tbl m0" "reach W G m0 s"
  shows "(\<forall>i p. m_conns (sy_mgr s) i = Some p \<longrightarrow> served s p \<and> c_ID (m_heap (sy_mgr s) p) = i)
    \<and> (\<forall>u g. m_multiGroups (sy_mgr s) u = Some g \<longrightarrow> g_clients g \<noteq> Map.empty
        \<and> (\<forall>i p. g_clients g i = Some p \<longrightarrow> served s p \<and> c_ClientID (m_heap (sy_mgr s) p) = i \<and> c_Username (m_heap (sy_mgr s) p) = u))"
proof -
  note b = relay_backend.soundD(2) [OF assms(1) relay_backend.reach_sound [OF assms]]
  show ?thesis using base_connsD [OF b] base_groupD [OF b] base_clientD [OF b] by (simp add: abs_routing_def)
qed

theorem closed_connections_forgotten_witness:
  "\<exists>s. reach sample_site (once sample_site) sample_start s \<and> m_conns (sy_mgr s) ''b'' = Some 2 \<and> served s 2"
proof (rule sample_client)
  fix s
  assume r: "reach sample_site (once sample_site) sample_start s"
    and ab: "abs_routing ms_waiting ms_peers (sy_mgr s) = rt_connected 2 ''ann-1'' sample_id sample_registered"
  have "m_conns (sy_mgr s) ''b'' = Some 2"
    using arg_cong [OF ab, of rt_conns] by (simp add: abs_routing_def sample_connected_eq)
  then show ?thesis
    using closed_connections_forgotten [OF mem_relay.relay_backend_axioms sample_backend(1) sample_start_ok r] r by blast
qed

text \<open>While every peer sends at most one handshake, whatever a connection sends is written only to
  connections being served for the same username on the other side, server or client; the sender
  itself gets at most a notice that a receiver is too slow.\<close>
lemma frames_stay_within_username:
  assumes "relay_backend B waiting peers store_ok tbl" "si_backend W = B" "start waiting peers store_ok tbl m0"
    "reach W (once W) m0 s" "served s p"
  shows "\<exists>es. m_out (after (Forward B rd p ty data) (sy_mgr s)) = m_out (sy_mgr s) @ es
    \<and> (\<forall>e\<in>set es. (\<exists>q t d. e = Write q t d \<and> served s q
          \<and> c_Username (m_heap (sy_mgr s) q) = c_Username (m_heap (sy_mgr s) p)
          \<and> c_IsServer (m_heap (sy_mgr s) q) \<noteq> c_IsServer (m_heap (sy_mgr s) p))
        \<or> e = Write p MessageText (json_render (json_of_RelayBackpressure (NewRelayBackpressure ''slow_peer''))))"
proof -
  define m where "m = sy_mgr s"
  note so = relay_backend.reach_sound [OF assms(1-4)] and o = relay_backend.reach_once [OF assms(1-4)]
  note f = relay_backend.Forward_spec(1) [OF assms(1) relay_backend.soundD(5) [OF assms(1) so], of rd p ty data, folded m_def]
  have to: "served s q \<and> c_Username (m_heap m q) = c_Username (m_heap m p) \<and> c_IsServer (m_heap m q) \<noteq> c_IsServer (m_heap m p)"
    if "(q, t, d) \<in> set (route B m (peers (m_store m)) p ty data)" for q t d
    using relay_backend.route_same_username [OF assms(1) o assms(5)] that by (simp add: m_def)
  have "\<forall>e\<in>set (deliveries (m_heap m) p (route B m (peers (m_store m)) p ty data)). (\<exists>q t d. e = Write q t d \<and> served s q
          \<and> c_Username (m_heap m q) = c_Username (m_heap m p) \<and> c_IsServer (m_heap m q) \<noteq> c_IsServer (m_heap m p))
        \<or> e = Write p MessageText (json_render (json_of_RelayBackpressure (NewRelayBackpressure ''slow_peer'')))"
    using to by (fastforce simp: deliveries_def delivery_of_def)
  then show ?thesis unfolding m_def [symmetric] using f
    by (intro exI [of _ "if result (allow_message rd (c_ID (m_heap m p))) m
        then deliveries (m_heap m) p (route B m (peers (m_store m)) p ty data) else []"]) auto
qed

lemma sample_client_forward:
  assumes "abs_routing ms_waiting ms_peers m = rt_connected 2 ''ann-1'' sample_id sample_registered"
    "m_limiter m = Some (NewLimiter None 0 0)" "mem_finite (m_store m)"
  shows "m_out (after (Forward mem_backend rd 2 MessageText ''hi'') m)
    = m_out m @ [Write 1 MessageBinary (WrapMultiClientFrame std_uuids sample_id MessageText ''hi'')]"
proof -
  have a: "m_heap m 1 = sample_conn ''a'' ''ann-1'' True True []" "m_heap m 2 = sample_conn ''b'' ''ann-1'' False False sample_id"
    "m_multiGroups m = [''ann-1'' \<mapsto> \<lparr>g_serverConn = 1, g_clients = [sample_id \<mapsto> 2]\<rparr>]"
    using arg_cong [OF assms(1), of rt_heap] arg_cong [OF assms(1), of rt_groups] by (simp_all add: abs_routing_def sample_connected_eq)
  have "route mem_backend m (ms_peers (m_store m)) 2 MessageText ''hi''
      = [(1, MessageBinary, WrapMultiClientFrame std_uuids sample_id MessageText ''hi'')]"
    using a by (simp add: route_def sample_conn_def sample_id_def mem_backend_def Let_def)
  then show ?thesis
    using mem_relay.Forward_spec(1) [OF assms(3), of rd 2 MessageText "''hi''"] allow_unlimited [OF assms(2)] a(1)
    by (simp add: delivery_of_def sample_conn_def maxPendingWrites_def)
qed

theorem frames_stay_within_username_witness:
  "\<exists>s. reach sample_site (once sample_site) sample_start s \<and> served s 1 \<and> c_IsServer (m_heap (sy_mgr s) 1)
    \<and> m_out (after (Forward mem_backend sample_rd 2 MessageText ''hi'') (sy_mgr s))
      = m_out (sy_mgr s) @ [Write 1 MessageBinary (WrapMultiClientFrame std_uuids sample_id MessageText ''hi'')]"
proof (rule sample_client)
  fix s
  assume r: "reach sample_site (once sample_site) sample_start s" and ph: "sy_phase s = (\<lambda>_. Unused)(1 := Reading, 2 := Reading)"
    and ab: "abs_routing ms_waiting ms_peers (sy_mgr s) = rt_connected 2 ''ann-1'' sample_id sample_registered"
    and li: "m_limiter (sy_mgr s) = Some (NewLimiter None 0 0)"
  have p: "served s 2" by (simp add: served_def ph)
  have "mem_finite (m_store (sy_mgr s))"
    using mem_relay.soundD(5) [OF mem_relay.reach_sound [OF sample_backend(1) sample_start_ok r]] .
  note w = sample_client_forward [OF ab li this, of sample_rd]
  have c: "\<not> c_IsServer (m_heap (sy_mgr s) 2)"
    using arg_cong [OF ab, of rt_heap] by (simp add: abs_routing_def sample_connected_eq sample_conn_def)
  show ?thesis
    using frames_stay_within_username [OF mem_relay.relay_backend_axioms sample_backend(1) sample_start_ok r p, of sample_rd MessageText "''hi''"]
      w c r by (intro exI [of _ s]) auto
qed

text \<open>While every peer sends at most one handshake, a username that waits is served by a live
  connection that registered it, which is not paired; and pairs are symmetric, between a server and a
  client of one username, both alive.\<close>
lemma waiting_and_pairs_live:
  assumes "relay_backend B waiting peers store_ok tbl" "si_backend W = B" "start waiting peers store_ok tbl m0"
    "reach W (once W) m0 s"
  defines "m \<equiv> sy_mgr s"
  shows "(\<forall>u i. waiting (m_store m) u = Some i \<longrightarrow> peers (m_store m) i = None
      \<and> (\<exists>q. m_conns m i = Some q \<and> served s q \<and> c_Username (m_heap m q) = u \<and> c_IsServer (m_heap m q)))
    \<and> (\<forall>i j. peers (m_store m) i = Some j \<longrightarrow> peers (m_store m) j = Some i \<and> i \<noteq> j
      \<and> (\<exists>p q. m_conns m i = Some p \<and> m_conns m j = Some q \<and> served s p \<and> served s q
          \<and> c_Username (m_heap m p) = c_Username (m_heap m q) \<and> c_IsServer (m_heap m p) \<noteq> c_IsServer (m_heap m q)))"
proof -
  define R where "R = abs_routing waiting peers m"
  have o: "once_inv (served s) R" unfolding R_def m_def by (rule relay_backend.reach_once [OF assms(1-4)])
  note b = base_connsD [OF once_invD(1) [OF o]]
  have R: "rt_waiting R = waiting (m_store m)" "rt_peers R = peers (m_store m)" "rt_conns R = m_conns m" "rt_heap R = m_heap m"
    by (simp_all add: R_def abs_routing_def)
  have "peers (m_store m) i = None \<and> (\<exists>q. m_conns m i = Some q \<and> served s q \<and> c_Username (m_heap m q) = u \<and> c_IsServer (m_heap m q))"
    if "waiting (m_store m) u = Some i" for u i
    using wait_invD [OF once_invD(3) [OF o], of u i] b that unfolding R server_of_def by metis
  moreover have "peers (m_store m) j = Some i \<and> i \<noteq> j \<and> (\<exists>p q. m_conns m i = Some p \<and> m_conns m j = Some q \<and> served s p \<and> served s q
        \<and> c_Username (m_heap m p) = c_Username (m_heap m q) \<and> c_IsServer (m_heap m p) \<noteq> c_IsServer (m_heap m q))"
    if ij: "peers (m_store m) i = Some j" for i j
  proof (rule pair_invD [OF once_invD(4) [OF o]])
    show "rt_peers R i = Some j" using ij by (simp add: R)
    fix p q
    assume "rt_conns R i = Some p" "rt_conns R j = Some q" "sides R p q" "rt_peers R j = Some i"
    then show ?thesis using b unfolding R sides_def by (metis option.inject)
  qed
  ultimately show ?thesis by blast
qed

theorem waiting_and_pairs_live_witness:
  "\<exists>s. reach sample_site (once sample_site) sample_start s \<and> ms_waiting (m_store (sy_mgr s)) ''ann-1'' = Some ''a''
     \<and> (\<exists>q. m_conns (sy_mgr s) ''a'' = Some q \<and> served s q)"
proof (rule sample_server_run)
  fix s
  assume r: "reach sample_site (once sample_site) sample_start s" and ab: "abs_routing ms_waiting ms_peers (sy_mgr s) = sample_registered"
  have "ms_waiting (m_store (sy_mgr s)) ''ann-1'' = Some ''a''"
    using arg_cong [OF ab, of rt_waiting] by (simp add: abs_routing_def sample_registered_eq)
  then show ?thesis
    using waiting_and_pairs_live [OF mem_relay.relay_backend_axioms sample_backend(1) sample_start_ok r] r by blast
qed



text \<open>A connection goes through its phases in order: it is accepted once and its clean-up runs once. When
  that is done it is never served again, and whatever happens later the manager cannot reach it, by
  its id or as a client of a group.\<close>
lemma gone_for_good:
  assumes "relay_backend B waiting peers store_ok tbl" "si_backend W = B" "start waiting peers store_ok tbl m0"
    "reach W G m0 s" "sy_phase s p = Gone" "steps W G s s'"
  shows "sy_phase s' p = Gone \<and> (\<forall>i. m_conns (sy_mgr s') i \<noteq> Some p)
    \<and> (\<forall>u g i. m_multiGroups (sy_mgr s') u = Some g \<longrightarrow> g_clients g i \<noteq> Some p)"
proof -
  have g: "sy_phase s' p = Gone" using steps_advance [OF assms(6), of p] assms(5) by simp
  then have "\<not> served s' p" by (simp add: served_def)
  moreover note relay_backend.soundD(2) [OF assms(1) relay_backend.reach_sound [OF assms(1,2,3) reach_steps [OF assms(4,6)]]]
  ultimately show ?thesis using g base_connsD base_clientD by (fastforce simp: abs_routing_def)
qed

theorem gone_for_good_witness:
  "\<exists>s. reach sample_site (once sample_site) sample_start s \<and> sy_phase s 2 = Gone \<and> (\<forall>i. m_conns (sy_mgr s) i \<noteq> Some 2)"
proof (rule sample_client)
  fix s
  assume r: "reach sample_site (once sample_site) sample_start s" and ph: "sy_phase s = (\<lambda>_. Unused)(1 := Reading, 2 := Reading)"
  define s1 where "s1 = s\<lparr>sy_phase := (sy_phase s)(2 := Leaving)\<rparr>"
  define s2 where "s2 = \<lparr>sy_mgr = after (deferred (si_backend sample_site) 2) (sy_mgr s1), sy_phase = (sy_phase s1)(2 := Gone)\<rparr>"
  have e1: "step sample_site s (EvReadError 2) s1" by (simp add: step_read_error_iff s1_def ph)
  have e2: "step sample_site s1 (EvDefer 2) s2" by (simp add: step_defer_iff s1_def s2_def)
  have r2: "reach sample_site (once sample_site) sample_start s2"
    by (rule reach_step [OF reach_step [OF r _ e1] _ e2]) (simp_all add: once_def)
  have g: "sy_phase s2 2 = Gone" "steps sample_site (once sample_site) s2 s2" by (simp_all add: s2_def steps_def)
  show ?thesis
    using gone_for_good [OF mem_relay.relay_backend_axioms sample_backend(1) sample_start_ok r2 g] r2 by blast
qed

text \<open>The goroutine that serves one websocket comes to its end, after its last read or a rejected
  handshake, and what it did is a run of the relay: accepting, one step per frame, the end of the
  reads and the clean-up, in this order.\<close>
lemma serving_is_a_run:
  assumes "sy_phase s p = Unused" "fresh_id s uid"
    "fresh_frames W p fs \<lparr>sy_mgr = after (upd_conn p (\<lambda>_. NewConn uid)) (sy_mgr s), sy_phase = (sy_phase s)(p := Reading)\<rparr>"
  shows "\<exists>s'. steps W any_event s s' \<and> sy_phase s' p = Gone
    \<and> sy_mgr s' = after (ServeWS (si_backend W) (si_jwt W) (si_cfg W) (si_bearer W p) uid p fs) (sy_mgr s)"
proof -
  define s1 where "s1 = \<lparr>sy_mgr = after (upd_conn p (\<lambda>_. NewConn uid)) (sy_mgr s), sy_phase = (sy_phase s)(p := Reading)\<rparr>"
  define s2 where "s2 = \<lparr>sy_mgr = after (read_loop (si_backend W) (si_jwt W) (si_cfg W) (si_bearer W p) p fs) (sy_mgr s1),
    sy_phase = (sy_phase s1)(p := Leaving)\<rparr>"
  define s3 where "s3 = \<lparr>sy_mgr = after (deferred (si_backend W) p) (sy_mgr s2), sy_phase = (sy_phase s2)(p := Gone)\<rparr>"
  have "step W s (EvAccept p uid) s1" unfolding s1_def by (rule step_accept [OF assms(1,2) refl])
  then have 1: "steps W any_event s s1" by (rule step_steps)
  have 2: "steps W any_event s1 s2"
    unfolding s2_def by (rule read_loop_steps) (use assms(3) in \<open>simp_all add: s1_def\<close>)
  have "step W s2 (EvDefer p) s3" by (simp add: step_defer_iff s3_def s2_def)
  then have "steps W any_event s2 s3" by (rule step_steps)
  with 1 2 have "steps W any_event s s3" unfolding steps_def by (meson rtranclp_trans)
  moreover have "sy_mgr s3 = after (ServeWS (si_backend W) (si_jwt W) (si_cfg W) (si_bearer W p) uid p fs) (sy_mgr s)"
    by (simp add: s3_def s2_def s1_def ServeWS_def split_def)
  moreover have "sy_phase s3 p = Gone" by (simp add: s3_def)
  ultimately show ?thesis by blast
qed

theorem serving_is_a_run_witness:
  "\<exists>s'. steps sample_site any_event \<lparr>sy_mgr = sample_start, sy_phase = \<lambda>_. Unused\<rparr> s' \<and> sy_phase s' 1 = Gone
    \<and> sy_mgr s' = after (ServeWS mem_backend open_jwt sample_config [] ''a'' 1 [(sample_rd, MessageBinary, ''x'')]) sample_start"
proof -
  define s where "s = \<lparr>sy_mgr = sample_start, sy_phase = \<lambda>_. Unused\<rparr>"
  have h: "sy_phase s 1 = Unused" "fresh_id s ''a''" by (simp_all add: s_def fresh_id_def served_def)
  have f: "fresh_frames sample_site 1 [(sample_rd, MessageBinary, ''x'')]
      \<lparr>sy_mgr = after (upd_conn 1 (\<lambda>_. NewConn ''a'')) (sy_mgr s), sy_phase = (sy_phase s)(1 := Reading)\<rparr>"
    by (simp add: fresh_client_def relay_simps s_def sample_start_def NewManager_def sample_rd_def sample_id_def split_def)
  show ?thesis using serving_is_a_run [OF h f] by (simp add: s_def sample_site_def)
qed

end
