(* ===== verification/Interleaving_Runs.thy ===== *)
theory Interleaving_Runs
  imports Interleaving_Once Relay_Runs
begin

text \<open>
  The properties of interleaved runs, and a run in which a client's frame is under way to its server, at which
  they are evaluated.
\<close>

section \<open>The fields of connections in the middle of a handshake\<close>

text \<open>A connection that has joined a group carries its client id and username already.\<close>
lemma joined_settled:
  assumes "at_ok k p c R" "\<not> unjoined p R" "c_ClientID (settled k c) \<noteq> []"
  shows "c_ClientID c = c_ClientID (settled k c) \<and> c_Username c = c_Username (settled k c)"
  using assms by (induction k c rule: settled.induct) auto

context relay_backend
begin

lemma pool_conns:
  assumes "sound_pool s" "m_conns (po_mgr s) i = Some p"
  shows "serving s p" "c_ID (m_heap (po_mgr s) p) = i"
  using base_connsD [OF sound_poolD(2) [OF assms(1)], of i p] assms(2) by simp_all

lemma pool_clients:
  assumes "sound_pool s" "m_multiGroups (po_mgr s) u = Some g" "g_clients g i = Some p"
  shows "serving s p" "c_ClientID (m_heap (po_mgr s) p) = i" "c_Username (m_heap (po_mgr s) p) = u"
proof -
  have c: "serving s p" "i \<noteq> []" "c_ClientID (settled_heap s p) = i" "c_Username (settled_heap s p) = u"
    using base_clientD [OF sound_poolD(2) [OF assms(1)], of u g i p] assms(2,3) by simp_all
  have "\<not> unjoined p (view s)" using assms(2,3) by (auto simp: unjoined_def)
  with joined_settled [OF sound_poolD(4) [OF assms(1)]] c show "serving s p" "c_ClientID (m_heap (po_mgr s) p) = i"
    "c_Username (m_heap (po_mgr s) p) = u"
    by (simp_all add: settled_heap_def)
qed

lemma pool_groups: "sound_pool s \<Longrightarrow> m_multiGroups (po_mgr s) u = Some g \<Longrightarrow> g_clients g \<noteq> Map.empty"
  using base_groupD [OF sound_poolD(2), of s u g] by simp

lemma groups_led:
  assumes "si_backend W = B" "start waiting peers inv tbl m0" "runs W (orderly W) m0 s" "m_multiGroups (po_mgr s) u = Some g"
  shows "serving s (g_serverConn g)" "c_Username (settled_heap s (g_serverConn g)) = u"
    "c_IsServer (settled_heap s (g_serverConn g))" "c_MultiClient (settled_heap s (g_serverConn g))"
proof -
  have o: "once_inv (serving s) (view s)" using runs_orderly [OF assms(1-3)] by (simp add: orderly_pool_def)
  have "rt_groups (view s) u = Some g" using assms(4) by simp
  from lead_invD(1-3) [OF once_invD(5) [OF o] this]
  show "serving s (g_serverConn g)" "c_Username (settled_heap s (g_serverConn g)) = u"
    "c_IsServer (settled_heap s (g_serverConn g))" "c_MultiClient (settled_heap s (g_serverConn g))"
    by (simp_all add: server_of_def)
qed

end

lemma tick_finished:
  assumes "tick W s a s'" "finished (po_pc s p)"
  shows "finished (po_pc s' p)"
  using assms
proof cases
  case (tick_run q k m')
  then show ?thesis using advance_finished [OF assms(2), of W q "po_mgr s"] assms(2) by auto
qed (use assms(2) in \<open>auto simp: finished_def\<close>)

lemma ticks_finished:
  assumes "ticks W G s s'" "finished (po_pc s p)"
  shows "finished (po_pc s' p)"
  using assms unfolding ticks_def by (induction rule: rtranclp_induct) (auto intro: tick_finished)

text \<open>What the second invariant of the routing machine says of usernames that wait and of pairs.\<close>
lemma waiting_served:
  assumes "once_inv act R" "rt_waiting R u = Some i"
  shows "rt_peers R i = None \<and> (\<exists>q. rt_conns R i = Some q \<and> act q \<and> c_Username (rt_heap R q) = u \<and> c_IsServer (rt_heap R q))"
  using wait_invD [OF once_invD(3) [OF assms(1)] assms(2)] base_connsD [OF once_invD(1) [OF assms(1)]]
  unfolding server_of_def by metis

lemma pairs_served:
  assumes "once_inv act R" "rt_peers R i = Some j"
  shows "rt_peers R j = Some i \<and> i \<noteq> j \<and> (\<exists>p q. rt_conns R i = Some p \<and> rt_conns R j = Some q \<and> act p \<and> act q
    \<and> c_Username (rt_heap R p) = c_Username (rt_heap R q) \<and> c_IsServer (rt_heap R p) \<noteq> c_IsServer (rt_heap R q))"
proof (rule pair_invD [OF once_invD(4) [OF assms(1)] assms(2)])
  fix p q
  assume "rt_conns R i = Some p" "rt_conns R j = Some q" "sides R p q" "rt_peers R j = Some i"
  then show ?thesis using base_connsD [OF once_invD(1) [OF assms(1)]] unfolding sides_def by (metis option.inject)
qed

text \<open>Usernames are valid wherever the routing state has them.\<close>
definition names_valid :: "routing \<Rightarrow> bool" where
  "names_valid R \<longleftrightarrow> (\<forall>u. rt_waiting R u \<noteq> None \<or> rt_groups R u \<noteq> None \<longrightarrow> IsValidUsername u)"

lemma names_valid_sub:
  "names_valid R \<Longrightarrow> dom (rt_waiting R') \<subseteq> dom (rt_waiting R) \<Longrightarrow> dom (rt_groups R') \<subseteq> dom (rt_groups R) \<union> dom (rt_waiting R) \<Longrightarrow>
     names_valid R'"
  unfolding names_valid_def by blast

lemma rt_step_names:
  assumes "rt_step order exact D act R act' R'" "names_valid R"
  shows "names_valid R'"
  using assms(1)
proof cases
  case (register p u mc)
  then show ?thesis using assms(2)
    by (auto simp: names_valid_def rt_registered_def rt_register_def set_conn_def Let_def)
next
  case (connect p i mc u)
  then show ?thesis
    by (intro names_valid_sub [OF assms(2)])
      (auto simp: rt_connected_as_def set_conn_def rt_join_def rt_pair_def Let_def map_delete_def dom_def split: option.splits if_splits)
next
  case (close p)
  then show ?thesis
    by (intro names_valid_sub [OF assms(2)])
      (auto simp: rt_close_def rt_leave_def rt_disband_def rt_unpair_def unwait_def Let_def map_delete_def dom_def split: option.splits if_splits)
qed (use assms(2) in \<open>simp_all add: names_valid_def set_conn_def rt_forget_def\<close>)

context relay_backend
begin

lemma runs_names:
  assumes W: "si_backend W = B" and m0: "start waiting peers inv tbl m0" and r: "runs W G m0 s"
  shows "names_valid (view s)"
  using r
proof induction
  case runs_init
  show ?case using m0 by (simp add: names_valid_def start_def idle_def)
next
  case (runs_tick s a s')
  have "rt_step (b_order B) False (\<lambda>_. True) (serving s) (view s) (serving s') (view s')"
    using tick_simulated [OF W runs_sound [OF W m0 runs_tick.hyps(1)] runs_tick.hyps(3)] by simp
  then show ?case using rt_step_names runs_tick.IH by blast
qed

end

section \<open>A frame under way\<close>

lemma run_tick:
  assumes "runs W (orderly W) m0 \<lparr>po_mgr = m, po_pc = f(p := k)\<rparr>" "busy k" "draws_fresh m k"
    "orderly W \<lparr>po_mgr = m, po_pc = f(p := k)\<rparr> (Run p)" "run_state (advance W p k) m = (k', m')"
  shows "runs W (orderly W) m0 \<lparr>po_mgr = m', po_pc = f(p := k')\<rparr>"
proof -
  have "tick W \<lparr>po_mgr = m, po_pc = f(p := k)\<rparr> (Run p) \<lparr>po_mgr = m', po_pc = f(p := k')\<rparr>"
    using assms tick_run [where s = "\<lparr>po_mgr = m, po_pc = f(p := k)\<rparr>" and p = p and W = W] by simp
  with assms(1,4) show ?thesis by (blast intro: runs_tick)
qed

text \<open>The second connection of \<open>sample_client\<close> has sent a frame, and its goroutine has looked up the server.\<close>
definition sample_frame_bytes :: bytes where
  "sample_frame_bytes = WrapMultiClientFrame std_uuids sample_id MessageText ''hi''"

lemma sample_id_nonempty: "sample_id \<noteq> []"
  by (simp add: sample_id_def)

lemma sample_paired: "rt_paired 2 (rt_connected 2 ''ann-1'' sample_id sample_registered)"
  by (simp add: rt_paired_def sample_connected_eq sample_conn_def Let_def sample_id_nonempty)

lemma sample_forwarding:
  obtains s f where "runs sample_site (orderly sample_site) sample_start s" "po_pc s 1 = AwaitFrame"
    "po_pc s 2 = ForwardWrites [(1, MessageBinary, sample_frame_bytes)] AwaitFrame"
    "abs_routing ms_waiting ms_peers (po_mgr s) = rt_connected 2 ''ann-1'' sample_id sample_registered"
proof (rule sample_client)
  fix s
  assume r: "reach sample_site (once sample_site) sample_start s" and ph: "sy_phase s = (\<lambda>_. Unused)(1 := Reading, 2 := Reading)"
    and ab: "abs_routing ms_waiting ms_peers (sy_mgr s) = rt_connected 2 ''ann-1'' sample_id sample_registered"
    and li: "m_limiter (sy_mgr s) = Some (NewLimiter None 0 0)"
  define m where "m = sy_mgr s"
  define m1 where "m1 = after (IsPaired mem_backend 2) m"
  define f where "f = po_pc (pool_of s)"
  have f: "f 1 = AwaitFrame" "f 2 = AwaitFrame" by (simp_all add: f_def pool_of_def pc_of_def ph)
  have fin: "mem_finite (m_store m)"
    using mem_relay.soundD(5) [OF mem_relay.reach_sound [OF sample_backend(1) sample_start_ok r]] by (simp add: m_def)
  have paired: "result (IsPaired mem_backend 2) m" "abs_routing ms_waiting ms_peers m1 = abs_routing ms_waiting ms_peers m"
      "mem_finite (m_store m1)"
    using mem_relay.IsPaired_run [OF fin, of 2] ab
    by (simp_all add: m1_def m_def sample_paired)
  have ab1: "abs_routing ms_waiting ms_peers m1 = rt_connected 2 ''ann-1'' sample_id sample_registered" using paired ab by (simp add: m_def)
  have li1: "m_limiter m1 = Some (NewLimiter None 0 0)" using li by (simp add: m1_def m_def IsPaired_def relay_simps)
  have "pool_of s = \<lparr>po_mgr = m, po_pc = f\<rparr>" by (simp add: pool_of_def f_def m_def)
  then have r0: "runs sample_site (orderly sample_site) sample_start \<lparr>po_mgr = m, po_pc = f\<rparr>" using reach_orderly [OF r] by simp
  have "tick sample_site \<lparr>po_mgr = m, po_pc = f\<rparr> (Arrive 2 sample_rd MessageText ''hi'')
      \<lparr>po_mgr = m, po_pc = f(2 := Dispatch sample_rd MessageText ''hi'')\<rparr>"
    using f by (simp add: tick_arrive_iff)
  from runs_tick [OF r0 _ this] have r1: "runs sample_site (orderly sample_site) sample_start
      \<lparr>po_mgr = m, po_pc = f(2 := Dispatch sample_rd MessageText ''hi'')\<rparr>" by (simp add: orderly_def)
  have "run_state (advance sample_site 2 (Dispatch sample_rd MessageText ''hi'')) m = (ForwardAllow sample_rd MessageText ''hi'', m1)"
    using paired by (simp add: split_def m1_def sample_backend)
  from run_tick [OF r1 _ _ _ this] have r2: "runs sample_site (orderly sample_site) sample_start
      \<lparr>po_mgr = m1, po_pc = f(2 := ForwardAllow sample_rd MessageText ''hi'')\<rparr>"
    using paired by (simp add: busy_def draws_fresh_def orderly_def sample_backend)
  have "run_state (advance sample_site 2 (ForwardAllow sample_rd MessageText ''hi'')) m1 = (ForwardFind sample_rd MessageText ''hi'', m1)"
    using allow_unlimited [OF li1] by (simp add: advance_simps)
  from run_tick [OF r2 _ _ _ this] have r3: "runs sample_site (orderly sample_site) sample_start
      \<lparr>po_mgr = m1, po_pc = f(2 := ForwardFind sample_rd MessageText ''hi'')\<rparr>"
    by (simp add: busy_def draws_fresh_def orderly_def)
  have c: "c_ClientID (m_heap m1 2) = sample_id"
    using arg_cong [OF ab1, of rt_heap] by (simp add: abs_routing_def sample_connected_eq sample_conn_def)
  have "route mem_backend m1 (ms_peers (m_store m1)) 2 MessageText ''hi'' = [(1, MessageBinary, sample_frame_bytes)]"
    using arg_cong [OF ab1, of rt_heap] arg_cong [OF ab1, of rt_groups]
    by (simp add: abs_routing_def sample_connected_eq route_def sample_conn_def sample_id_nonempty mem_backend_def Let_def sample_frame_bytes_def)
  then have "run_state (advance sample_site 2 (ForwardFind sample_rd MessageText ''hi'')) m1
      = (ForwardWrites [(1, MessageBinary, sample_frame_bytes)] AwaitFrame, m1)"
    using c sample_id_nonempty by (simp add: find_targets_route [OF paired(3) mem_relay.st.store_axioms] sample_backend)
  from run_tick [OF r3 _ _ _ this] have r4: "runs sample_site (orderly sample_site) sample_start
      \<lparr>po_mgr = m1, po_pc = f(2 := ForwardWrites [(1, MessageBinary, sample_frame_bytes)] AwaitFrame)\<rparr>"
    by (simp add: busy_def draws_fresh_def orderly_def)
  show thesis by (rule that [OF r4]) (use f ab1 in simp_all)
qed

text \<open>A run in which the second connection is about to be attached to the waiting server.\<close>
definition register_frame :: bytes where
  "register_frame = json_render (json_of_ServerRegister sample_register)"

definition connect_frame :: bytes where
  "connect_frame = json_render (json_of_ClientConnect sample_connect)"

lemma sample_frames:
  "ParseMessage register_frame = Some (MServerRegister sample_register)"
  "ParseMessage connect_frame = Some (MClientConnect sample_connect)"
proof -
  have "utf8_valid ''ann-1''" "utf8_valid ''i1''" "utf8_valid ''a.b.c''" "utf8_valid []" by code_simp+
  then show "ParseMessage register_frame = Some (MServerRegister sample_register)"
    "ParseMessage connect_frame = Some (MClientConnect sample_connect)"
    by (simp_all add: register_frame_def connect_frame_def ParseMessage_ServerRegister ParseMessage_ClientConnect
        sample_register_def sample_connect_def)
qed

context relay_backend
begin

text \<open>An unpaired connection's text frame.\<close>
lemma dispatch_unpaired:
  assumes "si_backend W = B" "inv (m_store m)" "\<not> rt_paired p (abs m)"
  shows "run_state (advance W p (Dispatch rd MessageText data)) m
    = ((case ParseMessage data of None \<Rightarrow> AwaitFrame
        | Some (MServerRegister r) \<Rightarrow> admit W p rd r | Some (MClientConnect r) \<Rightarrow> ConCheck rd (cc_Username r)),
       after (IsPaired B p) m)"
  using IsPaired_run [OF assms(2), of p] assms(1,3) by (simp add: split_def)

end

lemma sample_attaching:
  obtains s where "runs sample_site (orderly sample_site) sample_start s" "po_pc s 2 = ConAttach sample_rd ''ann-1''"
    "ms_waiting (m_store (po_mgr s)) ''ann-1'' = Some ''a''" "unused_client (po_mgr s) (new_clientID sample_rd)"
proof (rule sample_server_run)
  fix s
  assume r: "reach sample_site (once sample_site) sample_start s" and ph: "sy_phase s = (\<lambda>_. Unused)(1 := Reading, 2 := Reading)"
    and ab: "abs_routing ms_waiting ms_peers (sy_mgr s) = sample_registered" and o: "owner (m_db (sy_mgr s)) ''ann-1'' = Some ''i1''"
    and g: "mem_relay.good (sy_mgr s)"
  define m where "m = sy_mgr s"
  define m1 where "m1 = after (IsPaired mem_backend 2) m"
  define m2 where "m2 = m1\<lparr>m_db := after (IsRegistered (b_sql mem_backend) ''ann-1'') (m_db m1)\<rparr>"
  define f where "f = po_pc (pool_of s)"
  have f: "f 2 = AwaitFrame" by (simp add: f_def pool_of_def pc_of_def ph)
  have fin: "mem_finite (m_store m)" using g by (simp add: m_def mem_relay.good_def)
  have np: "\<not> rt_paired 2 (abs_routing ms_waiting ms_peers m)"
    by (simp add: m_def ab sample_registered_eq rt_paired_def NewConn_def Let_def)
  have m1: "abs_routing ms_waiting ms_peers m1 = sample_registered" "m_db m1 = m_db m"
    using mem_relay.IsPaired_run [OF fin, of 2] ab by (simp_all add: m1_def m_def)
  have "result (IsRegistered (b_sql mem_backend) ''ann-1'') (m_db m1)"
    using sql_reliable.IsRegistered_reliable [OF sample_backend(2), of "''ann-1''" "m_db m1"] o m1(2) by (auto simp: m_def)
  then have check: "run_state (advance sample_site 2 (ConCheck sample_rd ''ann-1'')) m1 = (ConAttach sample_rd ''ann-1'', m2)"
    by (simp add: relay_simps sample_backend m2_def)
  have "pool_of s = \<lparr>po_mgr = m, po_pc = f\<rparr>" by (simp add: pool_of_def f_def m_def)
  then have r0: "runs sample_site (orderly sample_site) sample_start \<lparr>po_mgr = m, po_pc = f\<rparr>" using reach_orderly [OF r] by simp
  have "tick sample_site \<lparr>po_mgr = m, po_pc = f\<rparr> (Arrive 2 sample_rd MessageText connect_frame)
      \<lparr>po_mgr = m, po_pc = f(2 := Dispatch sample_rd MessageText connect_frame)\<rparr>"
    using f by (simp add: tick_arrive_iff)
  from runs_tick [OF r0 _ this] have r1: "runs sample_site (orderly sample_site) sample_start
      \<lparr>po_mgr = m, po_pc = f(2 := Dispatch sample_rd MessageText connect_frame)\<rparr>" by (simp add: orderly_def)
  have dispatch: "run_state (advance sample_site 2 (Dispatch sample_rd MessageText connect_frame)) m = (ConCheck sample_rd ''ann-1'', m1)"
    using mem_relay.dispatch_unpaired [OF sample_backend(1) fin np, of sample_rd connect_frame] sample_frames(2)
    by (simp add: m1_def sample_connect_def)
  have "c_Username (m_heap m 2) = []"
    using arg_cong [OF ab, of rt_heap] by (simp add: abs_routing_def sample_registered_eq NewConn_def m_def)
  with run_tick [OF r1 _ _ _ dispatch] have r2: "runs sample_site (orderly sample_site) sample_start
      \<lparr>po_mgr = m1, po_pc = f(2 := ConCheck sample_rd ''ann-1'')\<rparr>"
    by (simp add: busy_def draws_fresh_def orderly_def)
  from run_tick [OF r2 _ _ _ check] have r3: "runs sample_site (orderly sample_site) sample_start
      \<lparr>po_mgr = m2, po_pc = f(2 := ConAttach sample_rd ''ann-1'')\<rparr>"
    by (simp add: busy_def draws_fresh_def orderly_def)
  have "ms_waiting (m_store m1) ''ann-1'' = Some ''a''"
    using arg_cong [OF m1(1), of rt_waiting] by (simp add: abs_routing_def sample_registered_eq)
  moreover have "m_multiGroups m1 = Map.empty"
    using arg_cong [OF m1(1), of rt_groups] by (simp add: abs_routing_def sample_registered_eq)
  ultimately show thesis using that [OF r3] by (simp add: m2_def unused_client_def sample_rd_def sample_id_nonempty)
qed

text \<open>And one in which it leaves: the read of the second connection fails right after it was accepted.\<close>
lemma sample_left:
  obtains s s' es where "runs sample_site (orderly sample_site) sample_start s" "po_pc s 2 = Say es Ended"
    "ticks sample_site (orderly sample_site) s s'" "po_pc s' 2 = Ended"
proof (rule sample_accepted)
  fix s
  assume r: "reach sample_site (once sample_site) sample_start s" and ph: "sy_phase s = (\<lambda>_. Unused)(1 := Reading, 2 := Reading)"
  define m where "m = sy_mgr s"
  define f where "f = po_pc (pool_of s)"
  have f: "f 2 = AwaitFrame" "\<And>q. f q \<in> range pc_of" by (simp_all add: f_def pool_of_def pc_of_def ph)
  have "pool_of s = \<lparr>po_mgr = m, po_pc = f\<rparr>" by (simp add: pool_of_def f_def m_def)
  then have r0: "runs sample_site (orderly sample_site) sample_start \<lparr>po_mgr = m, po_pc = f\<rparr>" using reach_orderly [OF r] by simp
  have "tick sample_site \<lparr>po_mgr = m, po_pc = f\<rparr> (ReadFails 2) \<lparr>po_mgr = m, po_pc = f(2 := AtDefer)\<rparr>"
    using f by (simp add: tick_fails_iff)
  from runs_tick [OF r0 _ this] have r1: "runs sample_site (orderly sample_site) sample_start \<lparr>po_mgr = m, po_pc = f(2 := AtDefer)\<rparr>"
    by (simp add: orderly_def)
  obtain es m' where d: "run_state (advance sample_site 2 AtDefer) m = (Say es Ended, m')" by (force simp: split_def)
  from run_tick [OF r1 _ _ _ d] have r2: "runs sample_site (orderly sample_site) sample_start
      \<lparr>po_mgr = m', po_pc = f(2 := Say es Ended)\<rparr>" by (simp add: busy_def draws_fresh_def orderly_def)
  obtain n where n: "run_state (solo n sample_site 2 (Say es Ended)) m' = (Ended, m'\<lparr>m_out := m_out m' @ es\<rparr>)"
    using leads_say [of sample_site 2 es Ended m'] by (auto simp: leads_def)
  have p: "orderly sample_site \<lparr>po_mgr = x, po_pc = f(2 := j)\<rparr> (Run 2)" if "\<not> dispatching j" for x j
    using that unmarked_others [of 2 "\<lparr>po_mgr = x, po_pc = f(2 := j)\<rparr>"] f(2)
    by (cases j) (auto simp: orderly_def dispatching_def)
  have "ticks sample_site (orderly sample_site) \<lparr>po_mgr = m', po_pc = f(2 := Say es Ended)\<rparr>
      \<lparr>po_mgr = m'\<lparr>m_out := m_out m' @ es\<rparr>, po_pc = f(2 := Ended)\<rparr>"
    by (rule solo_ticks [OF _ _ n]) (simp_all add: p dispatching_def)
  from that [OF r2 _ this] show thesis by simp
qed

section \<open>Properties\<close>

text \<open>C1 In every orderly run (one handshake per connection, no client attached while the multi-client server of the
  username is being marked, no shutdown), however the goroutines interleave: a frame that a goroutine has
  looked up receivers for is written only to connections of the sender's username on the other side, server
  or client; instead of a write the sender may get the notice that a receiver is too slow. Connections in
  the middle of a handshake count with the fields their goroutine is about to assign.\<close>
theorem writes_stay_within_username:
  assumes "relay_backend B waiting peers store_ok tbl" "si_backend W = B" "start waiting peers store_ok tbl m0"
    "runs W (orderly W) m0 s" "po_pc s p = ForwardWrites ((q, ty, data) # ws) k" "tick W s (Run p) s'"
  shows "\<exists>e. m_out (po_mgr s') = m_out (po_mgr s) @ [e]
    \<and> (e = Write p MessageText (json_render (json_of_RelayBackpressure (NewRelayBackpressure ''slow_peer'')))
       \<or> e = Write q ty data \<and> po_pc s q \<noteq> Idle \<and> c_Username (settled_heap s p) \<noteq> []
         \<and> c_Username (settled_heap s q) = c_Username (settled_heap s p)
         \<and> c_IsServer (settled_heap s q) \<noteq> c_IsServer (settled_heap s p))"
proof -
  have "writes_ok s" by (rule relay_backend.runs_writes [OF assms(1-4)])
  with assms(5) have f: "facing s p q" unfolding writes_ok_def by (auto dest: spec [of _ p])
  have "m_out (po_mgr s') = m_out (po_mgr s) @ [delivery_of (m_heap (po_mgr s)) q p ty data]"
    using assms(6) unfolding tick_run_iff assms(5) by (auto simp: run_write_begin)
  with f show ?thesis by (auto simp: facing_def delivery_of_def)
qed

theorem writes_stay_within_username_witness:
  "\<exists>s s'. runs sample_site (orderly sample_site) sample_start s \<and> tick sample_site s (Run 2) s'
    \<and> (\<exists>e. m_out (po_mgr s') = m_out (po_mgr s) @ [e])"
proof (rule sample_forwarding)
  fix s
  assume r: "runs sample_site (orderly sample_site) sample_start s"
    and k: "po_pc s 2 = ForwardWrites [(1, MessageBinary, sample_frame_bytes)] AwaitFrame"
  obtain k' m' where "run_state (advance sample_site 2 (po_pc s 2)) (po_mgr s) = (k', m')" by force
  then have t: "tick sample_site s (Run 2) \<lparr>po_mgr = m', po_pc = (po_pc s)(2 := k')\<rparr>"
    by (intro tick_run) (simp_all add: k busy_def draws_fresh_def)
  show ?thesis
    using writes_stay_within_username [OF mem_relay.relay_backend_axioms sample_backend(1) sample_start_ok r k t] r t by blast
qed

text \<open>C2 Whatever the peers send and however the goroutines interleave, also during a shutdown: a connection
  the manager holds under an id, or as a client of a group, is being served, under its own id, or under its
  username and client id; and no group is left without clients. The server connection a group writes to
  need not be served in every run; in the orderly runs it is, as a multi-client connection that is
  registered for the group's username.\<close>
theorem manager_reaches_only_served:
  assumes "relay_backend B waiting peers store_ok tbl" "si_backend W = B" "start waiting peers store_ok tbl m0" "runs W G m0 s"
  shows "(\<forall>i p. m_conns (po_mgr s) i = Some p \<longrightarrow> serving s p \<and> c_ID (m_heap (po_mgr s) p) = i)
    \<and> (\<forall>u g. m_multiGroups (po_mgr s) u = Some g \<longrightarrow> g_clients g \<noteq> Map.empty
        \<and> (\<forall>i p. g_clients g i = Some p \<longrightarrow>
            serving s p \<and> c_ClientID (m_heap (po_mgr s) p) = i \<and> c_Username (m_heap (po_mgr s) p) = u))
    \<and> (G = orderly W \<longrightarrow> (\<forall>u g. m_multiGroups (po_mgr s) u = Some g \<longrightarrow> serving s (g_serverConn g)
        \<and> c_Username (settled_heap s (g_serverConn g)) = u \<and> c_IsServer (settled_heap s (g_serverConn g))
        \<and> c_MultiClient (settled_heap s (g_serverConn g))))"
proof (intro conjI)
  note so = relay_backend.runs_sound [OF assms]
  show "\<forall>i p. m_conns (po_mgr s) i = Some p \<longrightarrow> serving s p \<and> c_ID (m_heap (po_mgr s) p) = i"
    using relay_backend.pool_conns [OF assms(1) so] by blast
  show "\<forall>u g. m_multiGroups (po_mgr s) u = Some g \<longrightarrow> g_clients g \<noteq> Map.empty
        \<and> (\<forall>i p. g_clients g i = Some p \<longrightarrow>
            serving s p \<and> c_ClientID (m_heap (po_mgr s) p) = i \<and> c_Username (m_heap (po_mgr s) p) = u)"
    using relay_backend.pool_clients [OF assms(1) so] relay_backend.pool_groups [OF assms(1) so] by metis
  show "G = orderly W \<longrightarrow> (\<forall>u g. m_multiGroups (po_mgr s) u = Some g \<longrightarrow> serving s (g_serverConn g)
        \<and> c_Username (settled_heap s (g_serverConn g)) = u \<and> c_IsServer (settled_heap s (g_serverConn g))
        \<and> c_MultiClient (settled_heap s (g_serverConn g)))"
  proof (intro impI allI)
    fix u g
    assume G: "G = orderly W" and g: "m_multiGroups (po_mgr s) u = Some g"
    have "runs W (orderly W) m0 s" using assms(4) by (simp only: G)
    from relay_backend.groups_led [OF assms(1-3) this g]
    show "serving s (g_serverConn g) \<and> c_Username (settled_heap s (g_serverConn g)) = u \<and> c_IsServer (settled_heap s (g_serverConn g))
        \<and> c_MultiClient (settled_heap s (g_serverConn g))" by simp
  qed
qed

theorem manager_reaches_only_served_witness:
  "\<exists>s. runs sample_site (orderly sample_site) sample_start s \<and> po_pc s 2 \<noteq> AwaitFrame
     \<and> m_conns (po_mgr s) ''b'' = Some 2 \<and> serving s 2 \<and> (\<exists>g. m_multiGroups (po_mgr s) ''ann-1'' = Some g \<and> serving s (g_serverConn g))"
proof (rule sample_forwarding)
  fix s
  assume r: "runs sample_site (orderly sample_site) sample_start s"
    and k: "po_pc s 2 = ForwardWrites [(1, MessageBinary, sample_frame_bytes)] AwaitFrame"
    and ab: "abs_routing ms_waiting ms_peers (po_mgr s) = rt_connected 2 ''ann-1'' sample_id sample_registered"
  have "m_conns (po_mgr s) ''b'' = Some 2" "m_multiGroups (po_mgr s) ''ann-1'' \<noteq> None"
    using arg_cong [OF ab, of rt_conns] arg_cong [OF ab, of rt_groups] by (simp_all add: abs_routing_def sample_connected_eq)
  then show ?thesis
    using manager_reaches_only_served [OF mem_relay.relay_backend_axioms sample_backend(1) sample_start_ok r] r k by auto
qed

text \<open>C7 A goroutine whose clean-up has taken its connection out of the manager does nothing but its last calls.
  Whatever the others do later, the connection is never served again, and the manager holds it under no
  id and as a client of no group; in orderly runs it is not the server connection of a group either.\<close>
theorem ended_for_good:
  assumes "relay_backend B waiting peers store_ok tbl" "si_backend W = B" "start waiting peers store_ok tbl m0"
    "runs W G m0 s" "finished (po_pc s p)" "ticks W G s s'"
  shows "finished (po_pc s' p) \<and> \<not> serving s' p \<and> (\<forall>i. m_conns (po_mgr s') i \<noteq> Some p)
    \<and> (\<forall>u g i. m_multiGroups (po_mgr s') u = Some g \<longrightarrow> g_clients g i \<noteq> Some p)
    \<and> (G = orderly W \<longrightarrow> (\<forall>u g. m_multiGroups (po_mgr s') u = Some g \<longrightarrow> g_serverConn g \<noteq> p))"
proof -
  have f: "finished (po_pc s' p)" by (rule ticks_finished [OF assms(6,5)])
  then have n: "\<not> serving s' p" by (auto simp: finished_def serving_def)
  note r = runs_ticks [OF assms(4,6)]
  note so = relay_backend.runs_sound [OF assms(1-3) r]
  note c = relay_backend.pool_conns(1) [OF assms(1) so] relay_backend.pool_clients(1) [OF assms(1) so]
  from f n c relay_backend.groups_led(1) [OF assms(1-3)] r show ?thesis by blast
qed

theorem ended_for_good_witness:
  "\<exists>s s'. runs sample_site (orderly sample_site) sample_start s \<and> finished (po_pc s 2)
     \<and> ticks sample_site (orderly sample_site) s s' \<and> po_pc s' 2 = Ended \<and> \<not> serving s' 2"
proof (rule sample_left)
  fix s s' es
  assume s: "runs sample_site (orderly sample_site) sample_start s" "po_pc s 2 = Say es Ended"
    "ticks sample_site (orderly sample_site) s s'" "po_pc s' 2 = Ended"
  have f: "finished (po_pc s 2)" by (simp add: s(2) finished_def)
  from ended_for_good [OF mem_relay.relay_backend_axioms sample_backend(1) sample_start_ok s(1) f s(3)] s f
  show ?thesis by blast
qed

text \<open>C4 In every orderly run, a username that waits is served by a live connection that registered
  it and is not paired, and pairs are symmetric, between a server and a client of one username, both
  alive. Connections in the middle of a handshake count with the fields about to be assigned. A shutdown or
  an attachment while the server is being marked, which orderly runs exclude, can break this.\<close>
theorem waiting_and_pairs_interleaved:
  assumes "relay_backend B waiting peers store_ok tbl" "si_backend W = B" "start waiting peers store_ok tbl m0"
    "runs W (orderly W) m0 s"
  defines "m \<equiv> po_mgr s"
  shows "(\<forall>u i. waiting (m_store m) u = Some i \<longrightarrow> peers (m_store m) i = None
      \<and> (\<exists>q. m_conns m i = Some q \<and> serving s q \<and> c_Username (settled_heap s q) = u \<and> c_IsServer (settled_heap s q)))
    \<and> (\<forall>i j. peers (m_store m) i = Some j \<longrightarrow> peers (m_store m) j = Some i \<and> i \<noteq> j
      \<and> (\<exists>p q. m_conns m i = Some p \<and> m_conns m j = Some q \<and> serving s p \<and> serving s q
          \<and> c_Username (settled_heap s p) = c_Username (settled_heap s q)
          \<and> c_IsServer (settled_heap s p) \<noteq> c_IsServer (settled_heap s q)))"
proof -
  define R where "R = relay_backend.view waiting peers s"
  have o: "once_inv (serving s) R"
    using relay_backend.runs_orderly [OF assms(1-4)] by (simp add: relay_backend.orderly_pool_def [OF assms(1)] R_def)
  note v = relay_backend.view_simps [OF assms(1), of s, folded R_def m_def]
  from waiting_served [OF o] pairs_served [OF o] show ?thesis unfolding v by blast
qed

theorem waiting_and_pairs_interleaved_witness:
  "\<exists>s. runs sample_site (orderly sample_site) sample_start s \<and> ms_waiting (m_store (po_mgr s)) ''ann-1'' = Some ''a''
     \<and> (\<exists>q. m_conns (po_mgr s) ''a'' = Some q \<and> serving s q)"
proof (rule sample_forwarding)
  fix s
  assume r: "runs sample_site (orderly sample_site) sample_start s"
    and ab: "abs_routing ms_waiting ms_peers (po_mgr s) = rt_connected 2 ''ann-1'' sample_id sample_registered"
  have "ms_waiting (m_store (po_mgr s)) ''ann-1'' = Some ''a''"
    using arg_cong [OF ab, of rt_waiting] by (simp add: abs_routing_def sample_connected_eq)
  then show ?thesis
    using waiting_and_pairs_interleaved [OF mem_relay.relay_backend_axioms sample_backend(1) sample_start_ok r] r by blast
qed

text \<open>The runs in which a goroutine handles its frames without interruption are among the interleaved ones: a
  state reached by whole events is reached by pieces too, under the same manager, with every goroutine
  waiting for a frame, about to clean up, or gone, as its phase says; and if every peer sends one
  handshake, the pieces are those of an orderly run.\<close>
lemma whole_events_are_interleavings:
  assumes "reach W G m0 s"
  shows "\<exists>t. runs W any_act m0 t \<and> (G = once W \<longrightarrow> runs W (orderly W) m0 t) \<and> po_mgr t = sy_mgr s
    \<and> po_pc t = (\<lambda>p. pc_of (sy_phase s p))"
  using reach_runs [OF assms] reach_orderly [of W m0 s] assms by (auto simp: pool_of_def intro!: exI [of _ "pool_of s"])

text \<open>C5 In every orderly run: when the critical section of \<open>ConnectClient\<close> runs for a username that waits, the waiting
  server is a live connection registered for the username, and the client is attached: to a multi-client
  server as a client of the username's group, under the id drawn, with the server about to be told, and
  to any other server as its peer. It is not refused.\<close>
theorem client_finds_waiting_server:
  assumes "relay_backend B waiting peers store_ok tbl" "si_backend W = B" "start waiting peers store_ok tbl m0"
    "runs W (orderly W) m0 s" "po_pc s p = ConAttach rd u" "waiting (m_store (po_mgr s)) u = Some i" "tick W s (Run p) s'"
  shows "\<exists>q. m_conns (po_mgr s) i = Some q \<and> serving s q \<and> c_Username (settled_heap s q) = u \<and> c_IsServer (settled_heap s q)
    \<and> (if c_MultiClient (m_heap (po_mgr s) q)
       then po_pc s' p = Say [Write q MessageText (json_render (json_of_RelayClientJoined (NewRelayClientJoined (new_clientID rd))))]
              (ConSeen rd u (new_clientID rd))
         \<and> (\<exists>g. m_multiGroups (po_mgr s') u = Some g \<and> g_clients g (new_clientID rd) = Some p)
       else po_pc s' p = ConSeen rd u []
         \<and> peers (m_store (po_mgr s')) (c_ID (m_heap (po_mgr s) p)) = Some i
         \<and> peers (m_store (po_mgr s')) i = Some (c_ID (m_heap (po_mgr s) p)))"
proof -
  define m where "m = po_mgr s"
  define R where "R = abs_routing waiting peers m"
  have o: "once_inv (serving s) (relay_backend.view waiting peers s)"
    using relay_backend.runs_orderly [OF assms(1-4)] by (simp add: relay_backend.orderly_pool_def [OF assms(1)])
  note so = relay_backend.runs_sound [OF assms(1-4)]
  obtain q where q: "m_conns m i = Some q" "serving s q" "c_Username (settled_heap s q) = u" "c_IsServer (settled_heap s q)"
    using waiting_served [OF o, of u i] assms(6) by (auto simp: relay_backend.view_simps [OF assms(1)] m_def)
  obtain a m1 where a: "run_state (attach B rd p u) m = (a, m1)" by force
  have att: "(connection_result a, abs_routing waiting peers m1, joined_notice a) = rt_connect p u (new_clientID rd) R"
    using relay_backend.attach_refines [OF assms(1) relay_backend.sound_poolD(7,5) [OF assms(1) so]] a by (auto simp: m_def R_def)
  have con: "rt_connect p u (new_clientID rd) R = (if c_MultiClient (m_heap m q)
      then (\<lparr>cr_Status = ''connected'', cr_ServerWS = Some q, cr_ClientID = new_clientID rd\<rparr>, rt_join p u q (new_clientID rd) R,
         [Write q MessageText (json_render (json_of_RelayClientJoined (NewRelayClientJoined (new_clientID rd))))])
      else (\<lparr>cr_Status = ''connected'', cr_ServerWS = Some q, cr_ClientID = []\<rparr>, rt_pair p u i R, []))"
    using assms(6) q(1) by (simp add: rt_connect_def R_def abs_routing_def m_def)
  have "run_state (advance W p (ConAttach rd u)) m = (case a of NoServer \<Rightarrow> refuse_client p ''server_offline''
      | Joined q i \<Rightarrow> Say [Write q MessageText (json_render (json_of_RelayClientJoined (NewRelayClientJoined i)))] (ConSeen rd u i)
      | Paired q \<Rightarrow> ConSeen rd u [], m1)" using a assms(2) by simp
  then have s': "po_mgr s' = m1" "po_pc s' p = (case a of NoServer \<Rightarrow> refuse_client p ''server_offline''
      | Joined q i \<Rightarrow> Say [Write q MessageText (json_render (json_of_RelayClientJoined (NewRelayClientJoined i)))] (ConSeen rd u i)
      | Paired q \<Rightarrow> ConSeen rd u [])"
    using assms(5,7) by (auto simp: tick_run_iff m_def)
  show ?thesis
  proof (cases "c_MultiClient (m_heap m q)")
    case True
    then have "a = Joined q (new_clientID rd)" "abs_routing waiting peers m1 = rt_join p u q (new_clientID rd) R"
      using att con by (cases a; simp add: refused_def)+
    moreover from this(2) have "rt_groups (abs_routing waiting peers m1) = rt_groups (rt_join p u q (new_clientID rd) R)" by simp
    then have "\<exists>g. m_multiGroups m1 u = Some g \<and> g_clients g (new_clientID rd) = Some p"
      by (simp add: abs_routing_def rt_join_def Let_def)
    ultimately show ?thesis using q True s' by (simp add: m_def)
  next
    case False
    then have "a = Paired q" "abs_routing waiting peers m1 = rt_pair p u i R"
      using att con by (cases a; simp add: refused_def)+
    moreover from this(2) have "rt_peers (abs_routing waiting peers m1) = rt_peers (rt_pair p u i R)" by simp
    then have "peers (m_store m1) (c_ID (m_heap m p)) = Some i" "peers (m_store m1) i = Some (c_ID (m_heap m p))"
      by (simp_all add: abs_routing_def rt_pair_def Let_def R_def)
    ultimately show ?thesis using q False s' by (simp add: m_def)
  qed
qed

theorem client_finds_waiting_server_witness:
  "\<exists>s s'. runs sample_site (orderly sample_site) sample_start s \<and> po_pc s 2 = ConAttach sample_rd ''ann-1''
     \<and> tick sample_site s (Run 2) s' \<and> (\<exists>q. m_conns (po_mgr s) ''a'' = Some q \<and> serving s q)"
proof (rule sample_attaching)
  fix s
  assume r: "runs sample_site (orderly sample_site) sample_start s" and k: "po_pc s 2 = ConAttach sample_rd ''ann-1''"
    and w: "ms_waiting (m_store (po_mgr s)) ''ann-1'' = Some ''a''" and unused: "unused_client (po_mgr s) (new_clientID sample_rd)"
  obtain k' m' where "run_state (advance sample_site 2 (po_pc s 2)) (po_mgr s) = (k', m')" by force
  then have t: "tick sample_site s (Run 2) \<lparr>po_mgr = m', po_pc = (po_pc s)(2 := k')\<rparr>"
    by (intro tick_run) (simp_all add: k busy_def draws_fresh_def unused)
  show ?thesis
    using client_finds_waiting_server [OF mem_relay.relay_backend_axioms sample_backend(1) sample_start_ok r k w t] r k t by blast
qed

text \<open>C8 In every orderly run, the online endpoint tells the truth: a username is reported online
  exactly when it waits, and then a live connection is its server, or is about to be marked as such.\<close>
theorem online_means_served:
  assumes "relay_backend B waiting peers store_ok tbl" "si_backend W = B" "start waiting peers store_ok tbl m0"
    "runs W (orderly W) m0 s" "sv_backend S = B" "mux (rq_Method r) (rq_Path r) = EOnline"
    "sc_AdminToken (sv_cfg S) = [] \<or> rq_AdminToken r = sc_AdminToken (sv_cfg S)"
    "run_state (serveHTTP S h r) (po_mgr s) = (resp, m')"
  shows "\<exists>online. rs_Code resp = 200 \<and> rs_Body resp = JsonBody (JObj [(''online'', JBool online)])
    \<and> (online \<longleftrightarrow> waiting (m_store (po_mgr s)) (rq_PathUsername r) \<noteq> None)
    \<and> (online \<longrightarrow> (\<exists>q. serving s q \<and> c_Username (settled_heap s q) = rq_PathUsername r \<and> c_IsServer (settled_heap s q)))"
proof -
  define u where "u = rq_PathUsername r"
  define online where "online = (waiting (m_store (po_mgr s)) u \<noteq> None)"
  define R where "R = relay_backend.view waiting peers s"
  have so: "once_inv (serving s) R" "store_ok (m_store (po_mgr s))"
    using relay_backend.runs_orderly [OF assms(1-4)] relay_backend.sound_poolD(7) [OF assms(1) relay_backend.runs_sound [OF assms(1-4)]]
    by (simp_all add: relay_backend.orderly_pool_def [OF assms(1)] R_def)
  note v = relay_backend.view_simps [OF assms(1), of s, folded R_def]
  have "online \<Longrightarrow> \<exists>q. serving s q \<and> c_Username (settled_heap s q) = u \<and> c_IsServer (settled_heap s q)"
    using waiting_served [OF so(1), of u] by (auto simp: online_def v)
  moreover have "result (IsWaiting B u) (po_mgr s) = online"
    using store.IsWaiting_law [of "b_store B" waiting peers store_ok "m_store (po_mgr s)" u] so(2) assms(1)
    by (simp add: IsWaiting_def relay_simps relay_backend_def online_def)
  moreover have "rq_Method r \<noteq> ''OPTIONS''" using assms(6) by (auto simp: mux_def is_get_def split: if_splits)
  ultimately show ?thesis
    using assms(5-8) unfolding u_def [symmetric] online_def
    by (intro exI [of _ online])
      (auto simp: serveHTTP_def corsHandler_def dispatch_def withAdminAuth_def handleOnline_def json_response_def split_def u_def online_def Let_def)
qed

theorem online_means_served_witness:
  "\<exists>s. runs sample_site (orderly sample_site) sample_start s
     \<and> rs_Body (result (serveHTTP (sample_http ''adm'') \<lparr>hr_rd = sample_rd, hr_uptime = JNull, hr_memory = JNull, hr_uid = ''x'', hr_conn = 9,
           hr_frames = []\<rparr> (sample_request ''/online/ann-1'' ''adm'')) (po_mgr s))
       = JsonBody (JObj [(''online'', JBool True)]) \<and> (\<exists>q. serving s q \<and> c_Username (settled_heap s q) = ''ann-1'')"
proof (rule sample_forwarding)
  fix s
  assume r: "runs sample_site (orderly sample_site) sample_start s"
    and ab: "abs_routing ms_waiting ms_peers (po_mgr s) = rt_connected 2 ''ann-1'' sample_id sample_registered"
  define h where "h = \<lparr>hr_rd = sample_rd, hr_uptime = JNull, hr_memory = JNull, hr_uid = ''x'', hr_conn = 9, hr_frames = []\<rparr>"
  define rq where "rq = sample_request ''/online/ann-1'' ''adm''"
  have w: "ms_waiting (m_store (po_mgr s)) ''ann-1'' = Some ''a''"
    using arg_cong [OF ab, of rt_waiting] by (simp add: abs_routing_def sample_connected_eq)
  obtain resp m' where run: "run_state (serveHTTP (sample_http ''adm'') h rq) (po_mgr s) = (resp, m')" by force
  have "rs_Body resp = JsonBody (JObj [(''online'', JBool True)]) \<and> (\<exists>q. serving s q \<and> c_Username (settled_heap s q) = ''ann-1'')"
    using online_means_served [OF mem_relay.relay_backend_axioms sample_backend(1) sample_start_ok r _ _ _ run] w
    by (auto simp: sample_http_def rq_def sample_request_def mux_def is_get_def is_online_path_def has_prefix_def rq_PathUsername_def)
  with r run show ?thesis by (auto simp: h_def rq_def)
qed

text \<open>C9 Whatever the peers send and however the goroutines interleave, the state keeps its types: program
  counters combine as the handler's calls do, with valid usernames in registrations under way; the store
  keeps its own invariant; usernames that are registered, wait or have a group are valid; ids of
  connections being served are distinct and not empty, and so are the ids the store holds.\<close>
theorem states_well_typed:
  assumes "relay_backend B waiting peers store_ok tbl" "si_backend W = B" "start waiting peers store_ok tbl m0" "runs W G m0 s"
  defines "m \<equiv> po_mgr s"
  shows "wf_pc (po_pc s p) \<and> store_ok (m_store m)
    \<and> (owner (tbl (m_db m)) u \<noteq> None \<or> waiting (m_store m) u \<noteq> None \<or> m_multiGroups m u \<noteq> None \<longrightarrow> IsValidUsername u)
    \<and> (serving s p \<longrightarrow> c_ID (m_heap m p) \<noteq> [])
    \<and> (serving s p \<and> serving s q \<and> c_ID (m_heap m p) = c_ID (m_heap m q) \<longrightarrow> p = q)
    \<and> [] \<notin> ran (waiting (m_store m)) \<and> [] \<notin> ran (peers (m_store m))"
proof -
  note so = relay_backend.runs_sound [OF assms(1-4)]
  note d = relay_backend.sound_poolD [OF assms(1) so]
  have "names_valid (relay_backend.view waiting peers s)" by (rule relay_backend.runs_names [OF assms(1-4)])
  then have n: "waiting (m_store m) u \<noteq> None \<or> m_multiGroups m u \<noteq> None \<longrightarrow> IsValidUsername u"
    by (simp add: names_valid_def relay_backend.view_simps [OF assms(1)] m_def)
  have o: "owner (tbl (m_db m)) u \<noteq> None \<longrightarrow> IsValidUsername u"
    using d(1) by (simp add: relay_backend.good_def [OF assms(1)] m_def)
  have e: "serving s p \<and> serving s q \<and> c_ID (m_heap m p) = c_ID (m_heap m q) \<longrightarrow> p = q"
    using base_idsD(2) [OF d(2), of p q] by (simp add: relay_backend.view_simps [OF assms(1)] m_def)
  show ?thesis using d(3) [of p] d(5-8) n o e by (simp add: m_def waits_ok_def peers_ok_def)
qed

theorem states_well_typed_witness:
  "\<exists>s. runs sample_site (orderly sample_site) sample_start s \<and> wf_pc (po_pc s 2)
     \<and> ms_waiting (m_store (po_mgr s)) ''ann-1'' \<noteq> None \<and> IsValidUsername ''ann-1''"
proof (rule sample_forwarding)
  fix s
  assume r: "runs sample_site (orderly sample_site) sample_start s"
    and ab: "abs_routing ms_waiting ms_peers (po_mgr s) = rt_connected 2 ''ann-1'' sample_id sample_registered"
  have "ms_waiting (m_store (po_mgr s)) ''ann-1'' \<noteq> None"
    using arg_cong [OF ab, of rt_waiting] by (simp add: abs_routing_def sample_connected_eq)
  then show ?thesis
    using states_well_typed [OF mem_relay.relay_backend_axioms sample_backend(1) sample_start_ok r] r by blast
qed

end
