(* ===== verification/Interleaving_Race.thy ===== *)
theory Interleaving_Race
  imports Interleaving_Runs
begin

text \<open>
  A run of the whole relay in which two handshakes overlap: the client connects after \<open>RegisterServer\<close> has
  published the server and before the handler marks it as multi-client.
\<close>

lemma leads_ticks:
  assumes "leads W p (k, m) (k', m')" "wf_pc k" "draws_later m k"
  shows "ticks W any_act \<lparr>po_mgr = m, po_pc = f(p := k)\<rparr> \<lparr>po_mgr = m', po_pc = f(p := k')\<rparr>"
proof -
  obtain n where "run_state (solo n W p k) m = (k', m')" using assms(1) by (auto simp: leads_def)
  from solo_ticks [OF assms(2,3) this] show ?thesis by (simp add: any_act_def)
qed

lemma leads_runs:
  assumes "runs W any_act m0 \<lparr>po_mgr = m, po_pc = f(p := k)\<rparr>" "leads W p (k, m) (k', m')" "wf_pc k" "draws_later m k"
  shows "runs W any_act m0 \<lparr>po_mgr = m', po_pc = f(p := k')\<rparr>"
  by (rule runs_ticks [OF assms(1) leads_ticks [OF assms(2-4)]])

text \<open>A frame of a connection that waits for one.\<close>
lemma arrive_runs:
  assumes "runs W any_act m0 \<lparr>po_mgr = m, po_pc = f\<rparr>" "f p = AwaitFrame"
    "leads W p (Dispatch rd ty data, m) (k', m')" "unused_client m (new_clientID rd)"
  shows "runs W any_act m0 \<lparr>po_mgr = m', po_pc = f(p := k')\<rparr>"
proof -
  have "tick W \<lparr>po_mgr = m, po_pc = f\<rparr> (Arrive p rd ty data) \<lparr>po_mgr = m, po_pc = f(p := Dispatch rd ty data)\<rparr>"
    using assms(2) by (simp add: tick_arrive_iff)
  with assms(1) have "runs W any_act m0 \<lparr>po_mgr = m, po_pc = f(p := Dispatch rd ty data)\<rparr>"
    by (blast intro: runs_tick any_act_def [THEN iffD2])
  from leads_runs [OF this assms(3)] assms(4) show ?thesis by simp
qed

section \<open>The race\<close>

definition accepted_routing :: routing where
  "accepted_routing = \<lparr>rt_heap = (\<lambda>_. NewConn [])(1 := NewConn ''a'', 2 := NewConn ''b''),
     rt_conns = Map.empty, rt_groups = Map.empty, rt_waiting = Map.empty, rt_peers = Map.empty\<rparr>"

text \<open>The server's goroutine has left \<open>RegisterServer\<close>.\<close>
lemma race_registered:
  assumes "mem_finite (m_store m)" "abs_routing ms_waiting ms_peers m = accepted_routing" "m_db m = fmempty"
  obtains m' where "leads sample_site 1 (Dispatch sample_rd MessageText register_frame, m)
      (RegName sample_rd ''ann-1'' ''i1'' True, m')" "mem_finite (m_store m')"
    "abs_routing ms_waiting ms_peers m' = accepted_routing\<lparr>rt_conns := [''a'' \<mapsto> 1], rt_waiting := [''ann-1'' \<mapsto> ''a'']\<rparr>"
    "owner (m_db m') ''ann-1'' = Some ''i1''"
proof -
  define m1 where "m1 = after (IsPaired mem_backend 1) m"
  have np: "\<not> rt_paired 1 (abs_routing ms_waiting ms_peers m)" by (simp add: assms(2) accepted_routing_def rt_paired_def NewConn_def)
  have m1: "abs_routing ms_waiting ms_peers m1 = accepted_routing" "m_db m1 = fmempty" "mem_finite (m_store m1)"
    using mem_relay.IsPaired_run [OF assms(1), of 1] assms(2,3) by (simp_all add: m1_def)
  have v: "IsValidUsername ''ann-1''" by (simp add: IsValidUsername_eq) code_simp
  obtain m2 where r: "run_state (RegisterServer mem_backend sample_rd 1 ''ann-1'' ''i1'') m1 = (Registered, m2)"
    using RegisterServer_accepts [OF sample_backend(2) v, of m1 "''i1''" sample_rd 1]
    by (cases "run_state (RegisterServer mem_backend sample_rd 1 ''ann-1'' ''i1'') m1") (simp add: m1 owner_empty)
  have "admit sample_site 1 sample_rd sample_register = RegCheck sample_rd ''ann-1'' ''i1'' True"
    using v by (simp add: admit_def jwt_identity_def sample_site_def sample_config_def sample_register_def)
  with mem_relay.dispatch_unpaired [OF sample_backend(1) assms(1) np, of sample_rd register_frame] sample_frames(1)
  have "run_state (advance sample_site 1 (Dispatch sample_rd MessageText register_frame)) m
      = (RegCheck sample_rd ''ann-1'' ''i1'' True, m1)" by (simp add: m1_def)
  from leads_step [OF this leads_RegisterServer [where mc = True, OF r [folded sample_backend(1)], simplified v if_True]]
  have l: "leads sample_site 1 (Dispatch sample_rd MessageText register_frame, m) (RegName sample_rd ''ann-1'' ''i1'' True, m2)" by simp
  note f = mem_relay.RegisterServer_refines(1) [OF m1(3) r refl]
  have "abs_routing ms_waiting ms_peers m2 = accepted_routing\<lparr>rt_conns := [''a'' \<mapsto> 1], rt_waiting := [''ann-1'' \<mapsto> ''a'']\<rparr>"
    using f by (simp add: m1 accepted_routing_def rt_register_def evicted_by_def NewConn_def Let_def)
  then show thesis using that [OF l] f by simp
qed

text \<open>The routing state once the server has been published.\<close>
definition published :: routing where
  "published = accepted_routing\<lparr>rt_conns := [''a'' \<mapsto> 1], rt_waiting := [''ann-1'' \<mapsto> ''a'']\<rparr>"

text \<open>The client's goroutine comes to the critical section of \<open>ConnectClient\<close>.\<close>
lemma race_attaching:
  assumes "mem_finite (m_store m)" "owner (m_db m) ''ann-1'' = Some ''i1''" "abs_routing ms_waiting ms_peers m = published"
  obtains m' where "leads sample_site 2 (Dispatch sample_rd MessageText connect_frame, m) (ConAttach sample_rd ''ann-1'', m')"
    "mem_finite (m_store m')" "abs_routing ms_waiting ms_peers m' = published"
proof -
  define m1 where "m1 = after (IsPaired mem_backend 2) m"
  define m2 where "m2 = m1\<lparr>m_db := after (IsRegistered (b_sql mem_backend) ''ann-1'') (m_db m1)\<rparr>"
  have np: "\<not> rt_paired 2 (abs_routing ms_waiting ms_peers m)"
    by (simp add: assms(3) published_def accepted_routing_def rt_paired_def NewConn_def)
  have m1: "abs_routing ms_waiting ms_peers m1 = published" "m_db m1 = m_db m" "mem_finite (m_store m1)"
    using mem_relay.IsPaired_run [OF assms(1), of 2] assms(3) by (simp_all add: m1_def)
  have "run_state (advance sample_site 2 (Dispatch sample_rd MessageText connect_frame)) m = (ConCheck sample_rd ''ann-1'', m1)"
    using mem_relay.dispatch_unpaired [OF sample_backend(1) assms(1) np, of sample_rd connect_frame] sample_frames(2)
    by (simp add: m1_def sample_connect_def)
  moreover have "result (IsRegistered (b_sql mem_backend) ''ann-1'') (m_db m1)"
    using sql_reliable.IsRegistered_reliable [OF sample_backend(2), of "''ann-1''" "m_db m1"] assms(2) m1(2) by auto
  then have "run_state (advance sample_site 2 (ConCheck sample_rd ''ann-1'')) m1 = (ConAttach sample_rd ''ann-1'', m2)"
    by (simp add: relay_simps sample_backend m2_def)
  ultimately have "leads sample_site 2 (Dispatch sample_rd MessageText connect_frame, m) (ConAttach sample_rd ''ann-1'', m2)"
    by (blast intro: leads_step leads_refl)
  then show thesis by (rule that) (use m1 in \<open>simp_all add: m2_def abs_routing_def\<close>)
qed

text \<open>The section finds the server unmarked and makes a pair.\<close>
lemma race_attached:
  assumes "mem_finite (m_store m)" "abs_routing ms_waiting ms_peers m = published"
  obtains m' where "run_state (advance sample_site 2 (ConAttach sample_rd ''ann-1'')) m = (ConSeen sample_rd ''ann-1'' [], m')"
    "abs_routing ms_waiting ms_peers m' = rt_pair 2 ''ann-1'' ''a'' published"
proof -
  have w: "waits_ok (ms_waiting (m_store m))"
    using arg_cong [OF assms(2), of rt_waiting] by (simp add: published_def abs_routing_def waits_ok_def)
  obtain a m' where a: "run_state (attach mem_backend sample_rd 2 ''ann-1'') m = (a, m')" by force
  have "(connection_result a, abs_routing ms_waiting ms_peers m', joined_notice a)
      = (\<lparr>cr_Status = ''connected'', cr_ServerWS = Some 1, cr_ClientID = []\<rparr>, rt_pair 2 ''ann-1'' ''a'' published, [])"
    using mem_relay.attach_refines [OF assms(1) w a] assms(2)
    by (simp add: rt_connect_def published_def accepted_routing_def NewConn_def)
  then have "a = Paired 1" "abs_routing ms_waiting ms_peers m' = rt_pair 2 ''ann-1'' ''a'' published"
    by (cases a; simp add: refused_def)+
  with that [of m'] a show thesis by (simp add: sample_backend)
qed

lemma replay_says_more: "set (m_out m) \<subseteq> set (m_out (after (replay_buffer p u) m))"
  by (cases "m_buffer m") (auto simp: replay_buffer_def GetBufferedMessages_def ClearBuffer_def sendJSON_def relay_simps)

text \<open>The client is told that it is connected, and goes back to its read.\<close>
lemma race_told:
  assumes "abs_routing ms_waiting ms_peers m = rt_pair 2 ''ann-1'' ''a'' published"
  obtains m' where "leads sample_site 2 (ConSeen sample_rd ''ann-1'' [], m) (AwaitFrame, m')"
    "Write 2 MessageText (json_render (json_of_ClientConnected (NewClientConnected []))) \<in> set (m_out m')"
    "abs_routing ms_waiting ms_peers m' = \<lparr>rt_heap = (\<lambda>_. NewConn [])(1 := NewConn ''a'', 2 := sample_conn ''b'' ''ann-1'' False False []),
       rt_conns = [''a'' \<mapsto> 1, ''b'' \<mapsto> 2], rt_groups = Map.empty, rt_waiting = Map.empty,
       rt_peers = [''a'' \<mapsto> ''b'', ''b'' \<mapsto> ''a'']\<rparr>"
proof -
  define m2 where "m2 = m\<lparr>m_db := after (UpdateLastSeen (b_sql mem_backend) (at_reg sample_rd) ''ann-1'') (m_db m)\<rparr>"
  define told where "told = Write 2 MessageText (json_render (json_of_ClientConnected (NewClientConnected [])))"
  define m3 where "m3 = m2\<lparr>m_heap := (m_heap m2)(2 := (m_heap m2 2)\<lparr>c_Username := ''ann-1'', c_IsServer := False, c_ClientID := []\<rparr>),
      m_out := m_out m2 @ [told]\<rparr>"
  define m4 where "m4 = after (replay_buffer 2 ''ann-1'') m3"
  have "run_state (advance sample_site 2 (ConSeen sample_rd ''ann-1'' [])) m = (ConName ''ann-1'' [], m2)"
    by (simp add: relay_simps sample_backend m2_def)
  from leads_step [OF this leads_trans [OF leads_client_fields leads_replay]]
  have l: "leads sample_site 2 (ConSeen sample_rd ''ann-1'' [], m) (AwaitFrame, m4)" by (simp only: m4_def m3_def told_def)
  have "told \<in> set (m_out m4)" using replay_says_more [of m3 2 "''ann-1''"] by (auto simp: m4_def m3_def)
  moreover have "abs_routing ms_waiting ms_peers m4 = abs_routing ms_waiting ms_peers m3"
    unfolding m4_def by (rule mem_relay.abs_frame(1)) (rule replay_frame)+
  moreover have "\<dots> = set_conn 2 (\<lambda>c. c\<lparr>c_Username := ''ann-1'', c_IsServer := False, c_ClientID := []\<rparr>) (abs_routing ms_waiting ms_peers m)"
    by (simp add: m3_def m2_def set_conn_def abs_routing_def)
  ultimately show thesis using that [OF l] assms
    by (simp add: told_def set_conn_def rt_pair_def published_def accepted_routing_def Let_def NewConn_def sample_conn_def fun_upd_twist)
qed

text \<open>The server is marked: it counts as paired, and what it sends goes nowhere.\<close>
lemma race_stuck:
  fixes m :: "(mem_store, utable, unit) manager"
  assumes ok: "mem_finite (m_store m)"
    and heap: "m_heap m 1 = sample_conn ''a'' ''ann-1'' True True []" "m_heap m 2 = sample_conn ''b'' ''ann-1'' False False []"
      "m_multiGroups m = Map.empty" "ms_peers (m_store m) = [''a'' \<mapsto> ''b'', ''b'' \<mapsto> ''a'']"
  shows "result (IsPaired mem_backend 1) m"
    "m_out (after (Forward mem_backend rd 1 ty data) m) = m_out m"
proof -
  show "result (IsPaired mem_backend 1) m"
    using mem_relay.IsPaired_run [OF ok, of 1] heap by (simp add: rt_paired_def abs_routing_def sample_conn_def)
  have "route mem_backend m (ms_peers (m_store m)) 1 ty data = []"
    using heap by (simp add: route_def sample_conn_def Let_def)
  then show "m_out (after (Forward mem_backend rd 1 ty data) m) = m_out m"
    using mem_relay.Forward_spec(1) [OF ok, of rd 1 ty data] by (simp add: deliveries_def)
qed

text \<open>The run up to there: the server has been published and is about to be marked.\<close>
lemma race_published:
  obtains m f where "runs sample_site any_act sample_start \<lparr>po_mgr = m, po_pc = f\<rparr>"
    "f 1 = RegName sample_rd ''ann-1'' ''i1'' True" "f 2 = AwaitFrame" "mem_finite (m_store m)" "owner (m_db m) ''ann-1'' = Some ''i1''"
    "abs_routing ms_waiting ms_peers m = published"
proof (rule sample_accepted)
  fix s
  assume r: "reach sample_site (once sample_site) sample_start s" and ph: "sy_phase s = (\<lambda>_. Unused)(1 := Reading, 2 := Reading)"
    and ab: "abs_routing ms_waiting ms_peers (sy_mgr s) = \<lparr>rt_heap = (\<lambda>_. NewConn [])(1 := NewConn ''a'', 2 := NewConn ''b''),
        rt_conns = Map.empty, rt_groups = Map.empty, rt_waiting = Map.empty, rt_peers = Map.empty\<rparr>"
    and db: "m_db (sy_mgr s) = fmempty"
  define m where "m = sy_mgr s"
  define f where "f = po_pc (pool_of s)"
  have f: "f 1 = AwaitFrame" "f 2 = AwaitFrame" by (simp_all add: f_def pool_of_def pc_of_def ph)
  have fin: "mem_finite (m_store m)"
    using mem_relay.soundD(5) [OF mem_relay.reach_sound [OF sample_backend(1) sample_start_ok r]] by (simp add: m_def)
  have r0: "runs sample_site any_act sample_start \<lparr>po_mgr = m, po_pc = f\<rparr>"
    using reach_runs [OF r] by (simp add: pool_of_def f_def m_def)
  obtain m1 where l1: "leads sample_site 1 (Dispatch sample_rd MessageText register_frame, m) (RegName sample_rd ''ann-1'' ''i1'' True, m1)"
    and f1: "mem_finite (m_store m1)" "owner (m_db m1) ''ann-1'' = Some ''i1''"
    and ab1: "abs_routing ms_waiting ms_peers m1 = accepted_routing\<lparr>rt_conns := [''a'' \<mapsto> 1], rt_waiting := [''ann-1'' \<mapsto> ''a'']\<rparr>"
    using race_registered [OF fin] ab db by (auto simp: accepted_routing_def m_def)
  have "m_multiGroups m = Map.empty" using arg_cong [OF ab, of rt_groups] by (simp add: abs_routing_def m_def)
  then have "unused_client m (new_clientID sample_rd)" by (simp add: unused_client_def sample_rd_def sample_id_def)
  from arrive_runs [OF r0 f(1) l1 this] show thesis by (rule that) (use f f1 ab1 in \<open>simp_all add: published_def\<close>)
qed

text \<open>C35 The race between registering and marking happens. There is a run in which the goroutine of a multi-client
  server has left \<open>RegisterServer\<close>, so the username waits for it, and has not marked its connection yet,
  while a client's goroutine is about to run the critical section of \<open>ConnectClient\<close> for that username.
  When the client's goroutine goes first, a continuation of the run ends with both goroutines at their
  reads: the server has been told that it is registered as multi-client, the client that it is connected,
  the server counts as paired, and whatever frame it sends then is written to nobody.\<close>
theorem multi_client_race_happens:
  "\<exists>s1 s2 s. runs sample_site any_act sample_start s1 \<and> po_pc s1 1 = RegName sample_rd ''ann-1'' ''i1'' True
     \<and> ms_waiting (m_store (po_mgr s1)) ''ann-1'' = Some (c_ID (m_heap (po_mgr s1) 1)) \<and> \<not> c_MultiClient (m_heap (po_mgr s1) 1)
     \<and> po_pc s1 2 = ConAttach sample_rd ''ann-1'' \<and> tick sample_site s1 (Run 2) s2 \<and> ticks sample_site any_act s2 s
     \<and> po_pc s 1 = AwaitFrame \<and> po_pc s 2 = AwaitFrame
     \<and> Write 1 MessageText (json_render (json_of_ServerRegistered (NewServerRegistered [] True))) \<in> set (m_out (po_mgr s))
     \<and> Write 2 MessageText (json_render (json_of_ClientConnected (NewClientConnected []))) \<in> set (m_out (po_mgr s))
     \<and> c_MultiClient (m_heap (po_mgr s) 1) \<and> result (IsPaired mem_backend 1) (po_mgr s)
     \<and> (\<forall>rd ty data. m_out (after (Forward mem_backend rd 1 ty data) (po_mgr s)) = m_out (po_mgr s))"
proof (rule race_published)
  fix m f
  assume r: "runs sample_site any_act sample_start \<lparr>po_mgr = m, po_pc = f\<rparr>"
    and f: "f 1 = RegName sample_rd ''ann-1'' ''i1'' True" "f 2 = AwaitFrame"
    and fin: "mem_finite (m_store m)" "owner (m_db m) ''ann-1'' = Some ''i1''" and ab: "abs_routing ms_waiting ms_peers m = published"
  have unused: "unused_client x (new_clientID sample_rd)" if "rt_groups (abs_routing ms_waiting ms_peers x) = Map.empty"
    for x :: "(mem_store, utable, unit) manager"
    using that by (simp add: unused_client_def sample_rd_def sample_id_def abs_routing_def)
  have none: "rt_groups published = Map.empty" by (simp add: published_def accepted_routing_def)
  obtain m1 where l1: "leads sample_site 2 (Dispatch sample_rd MessageText connect_frame, m) (ConAttach sample_rd ''ann-1'', m1)"
    and fin1: "mem_finite (m_store m1)" and ab1: "abs_routing ms_waiting ms_peers m1 = published"
    by (rule race_attaching [OF fin ab])
  obtain m2 where a: "run_state (advance sample_site 2 (ConAttach sample_rd ''ann-1'')) m1 = (ConSeen sample_rd ''ann-1'' [], m2)"
    and ab2: "abs_routing ms_waiting ms_peers m2 = rt_pair 2 ''ann-1'' ''a'' published"
    by (rule race_attached [OF fin1 ab1])
  obtain m3 where l3: "leads sample_site 2 (ConSeen sample_rd ''ann-1'' [], m2) (AwaitFrame, m3)"
    and told: "Write 2 MessageText (json_render (json_of_ClientConnected (NewClientConnected []))) \<in> set (m_out m3)"
    and ab3: "abs_routing ms_waiting ms_peers m3 = \<lparr>rt_heap = (\<lambda>_. NewConn [])(1 := NewConn ''a'', 2 := sample_conn ''b'' ''ann-1'' False False []),
       rt_conns = [''a'' \<mapsto> 1, ''b'' \<mapsto> 2], rt_groups = Map.empty, rt_waiting = Map.empty, rt_peers = [''a'' \<mapsto> ''b'', ''b'' \<mapsto> ''a'']\<rparr>"
    by (rule race_told [OF ab2])
  define s1 where "s1 = \<lparr>po_mgr = m1, po_pc = f(2 := ConAttach sample_rd ''ann-1'')\<rparr>"
  define s2 where "s2 = \<lparr>po_mgr = m2, po_pc = f(2 := ConSeen sample_rd ''ann-1'' [])\<rparr>"
  define g where "g = f(2 := AwaitFrame)"
  have r1: "runs sample_site any_act sample_start s1"
    unfolding s1_def by (rule arrive_runs [OF r f(2) l1 unused]) (simp add: ab none)
  have t: "tick sample_site s1 (Run 2) s2"
    using tick_run [where s = s1 and p = 2 and W = sample_site and k = "ConSeen sample_rd ''ann-1'' []" and m' = m2] a unused [of m1]
    by (simp add: s1_def s2_def busy_def draws_fresh_def ab1 none)
  have t3: "ticks sample_site any_act s2 \<lparr>po_mgr = m3, po_pc = g\<rparr>"
    unfolding s2_def g_def by (rule leads_ticks [OF l3]) simp_all
  define greet where "greet = Write 1 MessageText (json_render (json_of_ServerRegistered (NewServerRegistered [] True)))"
  define m4 where "m4 = m3\<lparr>m_heap := (m_heap m3)(1 := (m_heap m3 1)\<lparr>c_Username := ''ann-1'', c_IsServer := True, c_MultiClient := True\<rparr>),
        m_out := m_out m3 @ [greet]\<rparr>"
  have "greet_server sample_site 1 sample_rd ''ann-1'' ''i1'' True = greet"
    by (simp add: greet_server_def greet_def sample_site_def sample_config_def)
  then have l4: "leads sample_site 1 (RegName sample_rd ''ann-1'' ''i1'' True, m3) (AwaitFrame, m4)"
    using leads_server_fields [of sample_site 1 sample_rd "''ann-1''" "''i1''" True m3] by (simp add: m4_def)
  have "IsValidUsername ''ann-1''" by (simp add: IsValidUsername_eq) code_simp
  then have "ticks sample_site any_act \<lparr>po_mgr = m3, po_pc = g(1 := RegName sample_rd ''ann-1'' ''i1'' True)\<rparr> \<lparr>po_mgr = m4, po_pc = g(1 := AwaitFrame)\<rparr>"
    by (intro leads_ticks [OF l4]) simp_all
  moreover have "g(1 := RegName sample_rd ''ann-1'' ''i1'' True) = g" using f(1) by (simp add: g_def fun_eq_iff)
  ultimately have t4: "ticks sample_site any_act s2 \<lparr>po_mgr = m4, po_pc = g(1 := AwaitFrame)\<rparr>" using ticks_trans [OF t3] by simp
  have heap: "m_heap m4 1 = sample_conn ''a'' ''ann-1'' True True []" "m_heap m4 2 = sample_conn ''b'' ''ann-1'' False False []"
      "m_multiGroups m4 = Map.empty" "ms_peers (m_store m4) = [''a'' \<mapsto> ''b'', ''b'' \<mapsto> ''a'']"
    using arg_cong [OF ab3, of rt_heap] arg_cong [OF ab3, of rt_groups] arg_cong [OF ab3, of rt_peers]
    by (simp_all add: abs_routing_def m4_def sample_conn_def NewConn_def)
  have "runs sample_site any_act sample_start \<lparr>po_mgr = m4, po_pc = g(1 := AwaitFrame)\<rparr>"
    by (rule runs_ticks [OF runs_tick [OF r1 _ t] t4]) (simp add: any_act_def)
  then have ok: "mem_finite (m_store m4)"
    using mem_relay.sound_poolD(7) [OF mem_relay.runs_sound [OF sample_backend(1) sample_start_ok]] by fastforce
  have w: "ms_waiting (m_store m1) ''ann-1'' = Some ''a''" "m_heap m1 1 = NewConn ''a''"
    using arg_cong [OF ab1, of rt_waiting] arg_cong [OF ab1, of rt_heap] by (simp_all add: abs_routing_def published_def accepted_routing_def)
  show ?thesis
  proof (intro exI conjI)
    show "runs sample_site any_act sample_start s1" "tick sample_site s1 (Run 2) s2" by (rule r1, rule t)
    show "ticks sample_site any_act s2 \<lparr>po_mgr = m4, po_pc = g(1 := AwaitFrame)\<rparr>" by (rule t4)
    show "\<forall>rd ty data. m_out (after (Forward mem_backend rd 1 ty data) (po_mgr \<lparr>po_mgr = m4, po_pc = g(1 := AwaitFrame)\<rparr>))
        = m_out (po_mgr \<lparr>po_mgr = m4, po_pc = g(1 := AwaitFrame)\<rparr>)" using race_stuck(2) [OF ok heap] by simp
  qed (use f w told heap race_stuck(1) [OF ok heap] in \<open>simp_all add: s1_def g_def m4_def greet_def NewConn_def sample_conn_def\<close>)
qed

end
