(* ===== verification/Relay_Main.thy ===== *)
theory Relay_Main
  imports Http_Server
begin

text \<open>
  \<open>cmd/relay/main.go\<close> and the parts of \<open>server.New\<close> around the wiring: opening the registry, on disk or
  as the in-memory database of \<open>internal/testutil\<close>, listening, and the life of the process. The
  operating system's answers (directories, the listener, signals) are arguments.
\<close>

section \<open>The options the command passes on\<close>

text \<open>The fields the literal leaves out have their zero values.\<close>
definition options_of_config :: "config \<Rightarrow> options" where
  "options_of_config cfg =
     \<lparr>op_Port = Port cfg, op_DataDir = DataDir cfg, op_InMemoryDB = False, op_PingInterval = PingInterval cfg,
      op_PongTimeout = PongTimeout cfg, op_ReclaimDays = ReclaimDays cfg, op_LogLevel = LogLevel cfg,
      op_LogJSON = LogJSON cfg, op_AdminToken = AdminToken cfg, op_ServerAuthToken = ServerAuthToken cfg,
      op_AllowedOrigins = AllowedOrigins cfg, op_WSOriginPatterns = WSOriginPatterns cfg,
      op_RedisURL = [], op_RedisPassword = [], op_RedisDB = 0, op_JWTSecret = [],
      op_RateLimitConnectionsPerMin = 0, op_RateLimitMessagesPerSec = 0, op_BufferSize = 0\<rparr>"

section \<open>Creating the server\<close>

definition data_dir :: "options \<Rightarrow> string \<Rightarrow> string" where
  "data_dir opts home = (if op_DataDir opts = [] then home @ ''/.uvame-relay'' else op_DataDir opts)"

text \<open>The warnings about settings that leave the relay open, in the order \<open>New\<close> logs them.\<close>
definition open_to_all :: "string list \<Rightarrow> bool" where
  "open_to_all xs \<longleftrightarrow> length xs = 0 \<or> length xs = 1 \<and> xs ! 0 = ''*''"

definition startup_warnings :: "options \<Rightarrow> string list" where
  "startup_warnings opts =
     (if op_AdminToken opts = [] then [''admin token is not configured; operational endpoints remain public''] else [])
     @ (if op_ServerAuthToken opts = []
        then [''server auth token is not configured; websocket server registration is open''] else [])
     @ (if open_to_all (op_AllowedOrigins opts) then [''cors allowed origins are fully open''] else [])
     @ (if open_to_all (op_WSOriginPatterns opts) then [''websocket origin patterns are fully open''] else [])"

definition startup_log :: "options \<Rightarrow> string list" where
  "startup_log opts = (if log_writes (logger_of opts) LevelWarn then startup_warnings opts else [])"

text \<open>\<open>panic\<close> ends the process; \<open>CreateRegistry\<close> and \<open>Listen\<close> are the two errors \<open>New\<close> returns.\<close>
datatype new_error = Panic | CreateRegistry registry_error | Listen

text \<open>\<open>testutil.NewTestDB\<close>: its own \<open>initSchema\<close> issues the two statements of the registry's and panics
  where that one returns an error.\<close>
definition NewTestDB :: "'d sql_exec \<Rightarrow> bool \<Rightarrow> ('d, bool) state" where
  "NewTestDB exec db_ok =
     (if \<not> db_ok then State_Monad.return False
      else do {
        r1 \<leftarrow> db_exec exec CreateTable;
        if isl r1 then State_Monad.return False
        else do {
          r2 \<leftarrow> db_exec exec CreateIndex;
          State_Monad.return (\<not> isl r2)
        }
      })"

definition open_registry :: "'d sql_exec \<Rightarrow> options \<Rightarrow> bool \<Rightarrow> bool \<Rightarrow> ('d, new_error option) state" where
  "open_registry exec opts mkdir_ok db_ok =
     (if op_InMemoryDB opts
      then do {
        ok \<leftarrow> NewTestDB exec db_ok;
        State_Monad.return (if ok then None else Some Panic)
      }
      else do {
        e \<leftarrow> registry_New exec mkdir_ok db_ok;
        State_Monad.return (map_option CreateRegistry e)
      })"

text \<open>What the process finds around it: whether the data directory can be made and the database opens, the
  port the listener gets for a requested one, the clock, and what \<open>websocket.Accept\<close> decides.\<close>
record host =
  ho_mkdir :: bool
  ho_db :: bool
  ho_listen :: "int \<Rightarrow> int option"
  ho_now :: int
  ho_accept :: "string list \<Rightarrow> request \<Rightarrow> bool"

text \<open>\<open>server.New\<close> as a whole: the database after it, and the server with its manager or the error. The store
  of the backend and its state \<open>st\<close> are those \<open>choose_store\<close> picked. By the time listening fails the
  reclaimed usernames are gone already.\<close>
definition create_server ::
  "('s, 'd) backend \<Rightarrow> jwt_lib \<Rightarrow> options \<Rightarrow> host \<Rightarrow> 'r store_choice \<Rightarrow> 's \<Rightarrow> 'r \<Rightarrow> (cref \<Rightarrow> conn) \<Rightarrow> 'd
     \<Rightarrow> (new_error + ('s, 'd, 'r) server \<times> ('s, 'd, 'r) manager) \<times> 'd" where
  "create_server B J opts env ch st rs heap db =
     (case run_state (open_registry (b_sql B) opts (ho_mkdir env) (ho_db env)) db of
        (Some e, db') \<Rightarrow> (Inl e, db')
      | (None, db') \<Rightarrow>
          let m = server_New (b_sql B) opts (ho_now env) ch db' st rs heap
          in (case ho_listen env (op_Port opts) of
                None \<Rightarrow> Inl Listen
              | Some port \<Rightarrow>
                  Inr (\<lparr>sv_backend = B, sv_jwt = J, sv_accept = ho_accept env, sv_cfg = server_config_of opts,
                        sv_redis = redis_of ch, sv_port = port\<rparr>, m), m_db m))"

section \<open>The process\<close>

datatype main_step = WritePortFile string string | Serve | AwaitSignal | ShutdownServer | ExitProcess int

text \<open>\<open>created\<close> is the port \<open>New\<close> came to listen on, \<open>serves\<close> whether \<open>Start\<close> runs until the server is shut
  down; the goroutine that runs it ends the process otherwise.\<close>
definition main_steps :: "config \<Rightarrow> int option \<Rightarrow> bool \<Rightarrow> main_step list" where
  "main_steps cfg created serves =
     (case created of
        None \<Rightarrow> [ExitProcess 1]
      | Some port \<Rightarrow>
          (if PortFile cfg \<noteq> [] then [WritePortFile (PortFile cfg) (show_int port)] else [])
          @ (if serves then [Serve, AwaitSignal, ShutdownServer] else [Serve, ExitProcess 1]))"

text \<open>\<open>main\<close>: the configuration is read, a server is made of it, and the steps above are gone through. The
  literal leaves the Redis options out, so the store is the one in memory.\<close>
definition relay_main ::
  "(mem_store, 'd) backend \<Rightarrow> jwt_lib \<Rightarrow> environ \<Rightarrow> string \<Rightarrow> host \<Rightarrow> bool \<Rightarrow> (redis_error + 'r redis) \<Rightarrow> 'r \<Rightarrow> (cref \<Rightarrow> conn) \<Rightarrow> 'd
     \<Rightarrow> main_step list \<times> ((mem_store, 'd, 'r) server \<times> (mem_store, 'd, 'r) manager) option" where
  "relay_main B J environment home env serves dialled rs heap db =
     (let cfg = Load environment home; opts = options_of_config cfg
      in case fst (create_server B J opts env (choose_store opts dialled) NewMemStore rs heap db) of
           Inl e \<Rightarrow> (main_steps cfg None serves, None)
         | Inr (S, m) \<Rightarrow> (main_steps cfg (Some (sv_port S)) serves, Some (S, m)))"

section \<open>Properties\<close>

text \<open>C33 The relay as the command starts it has no Redis store, no token secret, no rate limits and no
  frame buffer, whatever the environment configures: every connection and message is admitted, and a
  token refresh is answered as not configured.\<close>
theorem configured_features_are_off:
  fixes R :: "'r redis" and rs :: 'r and env :: environ and home :: string
  defines "opts \<equiv> options_of_config (Load env home)"
  shows "choose_store opts (Inr R) = UseMemory
    \<and> buffer_of opts (choose_store opts (Inr R)) = None
    \<and> fst (AllowConnection t1 t2 ip (limiter_of opts (choose_store opts (Inr R))) rs)
    \<and> fst (AllowMessage t1 t2 ip (limiter_of opts (choose_store opts (Inr R))) rs)
    \<and> rs_Code (handleAuthRefresh J rd (server_config_of opts) r) = 501"
  by (simp add: opts_def options_of_config_def choose_store_def buffer_of_def redis_of_def limiter_of_def NewLimiter_def
      AllowConnection_def AllowMessage_def handleAuthRefresh_def server_config_of_def http_error_def)

text \<open>A ping interval that is configured negative is kept, and the keepalive goroutine of the first server
  that registers panics on it; zero and positive intervals are safe.\<close>
lemma negative_ping_interval:
  "ping_starts (handler_config_of (server_config_of opts)) \<longleftrightarrow> 0 \<le> op_PingInterval opts"
  by (simp add: ping_starts_def handler_config_of_def server_config_of_def second_def less_le)

text \<open>Creating the server on a working SQL engine succeeds exactly when the database opens and the port is
  free, and the data directory can be made unless the database is in memory.\<close>
lemma server_creation:
  assumes "sql_reliable (b_sql B) tbl"
    "create_server B J opts env ch st rs heap db = (res, db')"
  shows "isl res \<longleftrightarrow> \<not> (ho_db env \<and> ho_listen env (op_Port opts) \<noteq> None \<and> (op_InMemoryDB opts \<or> ho_mkdir env))"
proof -
  have ok: "\<exists>d'. run_state (db_exec (b_sql B) s) d = (Inr (sql_answer s (tbl d)), d')"
    if "s \<in> {CreateTable, CreateIndex, PragmaWAL}" for s d
    using sql_reliable.db_reliable [OF assms(1), of s d] that by auto
  obtain d1 where d1: "run_state (db_exec (b_sql B) CreateTable) db = (Inr (sql_answer CreateTable (tbl db)), d1)" using ok by blast
  obtain d2 where d2: "run_state (db_exec (b_sql B) CreateIndex) d1 = (Inr (sql_answer CreateIndex (tbl d1)), d2)" using ok by blast
  obtain w1 where w1: "run_state (db_exec (b_sql B) PragmaWAL) db = (Inr (sql_answer PragmaWAL (tbl db)), w1)" using ok by blast
  obtain w2 where w2: "run_state (db_exec (b_sql B) CreateTable) w1 = (Inr (sql_answer CreateTable (tbl w1)), w2)" using ok by blast
  obtain w3 where w3: "run_state (db_exec (b_sql B) CreateIndex) w2 = (Inr (sql_answer CreateIndex (tbl w2)), w3)" using ok by blast
  have "fst (run_state (open_registry (b_sql B) opts (ho_mkdir env) (ho_db env)) db) = None
      \<longleftrightarrow> ho_db env \<and> (op_InMemoryDB opts \<or> ho_mkdir env)"
    using d1 d2 w1 w2 w3 by (simp add: open_registry_def NewTestDB_def registry_New_def initSchema_def split_def)
  then show ?thesis using assms(2)
    by (auto simp: create_server_def Let_def split: prod.splits option.splits if_splits)
qed

text \<open>A logger at level \<open>error\<close> keeps the warnings about open settings to itself.\<close>
lemma error_level_hides_warnings:
  "to_lower (op_LogLevel opts) \<in> {''error'', ''fatal''} \<Longrightarrow> startup_log opts = []"
  by (auto simp: startup_log_def log_writes_def logger_of_def parseLogLevel_def less_eq_log_level_def log_rank_def)

text \<open>The command ends with a status of 1 unless it gets to serve; it serves a relay whose manager starts empty.\<close>
lemma main_serves:
  assumes "sql_reliable (b_sql B) tbl" "relay_main B J environment home env serves dialled rs heap db = (steps, started)"
  shows "started \<noteq> None \<longleftrightarrow> ho_db env \<and> ho_mkdir env \<and> ho_listen env (Port (Load environment home)) \<noteq> None"
    "ExitProcess 1 \<in> set steps \<longleftrightarrow> started = None \<or> \<not> serves"
    "started = Some (S, m) \<Longrightarrow> m_conns m = Map.empty \<and> m_multiGroups m = Map.empty \<and> m_store m = NewMemStore \<and> m_out m = []"
proof -
  define opts where "opts = options_of_config (Load environment home)"
  obtain res db' where c: "create_server B J opts env (choose_store opts dialled) NewMemStore rs heap db = (res, db')" by force
  note s = server_creation [OF assms(1) c]
  show "started \<noteq> None \<longleftrightarrow> ho_db env \<and> ho_mkdir env \<and> ho_listen env (Port (Load environment home)) \<noteq> None"
    using assms(2) c s by (cases res) (auto simp: relay_main_def Let_def opts_def options_of_config_def)
  show "ExitProcess 1 \<in> set steps \<longleftrightarrow> started = None \<or> \<not> serves"
    using assms(2) c by (cases res) (auto simp: relay_main_def Let_def opts_def main_steps_def)
  show "started = Some (S, m) \<Longrightarrow> m_conns m = Map.empty \<and> m_multiGroups m = Map.empty \<and> m_store m = NewMemStore \<and> m_out m = []"
    using assms(2) c
    by (cases res) (auto simp: relay_main_def opts_def create_server_def server_New_def NewManager_def manager_options_def Let_def
        split: prod.splits option.splits if_splits)
qed

end
