(* ===== verification/Deployment.thy ===== *)
theory Deployment
  imports Interleaving_Race Relay_Main
begin

text \<open>
  From the command to the running relay: the manager that \<open>main\<close> builds is a start of the interleaved runs, and
  what those runs keep holds of the relay as it is deployed.
\<close>

text \<open>The site at which the server's websocket endpoint runs its goroutines.\<close>
definition site_of :: "('s, 'd, 'r) server \<Rightarrow> (cref \<Rightarrow> string) \<Rightarrow> ('s, 'd) site" where
  "site_of S bearer = \<lparr>si_backend = sv_backend S, si_jwt = sv_jwt S, si_cfg = handler_config_of (sv_cfg S), si_bearer = bearer\<rparr>"

context sql_engine
begin

lemma schema_kept:
  assumes "s \<in> {CreateTable, CreateIndex, PragmaWAL}"
  shows "tbl (snd (run_state (db_exec exec s) d)) = tbl d"
  using db_run [of s d] assms by auto

lemma open_registry_kept: "tbl (snd (run_state (open_registry exec opts mkdir_ok db_ok) d)) = tbl d"
  by (auto simp: open_registry_def NewTestDB_def registry_New_def initSchema_def split_def schema_kept)

lemma reclaim_owners:
  assumes "owner (tbl (snd (run_state (ReclaimInactive exec now days) d))) u \<noteq> None"
  shows "owner (tbl d) u \<noteq> None"
  using ReclaimInactive_run [OF prod.collapse [symmetric], of now days d] assms by (auto simp: owner_def split: if_splits)

end

text \<open>A server is created over an idle manager that holds no usernames but those of the database it found.\<close>
lemma created_starts:
  assumes "sql_engine (b_sql B) tbl" "\<forall>u. owner (tbl db) u \<noteq> None \<longrightarrow> IsValidUsername u"
    "create_server B J opts env ch NewMemStore rs heap db = (Inr (S, m), db')"
  shows "start ms_waiting ms_peers mem_finite tbl m" "sv_backend S = B"
proof -
  define d1 where "d1 = snd (run_state (open_registry (b_sql B) opts (ho_mkdir env) (ho_db env)) db)"
  have m: "m = server_New (b_sql B) opts (ho_now env) ch d1 NewMemStore rs heap" "sv_backend S = B"
    using assms(3) by (auto simp: create_server_def d1_def Let_def split: prod.splits option.splits)
  then show "sv_backend S = B" by simp
  have d1: "tbl d1 = tbl db" unfolding d1_def by (rule sql_engine.open_registry_kept [OF assms(1)])
  have "IsValidUsername u" if "owner (tbl (m_db m)) u \<noteq> None" for u
    using sql_engine.reclaim_owners [OF assms(1), of "ho_now env" "reclaim_days opts" d1 u] that assms(2) d1
    by (auto simp: m(1) server_New_def NewManager_def manager_options_def split: if_splits)
  then show "start ms_waiting ms_peers mem_finite tbl m"
    by (auto simp: start_def idle_def m(1) server_New_def NewManager_def manager_options_def NewMemStore_def mem_finite_def)
qed

text \<open>C3 The relay as the command starts it, on any database that holds only valid usernames. In every run of its
  goroutines, whatever the peers send and however the goroutines interleave, also during a shutdown, a
  connection the manager holds under an id or as a client of a group is being served. In every orderly run,
  moreover, the server connection of each group is being served, and a frame that a goroutine has looked up
  receivers for is about to be written only to connections of the sender's username on the other side.\<close>
theorem started_relay_is_sound:
  assumes "relay_backend B ms_waiting ms_peers mem_finite tbl" "\<forall>u. owner (tbl db) u \<noteq> None \<longrightarrow> IsValidUsername u"
    "relay_main B J environment home env serves dialled rs heap db = (todo, Some (S, m0))"
    "runs (site_of S bearer) G m0 s"
  shows "(\<forall>i p. m_conns (po_mgr s) i = Some p \<longrightarrow> serving s p \<and> c_ID (m_heap (po_mgr s) p) = i)
    \<and> (\<forall>u g i p. m_multiGroups (po_mgr s) u = Some g \<longrightarrow> g_clients g i = Some p \<longrightarrow>
        serving s p \<and> c_ClientID (m_heap (po_mgr s) p) = i \<and> c_Username (m_heap (po_mgr s) p) = u)
    \<and> (G = orderly (site_of S bearer) \<longrightarrow>
        (\<forall>u g. m_multiGroups (po_mgr s) u = Some g \<longrightarrow> serving s (g_serverConn g))
        \<and> (\<forall>p ws k q ty data. po_pc s p = ForwardWrites ws k \<longrightarrow> (q, ty, data) \<in> set ws \<longrightarrow>
            c_Username (settled_heap s p) \<noteq> [] \<and> c_Username (settled_heap s q) = c_Username (settled_heap s p)
            \<and> c_IsServer (settled_heap s q) \<noteq> c_IsServer (settled_heap s p)))"
proof (intro conjI impI)
  have sql: "sql_engine (b_sql B) tbl" using assms(1) by (simp add: relay_backend_def)
  obtain opts ch db' where c: "create_server B J opts env ch NewMemStore rs heap db = (Inr (S, m0), db')"
    using assms(3) by (auto simp: relay_main_def Let_def split: sum.splits prod.splits) (metis surj_pair fst_conv)
  note st = created_starts [OF sql assms(2) c]
  have W: "si_backend (site_of S bearer) = B" using st(2) by (simp add: site_of_def)
  note so = relay_backend.runs_sound [OF assms(1) W st(1) assms(4)]
  show "\<forall>i p. m_conns (po_mgr s) i = Some p \<longrightarrow> serving s p \<and> c_ID (m_heap (po_mgr s) p) = i"
    using relay_backend.pool_conns [OF assms(1) so] by blast
  show "\<forall>u g i p. m_multiGroups (po_mgr s) u = Some g \<longrightarrow> g_clients g i = Some p \<longrightarrow>
        serving s p \<and> c_ClientID (m_heap (po_mgr s) p) = i \<and> c_Username (m_heap (po_mgr s) p) = u"
    using relay_backend.pool_clients [OF assms(1) so] by blast
  assume G: "G = orderly (site_of S bearer)"
  have r: "runs (site_of S bearer) (orderly (site_of S bearer)) m0 s" using assms(4) by (simp only: G)
  show "\<forall>u g. m_multiGroups (po_mgr s) u = Some g \<longrightarrow> serving s (g_serverConn g)"
    using relay_backend.groups_led(1) [OF assms(1) W st(1) r] by blast
  have "writes_ok s" by (rule relay_backend.runs_writes [OF assms(1) W st(1) r])
  then show "\<forall>p ws k q ty data. po_pc s p = ForwardWrites ws k \<longrightarrow> (q, ty, data) \<in> set ws \<longrightarrow>
      c_Username (settled_heap s p) \<noteq> [] \<and> c_Username (settled_heap s q) = c_Username (settled_heap s p)
      \<and> c_IsServer (settled_heap s q) \<noteq> c_IsServer (settled_heap s p)"
    unfolding writes_ok_def facing_def by fastforce
qed

definition sample_host :: host where
  "sample_host = \<lparr>ho_mkdir = True, ho_db = True, ho_listen = (\<lambda>port. Some 8080), ho_now = 0, ho_accept = (\<lambda>_ _. True)\<rparr>"

text \<open>With an empty environment and an empty database the command starts the relay of the sample runs.\<close>
lemma sample_started:
  obtains todo S where "relay_main mem_backend open_jwt (\<lambda>_. []) ''/root'' sample_host True (Inl PingFailed) () (\<lambda>_. NewConn []) fmempty
      = (todo, Some (S, sample_start))" "site_of S (\<lambda>_. []) = sample_site"
proof -
  define opts where "opts = options_of_config (Load (\<lambda>_. []) ''/root'')"
  obtain todo started where r: "relay_main mem_backend open_jwt (\<lambda>_. []) ''/root'' sample_host True (Inl PingFailed) ()
      (\<lambda>_. NewConn []) fmempty = (todo, started)" by force
  have "started \<noteq> None"
    using main_serves(1) [OF _ r, of id] by (simp add: mem_backend_def table_db.sql_reliable_axioms sample_host_def)
  then obtain S m where m: "started = Some (S, m)" by auto
  then obtain db' where c: "create_server mem_backend open_jwt opts sample_host (choose_store opts (Inl PingFailed)) NewMemStore ()
      (\<lambda>_. NewConn []) fmempty = (Inr (S, m), db')"
    using r by (auto simp: relay_main_def Let_def opts_def split: sum.splits prod.splits) (metis surj_pair fst_conv)
  define d1 where "d1 = snd (run_state (open_registry (b_sql mem_backend) opts True True) fmempty)"
  have o: "op_PingInterval opts = 60 * second" "op_PongTimeout opts = 30 * second" "op_ServerAuthToken opts = []" "op_JWTSecret opts = []"
    "op_RedisURL opts = []" "op_RateLimitConnectionsPerMin opts = 0" "op_RateLimitMessagesPerSec opts = 0"
    by (simp_all add: opts_def options_of_config_def Load_def duration_ms_def wrap64_def second_def)
  have "d1 = fmempty"
    using table_db.open_registry_kept [of opts True True fmempty] by (simp add: d1_def mem_backend_def)
  moreover have "snd (run_state (ReclaimInactive table_exec 0 (reclaim_days opts)) fmempty) = fmempty"
    by (simp add: ReclaimInactive_def db_exec_def table_exec_def Let_def split_def)
  moreover have "m = server_New (b_sql mem_backend) opts 0 (choose_store opts (Inl PingFailed)) d1 NewMemStore () (\<lambda>_. NewConn [])"
    "S = \<lparr>sv_backend = mem_backend, sv_jwt = open_jwt, sv_accept = ho_accept sample_host, sv_cfg = server_config_of opts,
          sv_redis = redis_of (choose_store opts (Inl PingFailed)), sv_port = 8080\<rparr>"
    using c by (auto simp: create_server_def d1_def Let_def sample_host_def split: prod.splits option.splits)
  ultimately have "m = sample_start" "site_of S (\<lambda>_. []) = sample_site"
    using o by (simp_all add: sample_start_def server_New_def mem_backend_def manager_options_def limiter_of_def buffer_of_def choose_store_def
        redis_of_def site_of_def sample_site_def sample_config_def handler_config_of_def server_config_of_def second_def)
  with r m that show thesis by blast
qed

theorem started_relay_is_sound_witness:
  "\<exists>todo S s. relay_main mem_backend open_jwt (\<lambda>_. []) ''/root'' sample_host True (Inl PingFailed) () (\<lambda>_. NewConn []) fmempty
      = (todo, Some (S, sample_start))
     \<and> runs (site_of S (\<lambda>_. [])) (orderly (site_of S (\<lambda>_. []))) sample_start s
     \<and> po_pc s 2 = ForwardWrites [(1, MessageBinary, sample_frame_bytes)] AwaitFrame
     \<and> c_Username (settled_heap s 1) = c_Username (settled_heap s 2) \<and> c_IsServer (settled_heap s 1) \<noteq> c_IsServer (settled_heap s 2)"
proof (rule sample_started)
  fix todo S
  assume m: "relay_main mem_backend open_jwt (\<lambda>_. []) ''/root'' sample_host True (Inl PingFailed) () (\<lambda>_. NewConn []) fmempty
      = (todo, Some (S, sample_start))" and S: "site_of S (\<lambda>_. []) = sample_site"
  show ?thesis
  proof (rule sample_forwarding)
    fix s
    assume r: "runs sample_site (orderly sample_site) sample_start s"
      and k: "po_pc s 2 = ForwardWrites [(1, MessageBinary, sample_frame_bytes)] AwaitFrame"
    have v: "\<forall>u. owner (id (fmempty :: utable)) u \<noteq> None \<longrightarrow> IsValidUsername u" by (simp add: owner_def)
    have rS: "runs (site_of S (\<lambda>_. [])) (orderly (site_of S (\<lambda>_. []))) sample_start s" using r by (simp only: S)
    note t = started_relay_is_sound [OF mem_relay.relay_backend_axioms v m rS]
    have "c_Username (settled_heap s 1) = c_Username (settled_heap s 2) \<and> c_IsServer (settled_heap s 1) \<noteq> c_IsServer (settled_heap s 2)"
      using t k by force
    with m rS k show ?thesis by auto
  qed
qed

end
